(* ===== verification/Prelude.thy ===== *)
theory Prelude
  imports Main "HOL-Library.Word" "HOL-Library.Multiset"
begin

section \<open>Shared types, results and automation\<close>

text \<open>
  What every component of the model shares: the machine integers of the Rust code, panics
  and \<open>std::io::Error\<close> as values, sequencing of fallible computations, checked \<open>usize\<close>
  arithmetic, and the generic lemmas on lists and words the component proofs use.

  A Rust function that may panic returns \<open>panic + 'a\<close> (\<open>Inl\<close> is the panic); one that
  returns \<open>std::io::Result\<close> returns \<open>io_error + 'a\<close>. A \<open>Vec\<close> is a list, with \<open>push\<close> at
  its end; a \<open>usize\<close> is a \<open>nat\<close> whose additions are checked against \<open>2 ^ 64\<close>; the
  fixed-width integers are words, an \<open>i32\<close> being a 32-bit word read with \<open>sint\<close>.
\<close>

named_theorems vec_simps \<open>facts about \<open>Vec::push\<close> and \<open>Vec::pop\<close>\<close>
named_theorems result_simps \<open>evaluation of \<open>panic + 'a\<close> and \<open>io_error + 'a\<close> results\<close>

type_synonym u8 = "8 word"
type_synonym u16 = "16 word"
type_synonym u32 = "32 word"
type_synonym u64 = "64 word"
type_synonym i32 = "32 word"
type_synonym usize = nat
type_synonym ptr = nat

subsection \<open>Panics and I/O errors\<close>

text \<open>
  The panics the code can raise, by their cause. \<open>UseAfterMove\<close> stands for taking a value
  out of a \<open>ManuallyDrop\<close> that was already moved out of, which is undefined behaviour in
  Rust and an error value here.
\<close>

datatype panic =
    UnexpectedKey
  | AlreadyCancelled
  | AlreadyFinished
  | SubmissionQueueFull
  | WaitFailed
  | IndexOutOfBounds
  | InvalidSlabKey
  | Overflow
  | AssertFailed
  | Unreachable
  | UnwrapNone
  | UnwrapErr
  | PolledCompleted
  | UseAfterMove
  | ReactorBusy
  | BuildFailed

datatype io_error =
    OsError i32
  | OtherError string
  | InvalidInput string

subsection \<open>Sequencing\<close>

definition bindR :: "'e + 'a \<Rightarrow> ('a \<Rightarrow> 'e + 'b) \<Rightarrow> 'e + 'b" where
  "bindR m f = (case m of Inl e \<Rightarrow> Inl e | Inr x \<Rightarrow> f x)"

definition mapR :: "('a \<Rightarrow> 'b) \<Rightarrow> 'e + 'a \<Rightarrow> 'e + 'b" where
  "mapR f m = (case m of Inl e \<Rightarrow> Inl e | Inr x \<Rightarrow> Inr (f x))"

lemma bindR_simps [simp, result_simps]:
  "bindR (Inl e) f = Inl e"
  "bindR (Inr x) f = f x"
  by (simp_all add: bindR_def)

lemma mapR_simps [simp, result_simps]:
  "mapR f (Inl e) = Inl e"
  "mapR f (Inr x) = Inr (f x)"
  by (simp_all add: mapR_def)

lemma bindR_Inr_iff: "bindR m f = Inr y \<longleftrightarrow> (\<exists>x. m = Inr x \<and> f x = Inr y)"
  by (cases m) simp_all

lemma bindR_Inl_iff: "bindR m f = Inl e \<longleftrightarrow> m = Inl e \<or> (\<exists>x. m = Inr x \<and> f x = Inl e)"
  by (cases m) auto

lemma mapR_Inr_iff: "mapR f m = Inr y \<longleftrightarrow> (\<exists>x. m = Inr x \<and> y = f x)"
  by (cases m) auto

lemma mapR_Inl_iff: "mapR f m = Inl e \<longleftrightarrow> m = Inl e"
  by (cases m) auto

lemma bindR_assoc: "bindR (bindR m f) g = bindR m (\<lambda>x. bindR (f x) g)"
  by (cases m) simp_all

definition usize_add :: "usize \<Rightarrow> usize \<Rightarrow> panic + usize" where
  "usize_add a b = (if a + b < 2 ^ 64 then Inr (a + b) else Inl Overflow)"

lemma usize_add_Inr [simp]: "a + b < 2 ^ 64 \<Longrightarrow> usize_add a b = Inr (a + b)"
  by (simp add: usize_add_def)

subsection \<open>Vectors\<close>

text \<open>\<open>Vec::push\<close> and \<open>Vec::pop\<close>: the last element of the list is the top of the vector.\<close>

definition vec_push :: "'a list \<Rightarrow> 'a \<Rightarrow> 'a list" where
  "vec_push xs x = xs @ [x]"

definition vec_pop :: "'a list \<Rightarrow> ('a \<times> 'a list) option" where
  "vec_pop xs = (if xs = [] then None else Some (last xs, butlast xs))"

lemma vec_pop_Nil [simp, vec_simps]: "vec_pop [] = None"
  by (simp add: vec_pop_def)

lemma vec_pop_push [simp, vec_simps]: "vec_pop (vec_push xs x) = Some (x, xs)"
  by (simp add: vec_pop_def vec_push_def)

lemma vec_pop_snoc [simp, vec_simps]: "vec_pop (xs @ [x]) = Some (x, xs)"
  by (simp add: vec_pop_def)

lemma vec_pop_None [vec_simps]: "vec_pop xs = None \<longleftrightarrow> xs = []"
  by (simp add: vec_pop_def)

lemma vec_pop_Some [vec_simps]: "vec_pop xs = Some (x, ys) \<longleftrightarrow> xs = ys @ [x]"
  by (cases xs rule: rev_cases) (auto simp: vec_pop_def)

lemma set_vec_push [simp, vec_simps]: "set (vec_push xs x) = insert x (set xs)"
  by (simp add: vec_push_def)

lemma length_vec_push [simp, vec_simps]: "length (vec_push xs x) = Suc (length xs)"
  by (simp add: vec_push_def)

lemma distinct_vec_push [simp, vec_simps]: "distinct (vec_push xs x) \<longleftrightarrow> distinct xs \<and> x \<notin> set xs"
  by (simp add: vec_push_def)

subsection \<open>Words\<close>

lemma unat_plus_one: "(a :: u32) < b \<Longrightarrow> unat (a + 1) = unat a + 1"
proof -
  assume ab: "a < b"
  have "unat a + 1 < 2 ^ 32"
    using ab unsigned_less [of b, where ?'a = nat] by (simp add: word_less_nat_alt)
  then show ?thesis by (simp add: unat_word_ariths)
qed

lemma unat_of_nat_u32: "n < 2 ^ 32 \<Longrightarrow> unat (of_nat n :: u32) = n"
  by (simp add: unat_of_nat take_bit_nat_eq_self)

lemma unat_less_u32: "unat (k :: u32) < 2 ^ 32"
  using unsigned_less [of k, where ?'a = nat] by simp

lemma unat_u32_inject: "unat (a :: u32) = unat b \<longleftrightarrow> a = b"
  by (simp add: word_unat_eq_iff)

end
