(* ===== verification/Slab.thy ===== *)
theory Slab
  imports Prelude
begin

section \<open>The slab interface\<close>

text \<open>
  \<open>slab::Slab\<close> is a crate outside the repository, so its operations are a parameter of the
  model: a record of functions on an opaque state \<open>'s\<close>, passed to every definition that
  uses a slab (\<open>CompletionSet\<close>, \<open>BufferStorage\<close>). The locale \<open>slab\<close> states the documented
  behaviour the code relies on: a slab maps keys to values, \<open>insert\<close> returns a key that was
  vacant, \<open>get_mut\<close> and \<open>remove\<close> act on one key, \<open>remove\<close> of a vacant key panics, \<open>len\<close>
  counts the occupied keys, and keys are dense: while fewer than \<open>2 ^ 32\<close> values are stored
  the key fits the \<open>u32\<close> the code truncates it to. \<open>vec_slab\<close> is an instance, a vector of
  optional entries as the crate describes itself, on which witnesses evaluate.
\<close>

record ('s, 'a) slab_ops =
  sl_with_capacity :: "usize \<Rightarrow> 's"
  sl_insert :: "'a \<Rightarrow> 's \<Rightarrow> usize \<times> 's"
  sl_get :: "'s \<Rightarrow> usize \<Rightarrow> 'a option"
  sl_set :: "usize \<Rightarrow> 'a \<Rightarrow> 's \<Rightarrow> 's"
  sl_remove :: "usize \<Rightarrow> 's \<Rightarrow> ('a \<times> 's) option"
  sl_len :: "'s \<Rightarrow> usize"
  sl_clear :: "'s \<Rightarrow> 's"

definition sl_is_empty :: "('s, 'a) slab_ops \<Rightarrow> 's \<Rightarrow> bool" where
  "sl_is_empty sl s \<longleftrightarrow> sl_len sl s = 0"

locale slab =
  fixes sl :: "('s, 'a) slab_ops"
    and valid :: "'s \<Rightarrow> bool"
  assumes valid_new: "valid (sl_with_capacity sl c)"
    and get_new: "sl_get sl (sl_with_capacity sl c) = (\<lambda>_. None)"
    and insert_fresh: "\<lbrakk>valid s; sl_insert sl x s = (k, s')\<rbrakk> \<Longrightarrow> sl_get sl s k = None"
    and insert_small:
      "\<lbrakk>valid s; sl_insert sl x s = (k, s'); sl_len sl s < 2 ^ 32\<rbrakk> \<Longrightarrow> k < 2 ^ 32 \<and> valid s'"
    and get_insert:
      "\<lbrakk>valid s; sl_insert sl x s = (k, s')\<rbrakk> \<Longrightarrow> sl_get sl s' = (sl_get sl s)(k \<mapsto> x)"
    and valid_set: "\<lbrakk>valid s; sl_get sl s k \<noteq> None\<rbrakk> \<Longrightarrow> valid (sl_set sl k x s)"
    and get_set:
      "\<lbrakk>valid s; sl_get sl s k \<noteq> None\<rbrakk> \<Longrightarrow> sl_get sl (sl_set sl k x s) = (sl_get sl s)(k \<mapsto> x)"
    and remove_vacant: "\<lbrakk>valid s; sl_get sl s k = None\<rbrakk> \<Longrightarrow> sl_remove sl k s = None"
    and remove_occupied:
      "\<lbrakk>valid s; sl_get sl s k = Some x\<rbrakk> \<Longrightarrow>
        \<exists>s'. sl_remove sl k s = Some (x, s') \<and> valid s' \<and> sl_get sl s' = (sl_get sl s)(k := None)"
    and finite_slab: "valid s \<Longrightarrow> finite (dom (sl_get sl s))"
    and len_card: "valid s \<Longrightarrow> sl_len sl s = card (dom (sl_get sl s))"
    and valid_clear: "valid s \<Longrightarrow> valid (sl_clear sl s)"
    and get_clear: "valid s \<Longrightarrow> sl_get sl (sl_clear sl s) = (\<lambda>_. None)"
begin

lemma is_empty_iff: "valid s \<Longrightarrow> sl_is_empty sl s \<longleftrightarrow> sl_get sl s = (\<lambda>_. None)"
  by (auto simp: sl_is_empty_def len_card finite_slab)

lemma len_new: "sl_len sl (sl_with_capacity sl c) = 0"
  by (simp add: len_card valid_new get_new dom_def)

lemma len_insert:
  assumes "valid s" "sl_len sl s < 2 ^ 32" "sl_insert sl x s = (k, s')"
  shows "sl_len sl s' = Suc (sl_len sl s)"
proof -
  have v': "valid s'" using insert_small [OF assms(1,3,2)] by simp
  have "k \<notin> dom (sl_get sl s)" using insert_fresh [OF assms(1,3)] by auto
  moreover have "dom (sl_get sl s') = insert k (dom (sl_get sl s))"
    using get_insert [OF assms(1,3)] by auto
  ultimately show ?thesis
    using finite_slab [OF assms(1)] by (simp add: len_card [OF v'] len_card [OF assms(1)] del: fun_upd_apply)
qed

lemma len_remove:
  assumes "valid s" "sl_remove sl k s = Some (x, s')"
  shows "Suc (sl_len sl s') = sl_len sl s"
proof -
  have "sl_get sl s k \<noteq> None" using remove_vacant [OF assms(1)] assms(2) by fastforce
  then obtain y where y: "sl_get sl s k = Some y" by blast
  from remove_occupied [OF assms(1) y] assms(2)
  have v': "valid s'" and g: "sl_get sl s' = (sl_get sl s)(k := None)" by auto
  have "k \<in> dom (sl_get sl s)" using y by auto
  moreover have "dom (sl_get sl s') = dom (sl_get sl s) - {k}" using g by auto
  ultimately show ?thesis
    using finite_slab [OF assms(1)]
    by (simp only: len_card [OF v'] len_card [OF assms(1)] card_Suc_Diff1)
qed

end

subsection \<open>A vector of entries\<close>

fun vec_vacant :: "'a option list \<Rightarrow> usize" where
  "vec_vacant [] = 0"
| "vec_vacant (None # xs) = 0"
| "vec_vacant (Some _ # xs) = Suc (vec_vacant xs)"

definition vec_get :: "'a option list \<Rightarrow> usize \<Rightarrow> 'a option" where
  "vec_get xs k = (if k < length xs then xs ! k else None)"

definition vec_insert :: "'a \<Rightarrow> 'a option list \<Rightarrow> usize \<times> 'a option list" where
  "vec_insert x xs =
     (let k = vec_vacant xs
      in (k, if k < length xs then xs[k := Some x] else xs @ [Some x]))"

definition vec_remove :: "usize \<Rightarrow> 'a option list \<Rightarrow> ('a \<times> 'a option list) option" where
  "vec_remove k xs = map_option (\<lambda>x. (x, xs[k := None])) (vec_get xs k)"

definition vec_len :: "'a option list \<Rightarrow> usize" where
  "vec_len xs = length (filter (\<lambda>e. e \<noteq> None) xs)"

definition vec_slab :: "('a option list, 'a) slab_ops" where
  "vec_slab =
     \<lparr>sl_with_capacity = (\<lambda>_. []), sl_insert = vec_insert, sl_get = vec_get,
      sl_set = (\<lambda>k x xs. xs[k := Some x]), sl_remove = vec_remove, sl_len = vec_len,
      sl_clear = (\<lambda>_. [])\<rparr>"

definition vec_valid :: "'a option list \<Rightarrow> bool" where
  "vec_valid xs \<longleftrightarrow> length xs \<le> 2 ^ 32"

lemma vec_vacant_le: "vec_vacant xs \<le> length xs"
  by (induction xs rule: vec_vacant.induct) auto

lemma vec_vacant_None: "vec_vacant xs < length xs \<Longrightarrow> xs ! vec_vacant xs = None"
  by (induction xs rule: vec_vacant.induct) auto

lemma vec_vacant_full: "vec_vacant xs = length xs \<Longrightarrow> vec_len xs = length xs"
  by (induction xs rule: vec_vacant.induct) (auto simp: vec_len_def)

lemma dom_vec_get: "dom (vec_get xs) = {k. k < length xs \<and> xs ! k \<noteq> None}"
  by (auto simp: vec_get_def split: if_splits)

lemma vec_len_card: "vec_len xs = card (dom (vec_get xs))"
  by (simp add: vec_len_def dom_vec_get length_filter_conv_card)

lemma vec_get_insert: "vec_insert x xs = (k, xs') \<Longrightarrow> vec_get xs' = (vec_get xs)(k \<mapsto> x)"
  using vec_vacant_le [of xs]
  by (cases "vec_vacant xs < length xs")
    (auto simp: vec_insert_def vec_get_def Let_def nth_append nth_list_update fun_eq_iff)

interpretation vec: slab vec_slab vec_valid
proof (unfold_locales, goal_cases)
  case (4 s x k s')
  then show ?case
    using vec_vacant_le [of s] vec_vacant_full [of s]
    by (cases "vec_vacant s < length s") (auto simp: vec_slab_def vec_valid_def vec_insert_def Let_def)
next
  case (9 s k x)
  then show ?case
    by (auto simp: vec_slab_def vec_valid_def vec_remove_def vec_get_def nth_list_update fun_eq_iff)
qed (use vec_vacant_None in \<open>auto simp: vec_slab_def vec_valid_def vec_get_def vec_remove_def
      vec_len_card vec_get_insert dom_vec_get vec_insert_def Let_def nth_list_update fun_eq_iff
      split: if_splits\<close>)

end
