(* ===== verification/Results.thy ===== *)
theory Results
  imports Prelude
begin

section \<open>Completion results (ring/mod.rs, RingResult; ring/completion.rs, Key)\<close>

text \<open>
  A completion queue entry carries the submission's \<open>user_data\<close>, the result and the flags.
  How the flags are read belongs to the \<open>io_uring\<close> crate (\<open>cqueue::more\<close> and
  \<open>cqueue::buffer_select\<close>), so the two readers are a parameter, the record \<open>cqueue_ops\<close>;
  \<open>cq_abi\<close> is the reading the kernel's documentation gives (bit 1 is
  \<open>IORING_CQE_F_MORE\<close>, bit 0 \<open>IORING_CQE_F_BUFFER\<close> with the buffer id in the upper half),
  used by witnesses.
\<close>

unbundle bit_operations_syntax

record cqueue_ops =
  cq_more :: "u32 \<Rightarrow> bool"
  cq_buffer_select :: "u32 \<Rightarrow> u16 option"

record cqe =
  cqe_user_data :: u64
  cqe_result :: i32
  cqe_flags :: u32

record ring_result =
  ret :: i32
  flags :: u32

definition from_completion :: "cqe \<Rightarrow> ring_result" where
  "from_completion e = \<lparr>ret = cqe_result e, flags = cqe_flags e\<rparr>"

definition has_more :: "cqueue_ops \<Rightarrow> ring_result \<Rightarrow> bool" where
  "has_more cq r = cq_more cq (flags r)"

definition buffer_id :: "cqueue_ops \<Rightarrow> ring_result \<Rightarrow> u16 option" where
  "buffer_id cq r = cq_buffer_select cq (flags r)"

definition cq_abi :: cqueue_ops where
  "cq_abi =
     \<lparr>cq_more = (\<lambda>f. f AND 2 \<noteq> 0),
      cq_buffer_select = (\<lambda>f. if f AND 1 \<noteq> 0 then Some (ucast (drop_bit 16 f)) else None)\<rparr>"

subsection \<open>Keys\<close>

datatype key = Key u32

definition key_from_usize :: "usize \<Rightarrow> key" where
  "key_from_usize v = Key (of_nat v)"

definition key_as_usize :: "key \<Rightarrow> usize" where
  "key_as_usize k = (case k of Key v \<Rightarrow> unat v)"

definition key_from_u64 :: "u64 \<Rightarrow> key" where
  "key_from_u64 v = Key (ucast v)"

definition key_as_u64 :: "key \<Rightarrow> u64" where
  "key_as_u64 k = (case k of Key v \<Rightarrow> ucast v)"

text \<open>\<open>IGNORE_KEY = u64::MAX - 1\<close> marks submissions whose completion is dropped.\<close>

definition IGNORE_KEY :: u64 where
  "IGNORE_KEY = - 2"

lemma key_roundtrip_u64 [simp]: "key_from_u64 (key_as_u64 k) = k"
  by (cases k) (simp add: key_from_u64_def key_as_u64_def ucast_down_ucast_id is_down)

lemma key_roundtrip_usize: "v < 2 ^ 32 \<Longrightarrow> key_as_usize (key_from_usize v) = v"
  by (simp add: key_as_usize_def key_from_usize_def unat_of_nat_u32)

lemma key_as_usize_inject [simp]: "key_as_usize a = key_as_usize b \<longleftrightarrow> a = b"
  by (cases a; cases b) (simp add: key_as_usize_def unat_u32_inject)

lemma key_as_usize_less: "key_as_usize k < 2 ^ 32"
  using unat_less_u32 by (cases k) (simp add: key_as_usize_def)

lemma key_as_u64_inject [simp]: "key_as_u64 a = key_as_u64 b \<longleftrightarrow> a = b"
  by (metis key_roundtrip_u64)

lemma key_not_ignored [simp]: "key_as_u64 k \<noteq> IGNORE_KEY"
proof
  assume eq: "key_as_u64 k = IGNORE_KEY"
  obtain v where k: "k = Key v" by (cases k)
  have "unat (key_as_u64 k) = take_bit 64 (unat v)" by (simp add: k key_as_u64_def unsigned_ucast_eq)
  then have "unat (key_as_u64 k) < 2 ^ 32"
    using unat_less_u32 [of v] take_bit_nat_less_eq_self [of 64 "unat v"] by linarith
  moreover have "unat IGNORE_KEY = 2 ^ 64 - 2" by (simp add: IGNORE_KEY_def)
  ultimately show False using eq by simp
qed

end
