(* ===== verification/Cancel.thy ===== *)
theory Cancel
  imports Results
begin

section \<open>Cancellations (cancellation.rs)\<close>

text \<open>
  A \<open>Cancellation\<close> owns what a dropped operation still shares with the kernel. The struct's
  four fields are kept: the raw pointer, the metadata and the two optional function
  pointers. The \<open>drop\<close> closures of the code are the constructors of \<open>drop_fn\<close>;
  \<open>DropCancels cs\<close> is the closure of \<open>combine\<close>, with the vector of cancellations it rebuilds
  from the pointer. A \<open>consume\<close> pointer is a callback identifier. Running them has effects on
  memory and on the owner, recorded as events: \<open>Freed\<close> names the allocation released and,
  for a vector, the capacity passed to the allocator, and \<open>Consumed\<close> the callback called.
\<close>

type_synonym callback = nat
type_synonym waker = nat

datatype alloc =
    AllocRc ptr
  | AllocBox ptr
  | AllocVec ptr usize

datatype event =
    Wake waker
  | Consumed ptr callback ring_result
  | Freed alloc

datatype cancellation =
    Cancellation (c_ptr: ptr) (c_metadata: usize) (c_drop: "drop_fn option") (c_consume: "callback option")
and drop_fn =
    DropRc
  | DropBox
  | DropVec
  | DropCancels "cancellation list"

definition null_ptr :: ptr where
  "null_ptr = 0"

definition cancel_empty :: cancellation where
  "cancel_empty = Cancellation null_ptr 0 None None"

subsection \<open>The values a cancellation can own\<close>

text \<open>
  \<open>Box<T>\<close> and \<open>Rc<T>\<close> are their addresses. \<open>Box<[T]>\<close> has no spare capacity; a \<open>Vec<T>\<close> may.
  A \<open>CString\<close> allocates one byte more than its text, for the nul.
\<close>

record 'a boxed_slice =
  bs_ptr :: ptr
  bs_data :: "'a list"

record 'a vec =
  vec_ptr :: ptr
  vec_data :: "'a list"
  vec_cap :: usize

record cstring =
  cstr_ptr :: ptr
  cstr_bytes :: "u8 list"

definition cstring_into_bytes :: "cstring \<Rightarrow> u8 vec" where
  "cstring_into_bytes s =
     \<lparr>vec_ptr = cstr_ptr s, vec_data = cstr_bytes s, vec_cap = length (cstr_bytes s) + 1\<rparr>"

definition free_vec :: "ptr \<Rightarrow> usize \<Rightarrow> event list" where
  "free_vec p cap = (if cap = 0 then [] else [Freed (AllocVec p cap)])"

subsection \<open>Construction\<close>

definition cancel_consuming :: "ptr \<Rightarrow> callback \<Rightarrow> cancellation" where
  "cancel_consuming rc consume = Cancellation rc 0 (Some DropRc) (Some consume)"

definition cancel_combine :: "cancellation vec \<Rightarrow> cancellation" where
  "cancel_combine cancels =
     Cancellation (vec_ptr cancels) (length (vec_data cancels)) (Some (DropCancels (vec_data cancels))) None"

definition cancel_from_box :: "ptr \<Rightarrow> cancellation" where
  "cancel_from_box p = Cancellation p 0 (Some DropBox) None"

definition cancel_from_option_box :: "ptr option \<Rightarrow> cancellation" where
  "cancel_from_option_box v = (case v of None \<Rightarrow> cancel_empty | Some p \<Rightarrow> cancel_from_box p)"

definition cancel_from_boxed_slice :: "'a boxed_slice \<Rightarrow> cancellation" where
  "cancel_from_boxed_slice b = Cancellation (bs_ptr b) (length (bs_data b)) (Some DropVec) None"

definition cancel_from_option_boxed_slice :: "'a boxed_slice option \<Rightarrow> cancellation" where
  "cancel_from_option_boxed_slice v =
     (case v of None \<Rightarrow> cancel_empty | Some b \<Rightarrow> cancel_from_boxed_slice b)"

definition cancel_from_vec :: "'a vec \<Rightarrow> cancellation" where
  "cancel_from_vec v = Cancellation (vec_ptr v) (length (vec_data v)) (Some DropVec) None"

definition cancel_from_string :: "u8 vec \<Rightarrow> cancellation" where
  "cancel_from_string s = cancel_from_vec s"

definition cancel_from_cstring :: "cstring \<Rightarrow> cancellation" where
  "cancel_from_cstring s = cancel_from_vec (cstring_into_bytes s)"

definition cancel_from_static_slice :: "u8 list \<Rightarrow> cancellation" where
  "cancel_from_static_slice _ = cancel_empty"

definition cancel_from_static_str :: "string \<Rightarrow> cancellation" where
  "cancel_from_static_str _ = cancel_empty"

subsection \<open>Consumption and release\<close>

definition cancel_consume :: "cancellation \<Rightarrow> ring_result \<Rightarrow> event list" where
  "cancel_consume c r = (case c_consume c of None \<Rightarrow> [] | Some f \<Rightarrow> [Consumed (c_ptr c) f r])"

fun drop_raw :: "cancellation \<Rightarrow> event list"
  and run_drop :: "drop_fn \<Rightarrow> ptr \<Rightarrow> usize \<Rightarrow> event list" where
  "drop_raw (Cancellation p m None f) = []"
| "drop_raw (Cancellation p m (Some d) f) = run_drop d p m"
| "run_drop DropRc p m = [Freed (AllocRc p)]"
| "run_drop DropBox p m = [Freed (AllocBox p)]"
| "run_drop DropVec p m = free_vec p m"
| "run_drop (DropCancels cs) p m = concat (map drop_raw cs) @ free_vec p m"

text \<open>What each kind of value owns: the events its own destructor would cause.\<close>

definition slice_release :: "'a boxed_slice \<Rightarrow> event list" where
  "slice_release b = free_vec (bs_ptr b) (length (bs_data b))"

definition vec_release :: "'a vec \<Rightarrow> event list" where
  "vec_release v = free_vec (vec_ptr v) (vec_cap v)"

definition cstring_release :: "cstring \<Rightarrow> event list" where
  "cstring_release s = free_vec (cstr_ptr s) (length (cstr_bytes s) + 1)"

lemma drop_raw_empty [simp]: "drop_raw cancel_empty = []"
  by (simp add: cancel_empty_def)

lemma drop_raw_box [simp]: "drop_raw (cancel_from_box p) = [Freed (AllocBox p)]"
  by (simp add: cancel_from_box_def)

lemma drop_raw_slice [simp]: "drop_raw (cancel_from_boxed_slice b) = slice_release b"
  by (simp add: cancel_from_boxed_slice_def slice_release_def)

lemma drop_raw_vec [simp]: "drop_raw (cancel_from_vec v) = free_vec (vec_ptr v) (length (vec_data v))"
  by (simp add: cancel_from_vec_def)

lemma drop_raw_consuming [simp]: "drop_raw (cancel_consuming p f) = [Freed (AllocRc p)]"
  by (simp add: cancel_consuming_def)

lemma drop_raw_combine [simp]:
  "drop_raw (cancel_combine v) = concat (map drop_raw (vec_data v)) @ free_vec (vec_ptr v) (length (vec_data v))"
  by (simp add: cancel_combine_def)

lemma consume_silent [simp]:
  "cancel_consume cancel_empty r = []"
  "cancel_consume (cancel_from_box p) r = []"
  "cancel_consume (cancel_from_boxed_slice b) r = []"
  "cancel_consume (cancel_from_vec v) r = []"
  "cancel_consume (cancel_combine cs) r = []"
  by (simp_all add: cancel_consume_def cancel_empty_def cancel_from_box_def
      cancel_from_boxed_slice_def cancel_from_vec_def cancel_combine_def)

lemma consume_consuming [simp]: "cancel_consume (cancel_consuming p f) r = [Consumed p f r]"
  by (simp add: cancel_consume_def cancel_consuming_def)

text \<open>\<open>drop_raw\<close> only frees and \<open>consume\<close> only calls back: neither wakes a task.\<close>

definition is_freed :: "event \<Rightarrow> bool" where
  "is_freed e = (case e of Freed _ \<Rightarrow> True | _ \<Rightarrow> False)"

lemma free_vec_freed: "list_all is_freed (free_vec p n)"
  by (simp add: free_vec_def is_freed_def)

lemma drop_raw_frees: "list_all is_freed (drop_raw c)"
  and run_drop_frees: "list_all is_freed (run_drop d p m)"
proof (induction c and d p m rule: drop_raw_run_drop.induct)
  case (6 cs p m)
  then show ?case by (auto simp: list_all_iff free_vec_freed [unfolded list_all_iff])
next
  case (5 p m)
  then show ?case by (simp add: free_vec_freed)
qed (simp_all add: is_freed_def)

end
