(* ===== verification/CompletionSpec.thy ===== *)
theory CompletionSpec
  imports Completion
begin

section \<open>The completion set refines its specification\<close>

text \<open>
  The abstract state of an operation, the abstract operations, the invariant \<open>cs_ok\<close> that ties
  slab entries to result queues, and the simulation lemmas, first on the map of entries and
  then, inside the \<open>slab\<close> locale, on any slab.
\<close>

subsection \<open>Specification\<close>

text \<open>
  \<open>Live w rs\<close>: results \<open>rs\<close> have arrived and were not taken; \<open>w = Some waker\<close> while more are
  coming. \<open>Gone c\<close>: cancelled, and \<open>c\<close> waits for the kernel's last result.
\<close>

datatype acompletion = Live "waker option" "ring_result list" | Gone cancellation

fun a_notify :: "cqueue_ops \<Rightarrow> ring_result \<Rightarrow> acompletion \<Rightarrow> acompletion option \<times> event list" where
  "a_notify cq r (Live (Some w) rs) =
     (Some (Live (if has_more cq r then Some w else None) (rs @ [r])), [Wake w])"
| "a_notify cq r (Live None rs) = (Some (Live None rs), [])"
| "a_notify cq r (Gone c) = (None, cancel_consume c r @ drop_raw c)"

fun a_result :: "acompletion \<Rightarrow> ring_result option \<times> acompletion option" where
  "a_result (Live w []) = (None, Some (Live w []))"
| "a_result (Live w (r # rs)) = (Some r, if rs = [] \<and> w = None then None else Some (Live w rs))"
| "a_result (Gone c) = (None, Some (Gone c))"

fun a_cancel :: "cancellation \<Rightarrow> acompletion \<Rightarrow> bool \<times> acompletion option \<times> event list" where
  "a_cancel c (Live w rs) =
     (let consumed = concat (map (cancel_consume c) rs)
      in if w = None then (False, None, consumed @ drop_raw c) else (True, Some (Gone c), consumed))"
| "a_cancel c (Gone d) = (False, Some (Gone d), [])"

definition expects_more :: "acompletion \<Rightarrow> bool" where
  "expects_more a = (case a of Live w _ \<Rightarrow> w \<noteq> None | Gone _ \<Rightarrow> True)"

subsection \<open>Abstraction and invariant\<close>

definition queue_at :: "result_queues \<Rightarrow> queue_handle \<Rightarrow> ring_result list" where
  "queue_at q h = queues q ! handle_index h"

definition abs_comp :: "result_queues \<Rightarrow> completion \<Rightarrow> acompletion" where
  "abs_comp q c =
     (case c of
        Vacant w \<Rightarrow> Live (Some w) []
      | Single r \<Rightarrow> Live None [r]
      | Multiple w h m \<Rightarrow> Live (if m then Some w else None) (queue_at q h)
      | Cancelled d \<Rightarrow> Gone d
      | Finished \<Rightarrow> Live None [])"

definition abs_map :: "(usize \<rightharpoonup> completion) \<Rightarrow> result_queues \<Rightarrow> usize \<rightharpoonup> acompletion" where
  "abs_map g q = (\<lambda>k. map_option (abs_comp q) (g k))"

definition held :: "(usize \<rightharpoonup> completion) \<Rightarrow> usize \<rightharpoonup> queue_handle" where
  "held g k = (case g k of Some (Multiple w h m) \<Rightarrow> Some h | _ \<Rightarrow> None)"

definition update :: "(usize \<rightharpoonup> completion) \<Rightarrow> usize \<Rightarrow> completion \<Rightarrow> (usize \<rightharpoonup> completion)" where
  "update g k c = g(k := if is_finished c then None else Some c)"

definition cs_ok :: "(usize \<rightharpoonup> completion) \<Rightarrow> result_queues \<Rightarrow> bool" where
  "cs_ok g q \<longleftrightarrow>
     dom g \<subseteq> {..<2 ^ 32} \<and>
     (\<forall>k. g k \<noteq> Some Finished) \<and>
     (\<forall>k w h. g k = Some (Multiple w h False) \<longrightarrow> queue_at q h \<noteq> []) \<and>
     inj_on (held g) (dom (held g)) \<and>
     distinct (unused q) \<and>
     ran (held g) \<inter> set (unused q) = {} \<and>
     handle_index ` (ran (held g) \<union> set (unused q)) = {..<length (queues q)} \<and>
     (\<forall>h\<in>set (unused q). queue_at q h = [])"

lemma handle_index_inject [simp]: "handle_index a = handle_index b \<longleftrightarrow> a = b"
  by (cases a; cases b) (simp add: handle_index_def unat_u32_inject)

lemma inj_handle_index: "inj_on handle_index A"
  by (simp add: inj_on_def)

lemma is_finished_simps [simp]:
  "\<not> is_finished (Vacant w)" "\<not> is_finished (Single r)" "\<not> is_finished (Multiple w h m)"
  "\<not> is_finished (Cancelled d)" "is_finished Finished"
  by (simp_all add: is_finished_def)

lemma is_finished_iff: "is_finished c \<longleftrightarrow> c = Finished"
  by (cases c) simp_all

lemma held_update:
  "held (update g k c) = (held g)(k := (case c of Multiple w h m \<Rightarrow> Some h | _ \<Rightarrow> None))"
  by (auto simp: held_def update_def fun_eq_iff split: completion.splits)

lemma held_Multiple: "g k = Some (Multiple w h m) \<Longrightarrow> held g k = Some h"
  by (simp add: held_def)

lemma held_dom: "dom (held g) \<subseteq> dom g"
  by (auto simp: held_def split: option.splits)

lemma held_unique:
  assumes "cs_ok g q" "held g k = Some h" "held g k' = Some h"
  shows "k = k'"
  using assms by (auto simp: cs_ok_def inj_on_def dom_def)

lemma held_bound:
  assumes "cs_ok g q" "held g k = Some h"
  shows "handle_index h < length (queues q)"
proof -
  have "h \<in> ran (held g)" using assms(2) by (rule ranI)
  then have "handle_index h \<in> {..<length (queues q)}" using assms(1) by (auto simp: cs_ok_def)
  then show ?thesis by simp
qed

lemma rq_get_held [simp]:
  "cs_ok g q \<Longrightarrow> held g k = Some h \<Longrightarrow> rq_get h q = Inr (queue_at q h)"
  by (simp add: rq_get_def held_bound queue_at_def)

lemma abs_map_update:
  assumes "\<And>k' c. k' \<noteq> k \<Longrightarrow> g k' = Some c \<Longrightarrow> abs_comp q' c = abs_comp q c"
  shows "abs_map (update g k c) q' =
    (abs_map g q)(k := if is_finished c then None else Some (abs_comp q' c))"
  using assms by (auto simp: abs_map_def update_def fun_eq_iff split: option.splits intro: option.map_cong)

lemma abs_comp_cong:
  assumes "\<And>w h m. c = Multiple w h m \<Longrightarrow> queue_at q' h = queue_at q h"
  shows "abs_comp q' c = abs_comp q c"
  using assms by (auto simp: abs_comp_def split: completion.splits)

subsection \<open>Entries without a queue\<close>

lemma ran_held_clear: "cs_ok g q \<Longrightarrow> held g k = None \<Longrightarrow> ran ((held g)(k := None)) = ran (held g)"
  by (simp add: fun_upd_idem)

lemma cs_ok_update_plain:
  assumes ok: "cs_ok g q" and k: "k < 2 ^ 32" and h: "held g k = None"
    and c: "\<And>w h m. c \<noteq> Multiple w h m"
  shows "cs_ok (update g k c) q"
    and "abs_map (update g k c) q =
      (abs_map g q)(k := if is_finished c then None else Some (abs_comp q c))"
proof -
  have e: "held (update g k c) = held g"
    using c h by (auto simp: held_update fun_upd_idem split: completion.splits)
  show "cs_ok (update g k c) q"
    using ok k c unfolding cs_ok_def e
    by (auto simp: update_def is_finished_iff dom_def)
qed (rule abs_map_update, simp)

subsection \<open>Acquiring, filling and releasing a queue\<close>

lemma card_held_less:
  assumes ok: "cs_ok g q" and v: "g k = Some c" and h: "held g k = None"
  shows "card (ran (held g)) < 2 ^ 32"
proof -
  have sub: "dom (held g) \<subseteq> dom g - {k}" using held_dom [of g] h by auto
  have fin: "finite (dom g)" and le: "card (dom g) \<le> 2 ^ 32"
    using ok finite_subset [of "dom g" "{..<2 ^ 32}"] card_mono [of "{..<2 ^ 32 :: nat}" "dom g"]
    by (auto simp: cs_ok_def)
  have "ran (held g) = (\<lambda>k. the (held g k)) ` dom (held g)"
    by (auto simp: ran_def dom_def image_iff) (metis option.sel)
  then have "card (ran (held g)) \<le> card (dom (held g))"
    using finite_subset [OF held_dom fin] by (simp add: card_image_le)
  also have "\<dots> \<le> card (dom g - {k})" using sub fin by (simp add: card_mono)
  also have "\<dots> < card (dom g)" using v by (intro card_Diff1_less [OF fin]) auto
  finally show ?thesis using le by simp
qed

lemma rq_handle_ok:
  assumes ok: "cs_ok g q" and v: "g k = Some c" and h: "held g k = None"
    and r: "rq_handle q = (hn, q1)"
  shows "hn \<notin> ran (held g)" "handle_index hn < length (queues q1)" "queue_at q1 hn = []"
    "hn \<notin> set (unused q1)" "distinct (unused q1)" "set (unused q1) \<subseteq> set (unused q)"
    "handle_index ` (ran (held g) \<union> insert hn (set (unused q1))) = {..<length (queues q1)}"
    "\<And>h'. h' \<in> ran (held g) \<union> set (unused q1) \<Longrightarrow> queue_at q1 h' = queue_at q h'"
proof -
  have ix: "handle_index ` (ran (held g) \<union> set (unused q)) = {..<length (queues q)}"
    and disj: "ran (held g) \<inter> set (unused q) = {}" and dist: "distinct (unused q)"
    and emp: "\<forall>h\<in>set (unused q). queue_at q h = []"
    using ok by (simp_all add: cs_ok_def)
  have "hn \<notin> ran (held g) \<and> handle_index hn < length (queues q1) \<and> queue_at q1 hn = [] \<and>
    hn \<notin> set (unused q1) \<and> distinct (unused q1) \<and> set (unused q1) \<subseteq> set (unused q) \<and>
    handle_index ` (ran (held g) \<union> insert hn (set (unused q1))) = {..<length (queues q1)} \<and>
    (\<forall>h'\<in>ran (held g) \<union> set (unused q1). queue_at q1 h' = queue_at q h')"
  proof (cases "vec_pop (unused q)")
    case (Some p)
    then obtain rest where u: "unused q = rest @ [hn]" and q1: "q1 = q\<lparr>unused := rest\<rparr>"
      using r by (cases p) (auto simp: rq_handle_def vec_simps)
    have "handle_index hn \<in> handle_index ` (ran (held g) \<union> set (unused q))" using u by simp
    then have "handle_index hn < length (queues q)" unfolding ix by simp
    moreover have "ran (held g) \<union> insert hn (set rest) = ran (held g) \<union> set (unused q)"
      using u by auto
    ultimately show ?thesis using u q1 ix disj dist emp by (auto simp: queue_at_def)
  next
    case None
    then have u: "unused q = []" and hn: "hn = QueueHandle (of_nat (length (queues q)))"
      and q1: "q1 = q\<lparr>queues := vec_push (queues q) []\<rparr>"
      using r by (auto simp: rq_handle_def vec_simps Let_def)
    have len: "length (queues q) = card (ran (held g))"
      using ix u by (metis card_image card_lessThan inj_handle_index sup_bot.right_neutral list.set(1))
    then have i: "handle_index hn = length (queues q)"
      using card_held_less [OF ok v h] by (simp add: hn handle_index_def unat_of_nat_u32)
    have "hn \<notin> ran (held g)" using ix i u by (metis UnI1 image_eqI lessThan_iff less_irrefl)
    moreover have "handle_index h' < length (queues q)" if "h' \<in> ran (held g)" for h'
      using that ix u by (metis UnI1 image_eqI lessThan_iff)
    moreover have "handle_index ` (ran (held g) \<union> insert hn {}) = {..<Suc (length (queues q))}"
      using ix u i by (auto simp: lessThan_Suc)
    ultimately show ?thesis using u q1 i by (auto simp: queue_at_def vec_push_def nth_append)
  qed
  then show "hn \<notin> ran (held g)" "handle_index hn < length (queues q1)" "queue_at q1 hn = []"
    "hn \<notin> set (unused q1)" "distinct (unused q1)" "set (unused q1) \<subseteq> set (unused q)"
    "handle_index ` (ran (held g) \<union> insert hn (set (unused q1))) = {..<length (queues q1)}"
    "\<And>h'. h' \<in> ran (held g) \<union> set (unused q1) \<Longrightarrow> queue_at q1 h' = queue_at q h'"
    by blast+
qed

lemma cs_ok_update_multiple:
  assumes ok: "cs_ok g q" and k: "k < 2 ^ 32"
    and h: "held g k = Some h \<or> held g k = None \<and> h \<notin> ran (held g)"
    and un: "distinct (unused q')" "h \<notin> set (unused q')" "set (unused q') \<subseteq> set (unused q)"
    and ix: "handle_index ` (ran (held g) \<union> insert h (set (unused q'))) = {..<length (queues q')}"
    and same: "\<And>h'. h' \<in> ran (held g) \<union> set (unused q') \<Longrightarrow> h' \<noteq> h \<Longrightarrow> queue_at q' h' = queue_at q h'"
    and ne: "m \<or> queue_at q' h \<noteq> []"
  shows "cs_ok (update g k (Multiple w h m)) q'"
    and "abs_map (update g k (Multiple w h m)) q' =
      (abs_map g q)(k \<mapsto> Live (if m then Some w else None) (queue_at q' h))"
proof -
  let ?g = "update g k (Multiple w h m)"
  have e: "held ?g = (held g)(k \<mapsto> h)" by (simp add: held_update)
  have other: "held g k' \<noteq> Some h" if "k' \<noteq> k" for k'
    using h that held_unique [OF ok] by (auto simp: ran_def)
  have r: "ran (held ?g) = insert h (ran (held g))"
    using h by (auto simp: e fun_upd_idem ran_map_upd intro: ranI)
  have inj: "inj_on (held ?g) (dom (held ?g))"
    using ok other by (auto simp: e cs_ok_def inj_on_def dom_def)
  have q_other: "queue_at q' h' = queue_at q h'" if "held g k' = Some h'" "k' \<noteq> k" for k' h'
    using that other [of k'] by (intro same) (auto intro: ranI)
  show "cs_ok ?g q'"
    unfolding cs_ok_def
  proof (intro conjI allI impI)
    fix k' w' h' assume *: "?g k' = Some (Multiple w' h' False)"
    show "queue_at q' h' \<noteq> []"
    proof (cases "k' = k")
      case True
      then show ?thesis using * ne by (simp add: update_def)
    next
      case False
      then have g': "g k' = Some (Multiple w' h' False)" using * by (simp add: update_def)
      have "queue_at q h' \<noteq> []" using ok g' by (simp add: cs_ok_def)
      then show ?thesis using q_other [OF held_Multiple [where g = g, OF g'] False] by simp
    qed
  next
    show "ran (held ?g) \<inter> set (unused q') = {}" using ok un r by (auto simp: cs_ok_def)
  next
    show "\<forall>h\<in>set (unused q'). queue_at q' h = []"
      using ok un same by (auto simp: cs_ok_def subset_iff) (metis UnI2)
  qed (use ok k un ix r inj in \<open>auto simp: cs_ok_def update_def dom_def\<close>)
  show "abs_map ?g q' = (abs_map g q)(k \<mapsto> Live (if m then Some w else None) (queue_at q' h))"
    by (subst abs_map_update [where q = q])
      (auto simp: abs_comp_def[where c = "Multiple w h m"] intro!: abs_comp_cong q_other dest: held_Multiple)
qed

lemma cs_ok_update_release:
  assumes ok: "cs_ok g q" and k: "k < 2 ^ 32" and h: "held g k = Some h"
    and c: "\<And>w h m. c \<noteq> Multiple w h m"
    and q': "q' = \<lparr>queues = (queues q)[handle_index h := []], unused = vec_push (unused q) h\<rparr>"
  shows "cs_ok (update g k c) q'"
    and "abs_map (update g k c) q' =
      (abs_map g q)(k := if is_finished c then None else Some (abs_comp q' c))"
proof -
  have e: "held (update g k c) = (held g)(k := None)"
    using c by (auto simp: held_update split: completion.splits)
  have b: "handle_index h < length (queues q)" using ok h by (rule held_bound)
  have other: "h' \<noteq> h" if "held g k' = Some h'" "k' \<noteq> k" for k' h'
    using that h held_unique [OF ok] by auto
  have hr: "h \<in> ran (held g)" using h by (rule ranI)
  have r: "ran (held (update g k c)) = ran (held g) - {h}"
  proof (intro set_eqI iffI)
    fix x assume "x \<in> ran (held (update g k c))"
    then obtain k' where "held g k' = Some x" "k' \<noteq> k" by (auto simp: e ran_def split: if_splits)
    then show "x \<in> ran (held g) - {h}" using other by (auto intro: ranI)
  next
    fix x assume "x \<in> ran (held g) - {h}"
    then obtain k' where "held g k' = Some x" "k' \<noteq> k" using h by (fastforce simp: ran_def)
    then show "x \<in> ran (held (update g k c))" by (auto simp: e intro!: ranI [where a = k'])
  qed
  have qa: "queue_at q' h' = (if h' = h then [] else queue_at q h')" for h'
    using b by (auto simp: q' queue_at_def nth_list_update)
  have un: "ran (held g) - {h} \<union> insert h (set (unused q)) = ran (held g) \<union> set (unused q)"
    using hr by auto
  show "cs_ok (update g k c) q'"
    unfolding cs_ok_def
  proof (intro conjI allI impI)
    fix k' w' h' assume *: "update g k c k' = Some (Multiple w' h' False)"
    then have k': "k' \<noteq> k" and g': "g k' = Some (Multiple w' h' False)"
      using c by (auto simp: update_def split: if_splits)
    then show "queue_at q' h' \<noteq> []"
      using ok other [OF held_Multiple [where g = g, OF g'] k'] by (auto simp: qa cs_ok_def)
  next
    show "inj_on (held (update g k c)) (dom (held (update g k c)))"
      using ok by (auto simp: e cs_ok_def inj_on_def dom_def)
  next
    show "handle_index ` (ran (held (update g k c)) \<union> set (unused q')) = {..<length (queues q')}"
      using ok un by (simp add: r q' cs_ok_def)
  next
    show "distinct (unused q')" using ok hr by (auto simp: q' cs_ok_def)
  next
    have "set (unused q') = insert h (set (unused q))" by (simp add: q')
    then show "\<forall>h\<in>set (unused q'). queue_at q' h = []" using ok by (simp add: qa cs_ok_def)
  qed (use ok k r in \<open>auto simp: cs_ok_def qa q' update_def dom_def is_finished_iff\<close>)
  show "abs_map (update g k c) q' =
      (abs_map g q)(k := if is_finished c then None else Some (abs_comp q' c))"
    by (rule abs_map_update, rule abs_comp_cong) (auto simp: qa dest: held_Multiple other)
qed

subsection \<open>The operations on one entry\<close>

lemma cs_ok_key: "cs_ok g q \<Longrightarrow> g k = Some c \<Longrightarrow> k < 2 ^ 32"
  by (auto simp: cs_ok_def dom_def)

lemma rq_modify_held:
  "cs_ok g q \<Longrightarrow> held g k = Some h \<Longrightarrow>
    rq_modify h f q = Inr (q\<lparr>queues := (queues q)[handle_index h := f (queue_at q h)]\<rparr>)"
  by (simp add: rq_modify_def)

lemma rq_release_held:
  "cs_ok g q \<Longrightarrow> held g k = Some h \<Longrightarrow>
    rq_release h q = Inr \<lparr>queues = (queues q)[handle_index h := []], unused = vec_push (unused q) h\<rparr>"
  by (cases q) (simp add: rq_release_def rq_modify_held)

lemma cs_ok_write:
  assumes ok: "cs_ok g q" and g: "g k = Some (Multiple w h m0)"
    and ne: "m \<or> rs \<noteq> []"
  defines "q' \<equiv> q\<lparr>queues := (queues q)[handle_index h := rs]\<rparr>"
  shows "cs_ok (update g k (Multiple w h m)) q'"
    and "abs_map (update g k (Multiple w h m)) q' =
      (abs_map g q)(k \<mapsto> Live (if m then Some w else None) rs)"
proof -
  have h: "held g k = Some h" using g by (rule held_Multiple)
  have b: "handle_index h < length (queues q)" using ok h by (rule held_bound)
  have qa: "queue_at q' h' = (if h' = h then rs else queue_at q h')" for h'
    using b by (auto simp: q'_def queue_at_def nth_list_update)
  have hr: "h \<in> ran (held g)" using h by (rule ranI)
  have un: "distinct (unused q')" "h \<notin> set (unused q')" "set (unused q') \<subseteq> set (unused q)"
    using ok hr by (auto simp: q'_def cs_ok_def)
  have ix: "handle_index ` (ran (held g) \<union> insert h (set (unused q'))) = {..<length (queues q')}"
    using ok hr by (simp add: q'_def cs_ok_def insert_absorb)
  show "cs_ok (update g k (Multiple w h m)) q'"
    by (rule cs_ok_update_multiple(1) [OF ok cs_ok_key [OF ok g] _ un ix])
      (use h ne in \<open>simp_all add: qa\<close>)
  have "abs_map (update g k (Multiple w h m)) q' =
      (abs_map g q)(k \<mapsto> Live (if m then Some w else None) (queue_at q' h))"
    by (rule cs_ok_update_multiple(2) [OF ok cs_ok_key [OF ok g] _ un ix])
      (use h ne in \<open>simp_all add: qa\<close>)
  then show "abs_map (update g k (Multiple w h m)) q' =
      (abs_map g q)(k \<mapsto> Live (if m then Some w else None) rs)" by (simp add: qa)
qed

definition op_refines ::
    "(usize \<rightharpoonup> completion) \<Rightarrow> result_queues \<Rightarrow> usize \<Rightarrow>
      panic + ('t \<times> completion \<times> result_queues \<times> event list) \<Rightarrow>
      't \<Rightarrow> acompletion option \<Rightarrow> event list \<Rightarrow> bool" where
  "op_refines g q k outcome v a' ev \<longleftrightarrow>
     (\<exists>c' q'. outcome = Inr (v, c', q', ev) \<and> cs_ok (update g k c') q' \<and>
       abs_map (update g k c') q' = (abs_map g q)(k := a'))"

lemma op_refinesI:
  "\<lbrakk>outcome = Inr (v, c', q', ev); cs_ok (update g k c') q';
    abs_map (update g k c') q' = (abs_map g q)(k := a')\<rbrakk> \<Longrightarrow> op_refines g q k outcome v a' ev"
  by (auto simp: op_refines_def)

lemma op_refines_plain:
  assumes "cs_ok g q" "g k = Some c" "held g k = None"
    "outcome = Inr (v, c', q, ev)" "\<And>w h m. c' \<noteq> Multiple w h m"
    "a' = (if is_finished c' then None else Some (abs_comp q c'))"
  shows "op_refines g q k outcome v a' ev"
  using cs_ok_update_plain [OF assms(1) cs_ok_key [OF assms(1,2)] assms(3,5)] assms(4,6)
  by (intro op_refinesI) auto

lemma op_refines_release:
  assumes "cs_ok g q" "g k = Some (Multiple w h m)"
    "outcome = Inr (v, c', \<lparr>queues = (queues q)[handle_index h := []], unused = vec_push (unused q) h\<rparr>, ev)"
    "\<And>w h m. c' \<noteq> Multiple w h m"
    "\<And>q'. a' = (if is_finished c' then None else Some (abs_comp q' c'))"
  shows "op_refines g q k outcome v a' ev"
  using cs_ok_update_release [OF assms(1) cs_ok_key [OF assms(1,2)] held_Multiple [where g = g, OF assms(2)] assms(4) refl]
    assms(3,5)
  by (intro op_refinesI) auto

lemma try_notify_refines:
  assumes ok: "cs_ok g q" and g: "g k = Some c" and e: "expects_more (abs_comp q c)"
  shows "op_refines g q k (try_notify cq r c q) ()
    (fst (a_notify cq r (abs_comp q c))) (snd (a_notify cq r (abs_comp q c)))"
proof (cases c)
  case (Vacant w)
  have n: "held g k = None" using g Vacant by (simp add: held_def)
  show ?thesis
  proof (cases "has_more cq r")
    case False
    then show ?thesis
      by (intro op_refines_plain [OF ok g n]) (auto simp: Vacant try_notify_def abs_comp_def)
  next
    case True
    obtain hn q1 where hq: "rq_handle q = (hn, q1)" by force
    note h = rq_handle_ok [OF ok g n hq]
    define q2 where "q2 = q1\<lparr>queues := (queues q1)[handle_index hn := [r]]\<rparr>"
    have qa: "queue_at q2 h' = (if h' = hn then [r] else queue_at q1 h')" for h'
      using h(2) by (auto simp: q2_def queue_at_def nth_list_update)
    have push: "rq_push_back hn r q1 = Inr q2"
      using h(2,3) by (simp add: rq_push_back_def rq_modify_def rq_get_def q2_def queue_at_def)
    have un: "unused q2 = unused q1" "length (queues q2) = length (queues q1)"
      by (simp_all add: q2_def)
    have u: "cs_ok (update g k (Multiple w hn True)) q2"
      by (rule cs_ok_update_multiple(1) [OF ok cs_ok_key [OF ok g]]) (use h n in \<open>auto simp: un qa\<close>)
    have "abs_map (update g k (Multiple w hn True)) q2 =
      (abs_map g q)(k \<mapsto> Live (if True then Some w else None) (queue_at q2 hn))"
      by (rule cs_ok_update_multiple(2) [OF ok cs_ok_key [OF ok g]]) (use h n in \<open>auto simp: un qa\<close>)
    with u show ?thesis
      by (intro op_refinesI [where c' = "Multiple w hn True" and q' = q2])
        (simp_all add: Vacant try_notify_def True hq push abs_comp_def qa)
  qed
next
  case (Single r')
  then show ?thesis using e by (simp add: expects_more_def abs_comp_def)
next
  case (Multiple w h m)
  then have m: m using e by (simp add: expects_more_def abs_comp_def split: if_splits)
  have gk: "g k = Some (Multiple w h m)" using g Multiple by simp
  show ?thesis
    using cs_ok_write [OF ok gk, of "has_more cq r" "queue_at q h @ [r]"]
    by (intro op_refinesI)
      (simp_all add: Multiple m try_notify_def abs_comp_def rq_push_back_def
        rq_modify_held [OF ok held_Multiple [where g = g, OF gk]])
next
  case (Cancelled d)
  have n: "held g k = None" using g Cancelled by (simp add: held_def)
  show ?thesis
    by (intro op_refines_plain [OF ok g n]) (auto simp: Cancelled try_notify_def abs_comp_def)
next
  case Finished
  then show ?thesis using ok g by (simp add: cs_ok_def)
qed

lemma take_result_refines:
  assumes ok: "cs_ok g q" and g: "g k = Some c"
  shows "op_refines g q k (take_result c q)
    (fst (a_result (abs_comp q c))) (snd (a_result (abs_comp q c))) []"
proof (cases c)
  case (Multiple w h m)
  have gk: "g k = Some (Multiple w h m)" using g Multiple by simp
  note hk = held_Multiple [where g = g, OF gk]
  have b: "handle_index h < length (queues q)" using ok hk by (rule held_bound)
  show ?thesis
  proof (cases "queue_at q h")
    case Nil
    then have m: m using ok gk by (cases m) (auto simp: cs_ok_def)
    have "(queues q)[handle_index h := []] = queues q"
      using Nil by (metis list_update_id queue_at_def)
    then have same: "q\<lparr>queues := (queues q)[handle_index h := []]\<rparr> = q" by simp
    have "cs_ok (update g k c) q" "abs_map (update g k c) q = (abs_map g q)(k \<mapsto> abs_comp q c)"
      using cs_ok_write [OF ok gk, of m "[]"] Nil m
      by (simp_all add: same Multiple abs_comp_def)
    then show ?thesis
      by (intro op_refinesI [where c' = c and q' = q])
        (simp_all add: Multiple take_result_def rq_pop_front_def rq_get_held [OF ok hk] Nil m abs_comp_def)
  next
    case (Cons r rest)
    let ?q1 = "q\<lparr>queues := (queues q)[handle_index h := rest]\<rparr>"
    have pop: "rq_pop_front h q = Inr (Some r, ?q1)"
      by (simp add: rq_pop_front_def rq_get_held [OF ok hk] Cons rq_modify_held [OF ok hk])
    have get1: "rq_get h ?q1 = Inr rest" using b by (simp add: rq_get_def)
    show ?thesis
    proof (cases "rest = [] \<and> \<not> m")
      case True
      have "rq_release h ?q1 =
          Inr \<lparr>queues = (queues q)[handle_index h := []], unused = vec_push (unused q) h\<rparr>"
        using b by (cases q) (simp add: rq_release_def rq_modify_def rq_get_def)
      moreover have "rq_pop_front h q = Inr (Some r, q\<lparr>queues := (queues q)[handle_index h := []]\<rparr>)"
        "rq_get h (q\<lparr>queues := (queues q)[handle_index h := []]\<rparr>) = Inr []"
        using pop get1 True by simp_all
      ultimately show ?thesis
        by (intro op_refines_release [where c' = Finished, OF ok gk])
          (use True in \<open>simp_all add: Multiple take_result_def abs_comp_def Cons\<close>)
    next
      case False
      have "cs_ok (update g k c) ?q1" "abs_map (update g k c) ?q1 =
          (abs_map g q)(k \<mapsto> Live (if m then Some w else None) rest)"
        using cs_ok_write [OF ok gk, of m rest] False Multiple by auto
      moreover have "(rest = [] \<and> \<not> m) = False" "(rest = [] \<and> (if m then Some w else None) = None) = False"
        using False by simp_all
      ultimately show ?thesis
        by (intro op_refinesI [where c' = c and q' = ?q1])
          (simp_all only: Multiple take_result_def pop get1 abs_comp_def Cons completion.case bindR_simps
            prod.case if_False a_result.simps fst_conv snd_conv)
    qed
  qed
next
  case Finished
  then show ?thesis using ok g by (simp add: cs_ok_def)
qed (rule op_refines_plain [OF ok g], use g in \<open>auto simp: held_def take_result_def abs_comp_def\<close>)+

lemma try_cancel_refines:
  assumes ok: "cs_ok g q" and g: "g k = Some c" and l: "abs_comp q c = Live wo rs"
  shows "op_refines g q k (try_cancel d c q) (fst (a_cancel d (Live wo rs)))
    (fst (snd (a_cancel d (Live wo rs)))) (snd (snd (a_cancel d (Live wo rs))))"
proof (cases c)
  case (Multiple w h m)
  have gk: "g k = Some (Multiple w h m)" using g Multiple by simp
  note hk = held_Multiple [where g = g, OF gk]
  show ?thesis
    by (cases m; intro op_refines_release [OF ok gk])
      (use l in \<open>auto simp: Multiple try_cancel_def abs_comp_def rq_release_held [OF ok hk] rq_get_held [OF ok hk] Let_def\<close>)
next
  case Finished
  then show ?thesis using ok g by (simp add: cs_ok_def)
qed (use l in \<open>auto simp: held_def try_cancel_def abs_comp_def g intro!: op_refines_plain [OF ok g]\<close>)

subsection \<open>The set over a slab\<close>

definition cs_inv :: "('s, completion) slab_ops \<Rightarrow> ('s \<Rightarrow> bool) \<Rightarrow> 's completion_set \<Rightarrow> bool" where
  "cs_inv sl valid s \<longleftrightarrow> valid (slab_of s) \<and> cs_ok (sl_get sl (slab_of s)) (rqueues s)"

definition cs_abs :: "('s, completion) slab_ops \<Rightarrow> 's completion_set \<Rightarrow> key \<rightharpoonup> acompletion" where
  "cs_abs sl s = (\<lambda>k. abs_map (sl_get sl (slab_of s)) (rqueues s) (key_as_usize k))"

lemma cs_abs_update:
  assumes "abs_map g' q' = (abs_map g q)(key_as_usize key := a)"
  shows "(\<lambda>k. abs_map g' q' (key_as_usize k)) = (\<lambda>k. abs_map g q (key_as_usize k))(key := a)"
  by (auto simp: assms fun_eq_iff)

lemma cs_ok_empty: "cs_ok (\<lambda>_. None) (rq_with_capacity 4)"
proof -
  have h: "held (\<lambda>_. None) = Map.empty" by (simp add: held_def fun_eq_iff)
  have ix: "handle_index (QueueHandle (of_nat i)) = i" if "i < 4" for i
    using that by (simp add: handle_index_def unat_of_nat_u32)
  then have i: "handle_index ` set (unused (rq_with_capacity 4)) = {..<4}"
    by (force simp: rq_with_capacity_def image_iff)
  have "inj_on (\<lambda>i. QueueHandle (of_nat i)) {0..<4}"
    by (rule inj_on_inverseI [where g = handle_index]) (simp add: ix)
  then have d: "distinct (unused (rq_with_capacity 4))"
    by (simp add: rq_with_capacity_def distinct_map)
  have "handle_index h < 4" if "h \<in> set (unused (rq_with_capacity 4))" for h
    using i that by (metis image_eqI lessThan_iff)
  then have q: "\<forall>h\<in>set (unused (rq_with_capacity 4)). queue_at (rq_with_capacity 4) h = []"
    by (simp add: queue_at_def rq_with_capacity_def)
  have l: "length (queues (rq_with_capacity 4)) = 4" by (simp add: rq_with_capacity_def)
  show ?thesis using i d q l by (simp add: cs_ok_def h)
qed

lemma rq_is_empty_iff:
  assumes "cs_ok g q"
  shows "rq_is_empty q \<longleftrightarrow> ran (held g) = {}"
proof -
  have i: "handle_index ` (ran (held g) \<union> set (unused q)) = {..<length (queues q)}"
    and d: "ran (held g) \<inter> set (unused q) = {}" "distinct (unused q)"
    using assms by (simp_all add: cs_ok_def)
  have fin: "finite (ran (held g))"
    using i finite_imageD [OF _ inj_handle_index] by (metis finite_Un finite_lessThan)
  have "length (queues q) = card (ran (held g) \<union> set (unused q))"
    using i by (metis card_image card_lessThan inj_handle_index)
  also have "\<dots> = card (ran (held g)) + length (unused q)"
    using d fin by (simp add: card_Un_disjoint distinct_card)
  finally show ?thesis using fin by (auto simp: rq_is_empty_def)
qed

lemma cs_ok_insert:
  assumes "cs_ok g q" "g k = None" "k < 2 ^ 32"
  shows "cs_ok (g(k \<mapsto> Vacant w)) q \<and> abs_map (g(k \<mapsto> Vacant w)) q = (abs_map g q)(k \<mapsto> Live (Some w) [])"
  using cs_ok_update_plain [OF assms(1,3), of "Vacant w"] assms(2)
  by (simp add: update_def held_def abs_comp_def)

locale completion_slab = slab sl valid
  for sl :: "('s, completion) slab_ops" and valid :: "'s \<Rightarrow> bool"
begin

lemma with_capacity_refines:
  "cs_inv sl valid (cs_with_capacity sl n) \<and> cs_abs sl (cs_with_capacity sl n) = Map.empty"
  by (simp add: cs_inv_def cs_abs_def cs_with_capacity_def valid_new get_new cs_ok_empty abs_map_def)

lemma abs_empty_iff:
  assumes "cs_inv sl valid s"
  shows "cs_abs sl s = Map.empty \<longleftrightarrow> sl_get sl (slab_of s) = (\<lambda>_. None)"
proof
  assume e: "cs_abs sl s = Map.empty"
  show "sl_get sl (slab_of s) = (\<lambda>_. None)"
  proof
    fix k
    show "sl_get sl (slab_of s) k = None"
    proof (rule ccontr)
      assume n: "sl_get sl (slab_of s) k \<noteq> None"
      then have "k < 2 ^ 32" using assms by (auto simp: cs_inv_def cs_ok_def dom_def)
      then have "key_as_usize (key_from_usize k) = k" by (rule key_roundtrip_usize)
      then have "cs_abs sl s (key_from_usize k) \<noteq> None" using n by (simp add: cs_abs_def abs_map_def)
      then show False using e by simp
    qed
  qed
qed (simp add: cs_abs_def abs_map_def fun_eq_iff)

lemma is_empty_refines:
  assumes "cs_inv sl valid s"
  shows "cs_is_empty sl s \<longleftrightarrow> cs_abs sl s = Map.empty"
proof -
  have "sl_get sl (slab_of s) = (\<lambda>_. None) \<Longrightarrow> rq_is_empty (rqueues s)"
    using assms rq_is_empty_iff [of "sl_get sl (slab_of s)" "rqueues s"]
    by (simp add: cs_inv_def held_def [abs_def])
  then show ?thesis
    using assms abs_empty_iff [OF assms] by (auto simp: cs_is_empty_def is_empty_iff cs_inv_def)
qed

lemma insert_refines:
  assumes inv: "cs_inv sl valid s" and room: "sl_len sl (slab_of s) < 2 ^ 32"
    and i: "cs_insert sl w s = (key, s')"
  shows "cs_inv sl valid s' \<and> cs_abs sl s key = None \<and>
    cs_abs sl s' = (cs_abs sl s)(key \<mapsto> Live (Some w) [])"
proof -
  obtain k slab' where k: "sl_insert sl (Vacant w) (slab_of s) = (k, slab')"
    and key: "key = key_from_usize k" and s': "s' = s\<lparr>slab_of := slab'\<rparr>"
    using i by (auto simp: cs_insert_def completion_new_def split: prod.splits)
  have v: "valid (slab_of s)" and ok: "cs_ok (sl_get sl (slab_of s)) (rqueues s)"
    using inv by (simp_all add: cs_inv_def)
  have fresh: "sl_get sl (slab_of s) k = None" using insert_fresh [OF v k] .
  have small: "k < 2 ^ 32" "valid slab'" using insert_small [OF v k room] by auto
  have get': "sl_get sl slab' = (sl_get sl (slab_of s))(k \<mapsto> Vacant w)" using get_insert [OF v k] .
  note r = cs_ok_insert [OF ok fresh small(1), of w]
  have kk: "key_as_usize key = k" using small(1) by (simp add: key key_roundtrip_usize)
  have "cs_abs sl s' = (cs_abs sl s)(key \<mapsto> Live (Some w) [])"
    unfolding cs_abs_def by (rule cs_abs_update) (use r in \<open>simp add: s' get' kk\<close>)
  moreover have "cs_inv sl valid s'" using small(2) r by (simp add: cs_inv_def s' get')
  moreover have "cs_abs sl s key = None" using fresh by (simp add: cs_abs_def abs_map_def kk)
  ultimately show ?thesis by blast
qed

lemma with_completion_refines:
  assumes inv: "cs_inv sl valid s" and get: "sl_get sl (slab_of s) (key_as_usize key) = Some c"
    and ref: "op_refines (sl_get sl (slab_of s)) (rqueues s) (key_as_usize key) (fn c (rqueues s)) v a' ev"
  shows "\<exists>s'. with_completion sl key fn s = Inr (v, s', ev) \<and> cs_inv sl valid s' \<and>
    cs_abs sl s' = (cs_abs sl s)(key := a')"
proof -
  let ?k = "key_as_usize key" and ?g = "sl_get sl (slab_of s)"
  obtain c' q' where out: "fn c (rqueues s) = Inr (v, c', q', ev)"
    and ok: "cs_ok (update ?g ?k c') q'" and am: "abs_map (update ?g ?k c') q' = (abs_map ?g (rqueues s))(?k := a')"
    using ref by (auto simp: op_refines_def)
  have v: "valid (slab_of s)" using inv by (simp add: cs_inv_def)
  have occ: "?g ?k \<noteq> None" using get by simp
  let ?slab1 = "sl_set sl ?k c' (slab_of s)"
  have v1: "valid ?slab1" and g1: "sl_get sl ?slab1 = ?g(?k \<mapsto> c')"
    using valid_set [OF v occ] get_set [OF v occ] by auto
  show ?thesis
  proof (cases "is_finished c'")
    case False
    then have g: "sl_get sl ?slab1 = update ?g ?k c'" by (simp add: update_def g1)
    have "with_completion sl key fn s = Inr (v, \<lparr>slab_of = ?slab1, rqueues = q'\<rparr>, ev)"
      using False by (simp add: with_completion_def get out)
    then show ?thesis
      using v1 ok am by (auto simp: cs_inv_def cs_abs_def g fun_eq_iff)
  next
    case True
    have "sl_get sl ?slab1 ?k = Some c'" by (simp add: g1)
    from remove_occupied [OF v1 this] obtain slab2 where
      r: "sl_remove sl ?k ?slab1 = Some (c', slab2)" "valid slab2"
      "sl_get sl slab2 = (sl_get sl ?slab1)(?k := None)" by blast
    have g: "sl_get sl slab2 = update ?g ?k c'" using True by (simp add: update_def r g1)
    have "with_completion sl key fn s = Inr (v, \<lparr>slab_of = slab2, rqueues = q'\<rparr>, ev)"
      using True by (simp add: with_completion_def get out r)
    then show ?thesis
      using r(2) ok am by (auto simp: cs_inv_def cs_abs_def g fun_eq_iff)
  qed
qed

lemma abs_entry:
  assumes "cs_abs sl s key = Some a"
  shows "\<exists>c. sl_get sl (slab_of s) (key_as_usize key) = Some c \<and> abs_comp (rqueues s) c = a"
  using assms by (auto simp: cs_abs_def abs_map_def)

lemma notify_refines:
  assumes inv: "cs_inv sl valid s" and a: "cs_abs sl s key = Some a" "expects_more a"
  shows "\<exists>s'. cs_notify cq sl key r s = Inr ((), s', snd (a_notify cq r a)) \<and> cs_inv sl valid s' \<and>
    cs_abs sl s' = (cs_abs sl s)(key := fst (a_notify cq r a))"
proof -
  obtain c where c: "sl_get sl (slab_of s) (key_as_usize key) = Some c" "abs_comp (rqueues s) c = a"
    using abs_entry [OF a(1)] by blast
  have ok: "cs_ok (sl_get sl (slab_of s)) (rqueues s)" using inv by (simp add: cs_inv_def)
  show ?thesis
    unfolding cs_notify_def
    by (rule with_completion_refines [OF inv c(1)])
      (use try_notify_refines [OF ok c(1)] a(2) c(2) in simp)
qed

lemma result_refines:
  assumes inv: "cs_inv sl valid s" and a: "cs_abs sl s key = Some a"
  shows "\<exists>s'. cs_result sl key s = Inr (fst (a_result a), s', []) \<and> cs_inv sl valid s' \<and>
    cs_abs sl s' = (cs_abs sl s)(key := snd (a_result a))"
proof -
  obtain c where c: "sl_get sl (slab_of s) (key_as_usize key) = Some c" "abs_comp (rqueues s) c = a"
    using abs_entry [OF a] by blast
  have ok: "cs_ok (sl_get sl (slab_of s)) (rqueues s)" using inv by (simp add: cs_inv_def)
  show ?thesis
    unfolding cs_result_def
    by (rule with_completion_refines [OF inv c(1)])
      (use take_result_refines [OF ok c(1)] c(2) in simp)
qed

lemma cancel_refines:
  assumes inv: "cs_inv sl valid s" and a: "cs_abs sl s key = Some (Live wo rs)"
  shows "\<exists>s'. cs_cancel sl key d s =
      Inr (fst (a_cancel d (Live wo rs)), s', snd (snd (a_cancel d (Live wo rs)))) \<and> cs_inv sl valid s' \<and>
    cs_abs sl s' = (cs_abs sl s)(key := fst (snd (a_cancel d (Live wo rs))))"
proof -
  obtain c where c: "sl_get sl (slab_of s) (key_as_usize key) = Some c"
      "abs_comp (rqueues s) c = Live wo rs"
    using abs_entry [OF a] by blast
  have ok: "cs_ok (sl_get sl (slab_of s)) (rqueues s)" using inv by (simp add: cs_inv_def)
  show ?thesis
    unfolding cs_cancel_def
    by (rule with_completion_refines [OF inv c(1)])
      (use try_cancel_refines [OF ok c] in simp)
qed

lemma unknown_key:
  assumes "cs_abs sl s key = None"
  shows "with_completion sl key fn s = Inl UnexpectedKey"
  using assms by (simp add: cs_abs_def abs_map_def with_completion_def)

lemma cancel_twice:
  assumes "cs_abs sl s key = Some (Gone c)"
  shows "cs_cancel sl key d s = Inl AlreadyCancelled"
proof -
  obtain cm where "sl_get sl (slab_of s) (key_as_usize key) = Some cm" "abs_comp (rqueues s) cm = Gone c"
    using abs_entry [OF assms] by blast
  then show ?thesis
    by (cases cm) (simp_all add: cs_cancel_def with_completion_def try_cancel_def abs_comp_def)
qed

end

interpretation vec_completions: completion_slab vec_slab vec_valid
  by unfold_locales

end
