(* ===== verification/Register.thy ===== *)
theory Register
  imports Prelude
begin

section \<open>Slot registers (ring/register.rs)\<close>

text \<open>
  \<open>SlotRegister<T>\<close> hands out the indices of fixed buffers, direct descriptors and buffer
  groups: never-used indices in increasing order, and released ones from a stack. The three
  newtypes \<open>BufferSlot\<close>, \<open>BufferGroupId\<close> and \<open>DirectSlot\<close> implement \<open>WrapSlotKey\<close>, modelled
  as a record of its two functions. \<open>sr_live\<close> is the specification: the set of handles given
  out and not returned. The locale \<open>slot_pool\<close> is the contract of such a pool; its client
  lemma says that no two holders ever share a handle.
\<close>

datatype slot_key = SlotKey (slot_index: u32)

datatype buffer_slot = BufferSlot slot_key

datatype buffer_group_id = BufferGroupId slot_key

datatype direct_slot = DirectSlot slot_key

record 't wrap_slot_key =
  wrap :: "slot_key \<Rightarrow> 't"
  unwrap :: "'t \<Rightarrow> slot_key"

definition wrap_direct_slot :: "direct_slot wrap_slot_key" where
  "wrap_direct_slot = \<lparr>wrap = DirectSlot, unwrap = (\<lambda>t. case t of DirectSlot k \<Rightarrow> k)\<rparr>"

definition wrap_buffer_slot :: "buffer_slot wrap_slot_key" where
  "wrap_buffer_slot = \<lparr>wrap = BufferSlot, unwrap = (\<lambda>t. case t of BufferSlot k \<Rightarrow> k)\<rparr>"

definition wrap_buffer_group_id :: "buffer_group_id wrap_slot_key" where
  "wrap_buffer_group_id = \<lparr>wrap = BufferGroupId, unwrap = (\<lambda>t. case t of BufferGroupId k \<Rightarrow> k)\<rparr>"

record slot_register =
  vacant :: "u32 list"
  sr_len :: u32
  sr_size :: u32

definition sr_new :: "u32 \<Rightarrow> slot_register" where
  "sr_new n = \<lparr>vacant = [], sr_len = 0, sr_size = n\<rparr>"

definition sr_get :: "'t wrap_slot_key \<Rightarrow> slot_register \<Rightarrow> ('t \<times> slot_register) option" where
  "sr_get W r =
     (case vec_pop (vacant r) of
        Some (slot, rest) \<Rightarrow> Some (wrap W (SlotKey slot), r\<lparr>vacant := rest\<rparr>)
      | None \<Rightarrow>
          if sr_len r = sr_size r then None
          else Some (wrap W (SlotKey (sr_len r)), r\<lparr>sr_len := sr_len r + 1\<rparr>))"

definition sr_remove :: "'t wrap_slot_key \<Rightarrow> 't \<Rightarrow> slot_register \<Rightarrow> slot_register" where
  "sr_remove W key r =
     (let k = unwrap W key
      in if slot_index k < sr_size r then r\<lparr>vacant := vec_push (vacant r) (slot_index k)\<rparr> else r)"

definition sr_is_full :: "slot_register \<Rightarrow> bool" where
  "sr_is_full r \<longleftrightarrow> unat (sr_len r) = length (vacant r)"

definition direct_slot_index :: "direct_slot \<Rightarrow> u32" where
  "direct_slot_index s = (case s of DirectSlot k \<Rightarrow> slot_index k)"

definition direct_slot_from_raw :: "u32 \<Rightarrow> direct_slot" where
  "direct_slot_from_raw slot = wrap wrap_direct_slot (SlotKey slot)"

definition buffer_slot_index :: "buffer_slot \<Rightarrow> u32" where
  "buffer_slot_index s = (case s of BufferSlot k \<Rightarrow> slot_index k)"

definition buffer_group_id_index :: "buffer_group_id \<Rightarrow> u16" where
  "buffer_group_id_index s = (case s of BufferGroupId k \<Rightarrow> ucast (slot_index k))"

subsection \<open>The live handles\<close>

definition sr_live_keys :: "slot_register \<Rightarrow> u32 set" where
  "sr_live_keys r = {k. k < sr_len r} - set (vacant r)"

definition sr_live :: "'t wrap_slot_key \<Rightarrow> slot_register \<Rightarrow> 't set" where
  "sr_live W r = (\<lambda>k. wrap W (SlotKey k)) ` sr_live_keys r"

definition sr_inv :: "slot_register \<Rightarrow> bool" where
  "sr_inv r \<longleftrightarrow>
     sr_len r \<le> sr_size r \<and> distinct (vacant r) \<and> (\<forall>k\<in>set (vacant r). k < sr_len r)"

lemma card_below: "card {k :: u32. k < n} = unat n"
proof -
  have "bij_betw unat {k :: u32. k < n} {..<unat n}"
  proof (rule bij_betwI')
    fix y assume "y \<in> {..<unat n}"
    then have "y < unat n" by simp
    then have "unat (of_nat y :: u32) = y"
      using unat_less_u32 [of n] by (intro unat_of_nat_u32) simp
    then show "\<exists>x\<in>{k :: u32. k < n}. y = unat x"
      using \<open>y < unat n\<close> by (intro bexI [of _ "of_nat y"]) (simp_all add: word_less_nat_alt)
  qed (simp_all add: unat_u32_inject word_less_nat_alt)
  then show ?thesis by (simp add: bij_betw_same_card)
qed

lemma card_live_keys:
  assumes "sr_inv r"
  shows "card (sr_live_keys r) + length (vacant r) = unat (sr_len r)"
proof -
  have sub: "set (vacant r) \<subseteq> {k. k < sr_len r}" using assms by (auto simp: sr_inv_def)
  have "card (set (vacant r)) = length (vacant r)"
    using assms by (simp add: sr_inv_def distinct_card)
  moreover have "card (set (vacant r)) \<le> unat (sr_len r)"
    using card_mono [OF _ sub] by (simp add: card_below)
  ultimately show ?thesis
    using card_Diff_subset [OF _ sub] by (simp add: sr_live_keys_def card_below)
qed

lemma sr_inv_new: "sr_inv (sr_new n)"
  by (simp add: sr_inv_def sr_new_def)

lemma sr_live_keys_new: "sr_live_keys (sr_new n) = {}"
  by (simp add: sr_live_keys_def sr_new_def)

lemma sr_is_full_iff: "sr_inv r \<Longrightarrow> sr_is_full r \<longleftrightarrow> sr_live_keys r = {}"
  using card_live_keys [of r] by (auto simp: sr_is_full_def)

lemma word_less_plus_one: "(a :: u32) < b \<Longrightarrow> k < a + 1 \<longleftrightarrow> k < a \<or> k = a"
  by (auto simp: word_less_nat_alt unat_plus_one less_Suc_eq unat_u32_inject)

lemma sr_get_keys:
  assumes "sr_inv r" "sr_get W r = Some (t, r')"
  shows "\<exists>k. t = wrap W (SlotKey k) \<and> k \<notin> sr_live_keys r \<and>
    sr_live_keys r' = insert k (sr_live_keys r) \<and> sr_inv r' \<and> sr_size r' = sr_size r \<and>
    k < sr_size r"
proof (cases "vec_pop (vacant r)")
  case None
  then have e: "vacant r = []" and l: "sr_len r \<noteq> sr_size r"
    and t: "t = wrap W (SlotKey (sr_len r))" "r' = r\<lparr>sr_len := sr_len r + 1\<rparr>"
    using assms(2) by (auto simp: sr_get_def vec_simps split: if_splits)
  have "sr_len r < sr_size r" using assms(1) l by (simp add: sr_inv_def order_less_le)
  moreover from this have "sr_len r + 1 \<le> sr_size r"
    by (simp add: word_le_nat_alt word_less_nat_alt unat_plus_one)
  ultimately show ?thesis
    using e t by (auto simp: sr_live_keys_def sr_inv_def word_less_plus_one)
next
  case (Some p)
  then obtain slot rest where p: "vacant r = rest @ [slot]"
    and t: "t = wrap W (SlotKey slot)" "r' = r\<lparr>vacant := rest\<rparr>"
    using assms(2) by (cases p) (auto simp: sr_get_def vec_simps)
  have "slot < sr_len r" "slot \<notin> set rest" "slot < sr_size r"
    using assms(1) p by (auto simp: sr_inv_def)
  then show ?thesis using assms(1) p t by (auto simp: sr_live_keys_def sr_inv_def)
qed

lemma sr_get_None:
  assumes "sr_inv r"
  shows "sr_get W r = None \<longleftrightarrow> card (sr_live_keys r) = unat (sr_size r)"
proof -
  have c: "card (sr_live_keys r) + length (vacant r) = unat (sr_len r)"
    using assms by (rule card_live_keys)
  have "unat (sr_len r) \<le> unat (sr_size r)" using assms by (simp add: sr_inv_def word_le_nat_alt)
  moreover have "sr_get W r = None \<longleftrightarrow> vacant r = [] \<and> unat (sr_len r) = unat (sr_size r)"
    by (auto simp: sr_get_def vec_pop_def unat_u32_inject)
  ultimately show ?thesis using c by (cases "vacant r") auto
qed

lemma sr_remove_keys:
  assumes "sr_inv r" "slot_index (unwrap W t) \<in> sr_live_keys r"
  shows "sr_inv (sr_remove W t r) \<and> sr_size (sr_remove W t r) = sr_size r \<and>
    sr_live_keys (sr_remove W t r) = sr_live_keys r - {slot_index (unwrap W t)}"
proof -
  have "slot_index (unwrap W t) < sr_size r"
    using assms by (auto simp: sr_live_keys_def sr_inv_def)
  then show ?thesis using assms by (auto simp: sr_remove_def sr_live_keys_def sr_inv_def Let_def)
qed

subsection \<open>The contract of a pool of handles\<close>

inductive pool_run ::
    "('p \<Rightarrow> ('t \<times> 'p) option) \<Rightarrow> ('t \<Rightarrow> 'p \<Rightarrow> 'p) \<Rightarrow> 'p \<Rightarrow> 'p \<Rightarrow> 't list \<Rightarrow> bool"
  for get put p0 where
  start: "pool_run get put p0 p0 []"
| acquire: "pool_run get put p0 p hs \<Longrightarrow> get p = Some (t, p') \<Longrightarrow> pool_run get put p0 p' (t # hs)"
| release: "pool_run get put p0 p hs \<Longrightarrow> t \<in> set hs \<Longrightarrow>
    pool_run get put p0 (put t p) (remove1 t hs)"

locale slot_pool =
  fixes get :: "'p \<Rightarrow> ('t \<times> 'p) option"
    and put :: "'t \<Rightarrow> 'p \<Rightarrow> 'p"
    and live :: "'p \<Rightarrow> 't set"
    and inv :: "'p \<Rightarrow> bool"
    and capacity :: "'p \<Rightarrow> nat"
  assumes get_Some: "\<lbrakk>inv p; get p = Some (t, p')\<rbrakk> \<Longrightarrow>
      inv p' \<and> t \<notin> live p \<and> live p' = insert t (live p) \<and> capacity p' = capacity p"
    and get_None: "inv p \<Longrightarrow> get p = None \<longleftrightarrow> card (live p) = capacity p"
    and put_live: "\<lbrakk>inv p; t \<in> live p\<rbrakk> \<Longrightarrow>
      inv (put t p) \<and> live (put t p) = live p - {t} \<and> capacity (put t p) = capacity p"
    and live_bound: "inv p \<Longrightarrow> finite (live p) \<and> card (live p) \<le> capacity p"
begin

lemma run_held:
  assumes "pool_run get put p0 p hs" "inv p0" "live p0 = {}"
  shows "inv p \<and> distinct hs \<and> set hs = live p \<and> capacity p = capacity p0"
  using assms
proof (induction rule: pool_run.induct)
  case (acquire p hs t p')
  then show ?case using get_Some [of p t p'] by auto
next
  case (release p hs t)
  then show ?case using put_live [of p t] by auto
qed simp

lemma run_bound:
  assumes "pool_run get put p0 p hs" "inv p0" "live p0 = {}"
  shows "length hs \<le> capacity p0 \<and> (get p = None \<longleftrightarrow> length hs = capacity p0)"
proof -
  have h: "inv p" "distinct hs" "set hs = live p" "capacity p = capacity p0"
    using run_held [OF assms] by auto
  then have "card (live p) = length hs" by (metis distinct_card)
  with h live_bound [of p] get_None [of p] show ?thesis by simp
qed

end

text \<open>Every implementation of \<open>WrapSlotKey\<close> whose functions are inverse gives such a pool.\<close>

locale wrapped_slots =
  fixes W :: "'t wrap_slot_key"
  assumes unwrap_wrap: "unwrap W (wrap W k) = k"
    and wrap_unwrap: "wrap W (unwrap W t) = t"
begin

lemma live_key_iff: "t \<in> sr_live W r \<longleftrightarrow> slot_index (unwrap W t) \<in> sr_live_keys r"
proof
  assume "slot_index (unwrap W t) \<in> sr_live_keys r"
  then show "t \<in> sr_live W r"
    unfolding sr_live_def by (rule rev_image_eqI) (simp add: wrap_unwrap)
qed (auto simp: sr_live_def unwrap_wrap)

lemma inj_wrap_key: "inj_on (\<lambda>k. wrap W (SlotKey k)) A"
proof (rule inj_onI)
  fix x y assume "wrap W (SlotKey x) = wrap W (SlotKey y)"
  then have "unwrap W (wrap W (SlotKey x)) = unwrap W (wrap W (SlotKey y))" by simp
  then show "x = y" by (simp add: unwrap_wrap)
qed

lemma card_live: "card (sr_live W r) = card (sr_live_keys r)"
  unfolding sr_live_def by (rule card_image [OF inj_wrap_key])

end

sublocale wrapped_slots \<subseteq> pool: slot_pool
  "sr_get W" "sr_remove W" "sr_live W" sr_inv "\<lambda>r. unat (sr_size r)"
proof (unfold_locales, goal_cases)
  case (1 p t p')
  from sr_get_keys [OF this] obtain k where
    "t = wrap W (SlotKey k)" "k \<notin> sr_live_keys p" "sr_live_keys p' = insert k (sr_live_keys p)"
    "sr_inv p'" "sr_size p' = sr_size p" by blast
  moreover from this(1) have "slot_index (unwrap W t) = k" by (simp add: unwrap_wrap)
  moreover from calculation have "sr_live W p' = insert t (sr_live W p)"
    by (simp add: sr_live_def)
  ultimately show ?case by (simp add: live_key_iff)
next
  case (2 p)
  then show ?case by (simp add: sr_get_None card_live)
next
  case (3 p t)
  then have "slot_index (unwrap W t) \<in> sr_live_keys p" by (simp add: live_key_iff)
  note r = sr_remove_keys [OF 3(1) this]
  have "sr_live W (sr_remove W t p) = sr_live W p - {t}"
  proof (rule set_eqI)
    fix u
    have "slot_index (unwrap W u) = slot_index (unwrap W t) \<longleftrightarrow> u = t"
      by (metis wrap_unwrap slot_key.expand)
    then show "u \<in> sr_live W (sr_remove W t p) \<longleftrightarrow> u \<in> sr_live W p - {t}"
      using r by (simp add: live_key_iff)
  qed
  with r show ?case by simp
next
  case (4 p)
  have "finite (sr_live_keys p)" by simp
  moreover have "card (sr_live_keys p) \<le> unat (sr_size p)"
    using card_live_keys [OF 4] 4 by (simp add: sr_inv_def word_le_nat_alt)
  ultimately show ?case by (simp add: card_live) (simp add: sr_live_def)
qed

interpretation direct_pool: wrapped_slots wrap_direct_slot
  by unfold_locales (auto simp: wrap_direct_slot_def split: direct_slot.splits)

interpretation buffer_pool: wrapped_slots wrap_buffer_slot
  by unfold_locales (auto simp: wrap_buffer_slot_def split: buffer_slot.splits)

interpretation group_pool: wrapped_slots wrap_buffer_group_id
  by unfold_locales (auto simp: wrap_buffer_group_id_def split: buffer_group_id.splits)

lemma sr_live_new [simp]: "sr_live W (sr_new n) = {}"
  by (simp add: sr_live_def sr_live_keys_new)

lemma sr_is_full_live: "sr_inv r \<Longrightarrow> sr_is_full r \<longleftrightarrow> sr_live W r = {}"
  by (simp add: sr_is_full_iff sr_live_def)

end
