(* ===== verification/Buffer.thy ===== *)
theory Buffer
  imports Cancel
begin

section \<open>Stable buffers and views (buffer.rs)\<close>

text \<open>
  The traits \<open>StableBuffer\<close> and \<open>StableBufferMut\<close> are a record of functions, one value of it
  per implementation (\<open>static_str_buffer\<close>, \<open>boxed_slice_buffer\<close>, \<open>option_slice_buffer\<close>,
  \<open>vec_buffer\<close>, \<open>string_buffer\<close>, and \<open>view_buffer\<close> over any of them). Beside the trait's
  methods the record has the destructor \<open>sb_drop\<close>, \<open>sb_mem\<close>, the allocation the pointer points into, and \<open>sb_store\<close>,
  which replaces its bytes: together they stand for the memory the raw pointer reaches.
  A \<open>stable_slice\<close> outside the allocation is undefined behaviour in Rust and \<open>None\<close> here.

  The locale \<open>sound_buffer\<close> is the contract the unsafe code relies on: pointer and size stay
  inside the allocation, and the cancellation a buffer converts to frees what its destructor
  frees, without a callback. It holds of every implementation, and is inherited by views
  with any range, which is what makes \<open>View\<close> safe to hand to the kernel.
\<close>

subsection \<open>The trait\<close>

record 'b stable_buffer =
  sb_ptr :: "'b \<Rightarrow> ptr"
  sb_size :: "'b \<Rightarrow> usize"
  sb_cancel :: "'b \<Rightarrow> cancellation"
  sb_drop :: "'b \<Rightarrow> event list"
  sb_mem :: "'b \<Rightarrow> u8 boxed_slice"
  sb_store :: "u8 list \<Rightarrow> 'b \<Rightarrow> 'b"

definition raw_slice :: "u8 boxed_slice \<Rightarrow> ptr \<Rightarrow> usize \<Rightarrow> u8 list option" where
  "raw_slice m p n =
     (if n = 0 then Some []
      else if bs_ptr m \<le> p \<and> p + n \<le> bs_ptr m + length (bs_data m)
      then Some (take n (drop (p - bs_ptr m) (bs_data m)))
      else None)"

definition stable_slice :: "'b stable_buffer \<Rightarrow> 'b \<Rightarrow> u8 list option" where
  "stable_slice D b =
     (let base = sb_ptr D b
      in if base = null_ptr then Some [] else raw_slice (sb_mem D b) base (sb_size D b))"

text \<open>
  \<open>stable_mut_slice\<close> returns a mutable slice; \<open>write_slice\<close> is a write of \<open>bytes\<close> through it
  at an offset, changing the allocation and nothing else.
\<close>

definition write_slice :: "'b stable_buffer \<Rightarrow> 'b \<Rightarrow> usize \<Rightarrow> u8 list \<Rightarrow> 'b" where
  "write_slice D b off bytes =
     (let data = bs_data (sb_mem D b);
          i = sb_ptr D b - bs_ptr (sb_mem D b) + off
      in sb_store D (take i data @ bytes @ drop (i + length bytes) data) b)"

subsection \<open>Implementations\<close>

definition static_str_buffer :: "u8 boxed_slice stable_buffer" where
  "static_str_buffer =
     \<lparr>sb_ptr = bs_ptr, sb_size = (\<lambda>b. length (bs_data b)), sb_cancel = (\<lambda>b. cancel_empty),
      sb_drop = (\<lambda>b. []),
      sb_mem = (\<lambda>b. b), sb_store = (\<lambda>_ b. b)\<rparr>"

definition static_slice_buffer :: "u8 boxed_slice stable_buffer" where
  "static_slice_buffer =
     \<lparr>sb_ptr = bs_ptr, sb_size = (\<lambda>b. length (bs_data b)), sb_cancel = (\<lambda>b. cancel_empty),
      sb_drop = (\<lambda>b. []),
      sb_mem = (\<lambda>b. b), sb_store = (\<lambda>_ b. b)\<rparr>"

text \<open>\<open>Box<[u8; N]>\<close>: its length is part of the type, and dropping it drops a plain box.\<close>

definition boxed_array_buffer :: "u8 boxed_slice stable_buffer" where
  "boxed_array_buffer =
     \<lparr>sb_ptr = bs_ptr, sb_size = (\<lambda>b. length (bs_data b)), sb_cancel = (\<lambda>b. cancel_from_box (bs_ptr b)),
      sb_drop = (\<lambda>b. [Freed (AllocBox (bs_ptr b))]),
      sb_mem = (\<lambda>b. b), sb_store = (\<lambda>d b. b\<lparr>bs_data := d\<rparr>)\<rparr>"

definition boxed_slice_buffer :: "u8 boxed_slice stable_buffer" where
  "boxed_slice_buffer =
     \<lparr>sb_ptr = bs_ptr, sb_size = (\<lambda>b. length (bs_data b)), sb_cancel = cancel_from_boxed_slice,
      sb_drop = slice_release,
      sb_mem = (\<lambda>b. b), sb_store = (\<lambda>d b. b\<lparr>bs_data := d\<rparr>)\<rparr>"

definition no_memory :: "u8 boxed_slice" where
  "no_memory = \<lparr>bs_ptr = null_ptr, bs_data = []\<rparr>"

definition option_slice_buffer :: "u8 boxed_slice option stable_buffer" where
  "option_slice_buffer =
     \<lparr>sb_ptr = (\<lambda>o'. case o' of Some b \<Rightarrow> sb_ptr boxed_slice_buffer b | None \<Rightarrow> null_ptr),
      sb_size = (\<lambda>o'. case o' of Some b \<Rightarrow> sb_size boxed_slice_buffer b | None \<Rightarrow> 0),
      sb_cancel = cancel_from_option_boxed_slice,
      sb_drop = (\<lambda>o'. case o' of Some b \<Rightarrow> slice_release b | None \<Rightarrow> []),
      sb_mem = (\<lambda>o'. case o' of Some b \<Rightarrow> b | None \<Rightarrow> no_memory),
      sb_store = (\<lambda>d. map_option (sb_store boxed_slice_buffer d))\<rparr>"

definition vec_buffer :: "u8 vec stable_buffer" where
  "vec_buffer =
     \<lparr>sb_ptr = vec_ptr, sb_size = (\<lambda>v. length (vec_data v)), sb_cancel = cancel_from_vec,
      sb_drop = vec_release,
      sb_mem = (\<lambda>v. \<lparr>bs_ptr = vec_ptr v, bs_data = vec_data v\<rparr>),
      sb_store = (\<lambda>d v. v\<lparr>vec_data := d\<rparr>)\<rparr>"

definition string_buffer :: "u8 vec stable_buffer" where
  "string_buffer =
     \<lparr>sb_ptr = vec_ptr, sb_size = (\<lambda>v. length (vec_data v)), sb_cancel = cancel_from_string,
      sb_drop = vec_release,
      sb_mem = (\<lambda>v. \<lparr>bs_ptr = vec_ptr v, bs_data = vec_data v\<rparr>),
      sb_store = (\<lambda>d v. v\<lparr>vec_data := d\<rparr>)\<rparr>"

subsection \<open>Views\<close>

datatype bound = Included usize | Excluded usize | Unbounded

record 'r range_bounds =
  start_bound :: "'r \<Rightarrow> bound"
  end_bound :: "'r \<Rightarrow> bound"

record range =
  range_start :: usize
  range_end :: usize

record range_to =
  to_end :: usize

definition range_rb :: "range range_bounds" where
  "range_rb = \<lparr>start_bound = (\<lambda>r. Included (range_start r)), end_bound = (\<lambda>r. Excluded (range_end r))\<rparr>"

definition range_to_rb :: "range_to range_bounds" where
  "range_to_rb = \<lparr>start_bound = (\<lambda>_. Unbounded), end_bound = (\<lambda>r. Excluded (to_end r))\<rparr>"

definition range_full_rb :: "unit range_bounds" where
  "range_full_rb = \<lparr>start_bound = (\<lambda>_. Unbounded), end_bound = (\<lambda>_. Unbounded)\<rparr>"

record ('b, 'r) view =
  view_inner :: 'b
  view_range :: 'r

definition view_new :: "'b \<Rightarrow> 'r \<Rightarrow> ('b, 'r) view" where
  "view_new b r = \<lparr>view_inner = b, view_range = r\<rparr>"

definition view_unview :: "('b, 'r) view \<Rightarrow> 'b" where
  "view_unview v = view_inner v"

definition view_is_empty :: "('b, range) view \<Rightarrow> bool" where
  "view_is_empty v \<longleftrightarrow> \<not> range_start (view_range v) < range_end (view_range v)"

definition view_consume :: "usize \<Rightarrow> ('b, range) view \<Rightarrow> panic + ('b, range) view" where
  "view_consume amt v =
     mapR (\<lambda>s. v\<lparr>view_range := (view_range v)\<lparr>range_start := min s (range_end (view_range v))\<rparr>\<rparr>)
       (usize_add (range_start (view_range v)) amt)"

definition view_into_raw_parts :: "('b, range) view \<Rightarrow> 'b \<times> usize \<times> usize" where
  "view_into_raw_parts v = (view_inner v, range_start (view_range v), range_end (view_range v))"

definition to_is_empty :: "('b, range_to) view \<Rightarrow> bool" where
  "to_is_empty v \<longleftrightarrow> to_end (view_range v) = 0"

definition to_set_pos :: "usize \<Rightarrow> ('b, range_to) view \<Rightarrow> ('b, range_to) view" where
  "to_set_pos pos v = v\<lparr>view_range := \<lparr>to_end = pos\<rparr>\<rparr>"

definition to_spare_capacity :: "'b stable_buffer \<Rightarrow> ('b, range_to) view \<Rightarrow> usize" where
  "to_spare_capacity D v = sb_size D (view_inner v) - to_end (view_range v)"

definition to_into_raw_parts :: "('b, range_to) view \<Rightarrow> 'b \<times> usize" where
  "to_into_raw_parts v = (view_inner v, to_end (view_range v))"

text \<open>
  \<open>fill\<close> slices the buffer from the position on (a panic when the position is past the end)
  and lets \<open>&mut [u8]\<close>'s \<open>Write\<close> copy as much as fits.
\<close>

definition to_fill :: "'b stable_buffer \<Rightarrow> u8 list \<Rightarrow> ('b, range_to) view \<Rightarrow> panic + (usize \<times> ('b, range_to) view)" where
  "to_fill D data v =
     (let pos = to_end (view_range v);
          slice_len = (case stable_slice D (view_inner v) of Some s \<Rightarrow> length s | None \<Rightarrow> 0)
      in if pos \<le> slice_len then
           (let wrote = min (slice_len - pos) (length data)
            in Inr (wrote, \<lparr>view_inner = write_slice D (view_inner v) pos (take wrote data),
                            view_range = \<lparr>to_end = pos + wrote\<rparr>\<rparr>))
         else Inl IndexOutOfBounds)"

definition view_start :: "'r range_bounds \<Rightarrow> ('b, 'r) view \<Rightarrow> usize" where
  "view_start rb v =
     (case start_bound rb (view_range v) of Included x \<Rightarrow> x | Excluded x \<Rightarrow> x + 1 | Unbounded \<Rightarrow> 0)"

definition view_end :: "'b stable_buffer \<Rightarrow> 'r range_bounds \<Rightarrow> ('b, 'r) view \<Rightarrow> usize" where
  "view_end D rb v =
     (case end_bound rb (view_range v) of
        Included x \<Rightarrow> x + 1 | Excluded x \<Rightarrow> x | Unbounded \<Rightarrow> sb_size D (view_inner v))"

definition view_stable_ptr :: "'b stable_buffer \<Rightarrow> 'r range_bounds \<Rightarrow> ('b, 'r) view \<Rightarrow> ptr" where
  "view_stable_ptr D rb v = (sb_ptr D (view_inner v) + view_start rb v) mod 2 ^ 64"

definition view_size :: "'b stable_buffer \<Rightarrow> 'r range_bounds \<Rightarrow> ('b, 'r) view \<Rightarrow> usize" where
  "view_size D rb v = min (view_end D rb v) (sb_size D (view_inner v)) - view_start rb v"

definition cancel_from_view :: "'b stable_buffer \<Rightarrow> ('b, 'r) view \<Rightarrow> cancellation" where
  "cancel_from_view D v = sb_cancel D (view_unview v)"

definition view_buffer :: "'b stable_buffer \<Rightarrow> 'r range_bounds \<Rightarrow> ('b, 'r) view stable_buffer" where
  "view_buffer D rb =
     \<lparr>sb_ptr = view_stable_ptr D rb, sb_size = view_size D rb, sb_cancel = cancel_from_view D,
      sb_drop = (\<lambda>v. sb_drop D (view_inner v)),
      sb_mem = (\<lambda>v. sb_mem D (view_inner v)),
      sb_store = (\<lambda>d v. v\<lparr>view_inner := sb_store D d (view_inner v)\<rparr>)\<rparr>"

text \<open>The trait \<open>FixedBuffer\<close>: the slot a buffer is registered in, inherited by views.\<close>

definition view_slot :: "('b \<Rightarrow> 'slot) \<Rightarrow> ('b, 'r) view \<Rightarrow> 'slot" where
  "view_slot slot v = slot (view_inner v)"

subsection \<open>The contract of stable buffers\<close>

definition mem_ok :: "u8 boxed_slice \<Rightarrow> bool" where
  "mem_ok m \<longleftrightarrow> bs_ptr m + length (bs_data m) < 2 ^ 64"

locale sound_buffer =
  fixes D :: "'b stable_buffer"
    and wf :: "'b \<Rightarrow> bool"
  assumes mem_wf: "wf b \<Longrightarrow> mem_ok (sb_mem D b)"
    and ptr_in: "wf b \<Longrightarrow> sb_size D b \<noteq> 0 \<Longrightarrow>
      bs_ptr (sb_mem D b) \<le> sb_ptr D b \<and>
      sb_ptr D b + sb_size D b \<le> bs_ptr (sb_mem D b) + length (bs_data (sb_mem D b))"
    and cancel_drops: "wf b \<Longrightarrow> drop_raw (sb_cancel D b) = sb_drop D b"
    and cancel_silent: "cancel_consume (sb_cancel D b) res = []"
begin

lemma slice_defined: "wf b \<Longrightarrow> \<exists>s. stable_slice D b = Some s \<and> length s \<le> sb_size D b"
  using ptr_in [of b] by (auto simp: stable_slice_def raw_slice_def Let_def)

lemma slice_eq:
  assumes "wf b" "sb_ptr D b \<noteq> null_ptr"
  shows "stable_slice D b =
    Some (take (sb_size D b) (drop (sb_ptr D b - bs_ptr (sb_mem D b)) (bs_data (sb_mem D b))))"
  using ptr_in [OF assms(1)] assms(2) by (auto simp: stable_slice_def raw_slice_def Let_def)

lemma slice_length:
  assumes "wf b" "sb_ptr D b \<noteq> null_ptr" "stable_slice D b = Some s"
  shows "length s = sb_size D b"
  using slice_eq [OF assms(1,2)] ptr_in [OF assms(1)] assms(3) by (cases "sb_size D b = 0") auto

lemma view_sound: "sound_buffer (view_buffer D rb) (\<lambda>v. wf (view_inner v))"
proof (unfold_locales, goal_cases)
  case (1 v)
  then show ?case by (simp add: view_buffer_def mem_wf)
next
  case (2 v)
  let ?b = "view_inner v" and ?s = "view_start rb v"
  have sz: "?s < min (view_end D rb v) (sb_size D ?b)" and n: "sb_size D ?b \<noteq> 0"
    using 2(2) by (auto simp: view_buffer_def view_size_def)
  note p = ptr_in [OF 2(1) n] and m = mem_wf [OF 2(1)]
  have "sb_ptr D ?b + ?s < 2 ^ 64" using sz p m by (simp add: mem_ok_def)
  then show ?case using sz p by (auto simp: view_buffer_def view_stable_ptr_def view_size_def)
next
  case (3 v)
  then show ?case by (simp add: view_buffer_def cancel_from_view_def view_unview_def cancel_drops)
next
  case (4 v res)
  then show ?case by (simp add: view_buffer_def cancel_from_view_def cancel_silent)
qed

end

text \<open>
  A vector converts to a cancellation that frees its length, not its capacity, so the
  contract holds of vectors without spare capacity only.
\<close>

definition vec_mem_ok :: "u8 vec \<Rightarrow> bool" where
  "vec_mem_ok v \<longleftrightarrow> vec_ptr v + length (vec_data v) < 2 ^ 64 \<and> vec_cap v = length (vec_data v)"

interpretation static_str: sound_buffer static_str_buffer mem_ok
  by unfold_locales (simp_all add: static_str_buffer_def)

interpretation static_slice: sound_buffer static_slice_buffer mem_ok
  by unfold_locales (simp_all add: static_slice_buffer_def)

interpretation boxed_array: sound_buffer boxed_array_buffer mem_ok
  by unfold_locales (simp_all add: boxed_array_buffer_def)

interpretation boxed: sound_buffer boxed_slice_buffer mem_ok
  by unfold_locales (simp_all add: boxed_slice_buffer_def)

interpretation opt_boxed: sound_buffer option_slice_buffer "\<lambda>o'. case o' of Some b \<Rightarrow> mem_ok b | None \<Rightarrow> True"
  by unfold_locales
    (simp_all add: option_slice_buffer_def boxed_slice_buffer_def mem_ok_def no_memory_def null_ptr_def
      cancel_from_option_boxed_slice_def split: option.splits)

interpretation byte_vec: sound_buffer vec_buffer vec_mem_ok
  by unfold_locales (simp_all add: vec_buffer_def vec_mem_ok_def mem_ok_def vec_release_def)

interpretation text_string: sound_buffer string_buffer vec_mem_ok
  by unfold_locales (simp_all add: string_buffer_def vec_mem_ok_def mem_ok_def vec_release_def cancel_from_string_def)

interpretation boxed_range: sound_buffer "view_buffer boxed_slice_buffer range_rb" "\<lambda>v. mem_ok (view_inner v)"
  by (rule boxed.view_sound)

subsection \<open>Positions and filling\<close>

lemma view_consume_ok:
  assumes "range_start (view_range v) + amt < 2 ^ 64"
  shows "view_consume amt v = Inr (v\<lparr>view_range :=
    (view_range v)\<lparr>range_start := min (range_start (view_range v) + amt) (range_end (view_range v))\<rparr>\<rparr>)"
  using assms by (simp add: view_consume_def)

lemma boxed_slice_slice:
  "mem_ok b \<Longrightarrow> bs_ptr b \<noteq> null_ptr \<Longrightarrow> stable_slice boxed_slice_buffer b = Some (bs_data b)"
  by (subst boxed.slice_eq) (simp_all add: boxed_slice_buffer_def)

lemma boxed_view_slice:
  assumes "mem_ok b" "bs_ptr b \<noteq> null_ptr"
  shows "stable_slice (view_buffer boxed_slice_buffer range_rb) (view_new b \<lparr>range_start = i, range_end = j\<rparr>)
    = Some (drop i (take j (bs_data b)))"
proof (cases "i < min j (length (bs_data b))")
  case True
  then have "bs_ptr b + i < 2 ^ 64" using assms(1) by (simp add: mem_ok_def)
  then show ?thesis
    using True assms
    by (subst boxed_range.slice_eq)
      (auto simp: view_buffer_def view_new_def view_stable_ptr_def view_size_def view_start_def
        view_end_def range_rb_def boxed_slice_buffer_def null_ptr_def min_def drop_take)
next
  case False
  then have "drop i (take j (bs_data b)) = []" by auto
  moreover have "sb_size (view_buffer boxed_slice_buffer range_rb) (view_new b \<lparr>range_start = i, range_end = j\<rparr>) = 0"
    using False by (auto simp: view_buffer_def view_new_def view_size_def view_start_def view_end_def
        range_rb_def boxed_slice_buffer_def)
  ultimately show ?thesis by (simp add: stable_slice_def raw_slice_def Let_def)
qed

lemma boxed_fill:
  fixes data :: "u8 list"
  assumes ok: "mem_ok b" "bs_ptr b \<noteq> null_ptr" and pos: "pos \<le> length (bs_data b)"
    and w: "w = min (length (bs_data b) - pos) (length data)"
  shows "to_fill boxed_slice_buffer data (view_new b \<lparr>to_end = pos\<rparr>) =
    Inr (w, view_new (b\<lparr>bs_data := take pos (bs_data b) @ take w data @ drop (pos + w) (bs_data b)\<rparr>)
      \<lparr>to_end = pos + w\<rparr>)"
proof -
  have l: "length (take w data) = w" using w by simp
  have s: "write_slice boxed_slice_buffer b pos (take w data) =
      b\<lparr>bs_data := take pos (bs_data b) @ take w data @ drop (pos + w) (bs_data b)\<rparr>"
    using l by (simp add: write_slice_def boxed_slice_buffer_def Let_def del: length_take)
  show ?thesis
    unfolding to_fill_def view_new_def
    by (simp only: Let_def view.simps range_to.simps boxed_slice_slice [OF ok] option.case pos if_True
        w [symmetric] s)
qed

end
