(* ===== verification/Sqe.thy ===== *)
theory Sqe
  imports Results
begin

section \<open>Submission queue entries\<close>

text \<open>
  The entries the operations build. \<open>io_uring::opcode\<close> is a crate outside the repository: an
  entry is kept as the builder calls the code makes, one constructor of \<open>opcode\<close> per
  builder with the arguments it is given, so nothing is assumed of the bytes they encode
  to. \<open>loc\<close> is a raw pointer argument: an address on the heap, a field of the value at an
  address (Rust leaves field offsets unspecified), or a static string. \<open>sqe_locs\<close> lists the
  pointers an entry carries.
\<close>

datatype loc =
    At ptr
  | FieldOf ptr string
  | StaticStr string

datatype target =
    TFd i32
  | TFixed u32

datatype dest_slot =
    SlotTarget u32
  | AutoTarget

datatype fsync_flags = FsyncAll | FsyncDatasync

datatype opcode =
    OpNop
  | OpAsyncCancel u64
  | OpRead target loc u32 u64 "u16 option"
  | OpReadFixed target loc u32 u16 u64
  | OpReadv target loc u32 u64
  | OpReadMulti target u16
  | OpWrite target loc u32 u64
  | OpWriteFixed target loc u32 u16 u64
  | OpWritev target loc u32 u64
  | OpOpenAt i32 loc i32 u32 "dest_slot option"
  | OpClose target
  | OpFsync target fsync_flags
  | OpStatx i32 loc loc i32 u32
  | OpMkDirAt i32 loc u32
  | OpFtruncate target u64
  | OpFadvise target u64 i32 u64
  | OpFallocate target u64 u64
  | OpLinkAt i32 loc i32 loc
  | OpSymlinkAt i32 loc loc
  | OpUnlinkAt i32 loc i32
  | OpSocket i32 i32 i32 "dest_slot option"
  | OpBind target loc u32
  | OpListen target i32
  | OpConnect target loc u32
  | OpAccept target loc loc "dest_slot option"
  | OpAcceptMulti target bool
  | OpShutdown target i32
  | OpTimeout loc
  | OpFilesUpdate loc u32
  | OpFixedFdInstall u32 u32
  | OpProvideBuffers loc i32 u16 u16 u16
  | OpRemoveBuffers u16 u16

datatype sqe_flag = IO_LINK | BUFFER_SELECT

record sqe =
  sq_op :: opcode
  sq_flags :: "sqe_flag list"
  sq_user_data :: u64

text \<open>\<open>build\<close> of a builder, then \<open>Entry::flags\<close> and \<open>Entry::user_data\<close>.\<close>

definition sqe_build :: "opcode \<Rightarrow> sqe" where
  "sqe_build oc = \<lparr>sq_op = oc, sq_flags = [], sq_user_data = 0\<rparr>"

definition sqe_with_flags :: "sqe_flag \<Rightarrow> sqe \<Rightarrow> sqe" where
  "sqe_with_flags f e = e\<lparr>sq_flags := f # sq_flags e\<rparr>"

definition sqe_with_user_data :: "u64 \<Rightarrow> sqe \<Rightarrow> sqe" where
  "sqe_with_user_data d e = e\<lparr>sq_user_data := d\<rparr>"

definition opcode_locs :: "opcode \<Rightarrow> loc list" where
  "opcode_locs oc =
     (case oc of
        OpRead _ p n _ g \<Rightarrow> (if n = 0 then [] else [p])
      | OpReadFixed _ p _ _ _ \<Rightarrow> [p]
      | OpReadv _ p _ _ \<Rightarrow> [p]
      | OpWrite _ p _ _ \<Rightarrow> [p]
      | OpWriteFixed _ p _ _ _ \<Rightarrow> [p]
      | OpWritev _ p _ _ \<Rightarrow> [p]
      | OpOpenAt _ p _ _ _ \<Rightarrow> [p]
      | OpStatx _ p q _ _ \<Rightarrow> [p, q]
      | OpMkDirAt _ p _ \<Rightarrow> [p]
      | OpLinkAt _ p _ q \<Rightarrow> [p, q]
      | OpSymlinkAt _ p q \<Rightarrow> [p, q]
      | OpUnlinkAt _ p _ \<Rightarrow> [p]
      | OpBind _ p _ \<Rightarrow> [p]
      | OpConnect _ p _ \<Rightarrow> [p]
      | OpAccept _ p q _ \<Rightarrow> [p, q]
      | OpTimeout p \<Rightarrow> [p]
      | OpFilesUpdate p _ \<Rightarrow> [p]
      | OpProvideBuffers p _ _ _ _ \<Rightarrow> [p]
      | _ \<Rightarrow> [])"

definition sqe_locs :: "sqe \<Rightarrow> loc list" where
  "sqe_locs e = opcode_locs (sq_op e)"

text \<open>The operations the kernel answers with more than one completion.\<close>

definition multishot :: "sqe \<Rightarrow> bool" where
  "multishot e = (case sq_op e of OpReadMulti _ _ \<Rightarrow> True | OpAcceptMulti _ _ \<Rightarrow> True | _ \<Rightarrow> False)"

lemma user_data_simps [simp]:
  "sq_user_data (sqe_with_user_data d e) = d"
  "sq_op (sqe_with_user_data d e) = sq_op e"
  "sq_flags (sqe_with_user_data d e) = sq_flags e"
  by (simp_all add: sqe_with_user_data_def)

lemma build_simps [simp]:
  "sq_op (sqe_build oc) = oc" "sq_flags (sqe_build oc) = []" "sq_user_data (sqe_build oc) = 0"
  by (simp_all add: sqe_build_def)

lemma flags_simps [simp]:
  "sq_op (sqe_with_flags f e) = sq_op e"
  "sq_flags (sqe_with_flags f e) = f # sq_flags e"
  "sq_user_data (sqe_with_flags f e) = sq_user_data e"
  by (simp_all add: sqe_with_flags_def)

lemma multishot_user_data [simp]: "multishot (sqe_with_user_data d e) = multishot e"
  by (simp add: multishot_def)

end
