(* ===== verification/Limits.thy ===== *)
theory Limits
  imports Prelude
begin

section \<open>Resource limits (util.rs, set_limits)\<close>

text \<open>
  \<open>set_limits\<close> raises the soft limits on locked memory and open files to the hard limits. The
  two libc calls and \<open>errno\<close> are a parameter: a record of functions on an opaque state of the
  process. A call returns its status, the value read and the new state.
\<close>

datatype limit_resource = RLIMIT_MEMLOCK | RLIMIT_NOFILE

record rlimit64 =
  rlim_cur :: u64
  rlim_max :: u64

record 'o os_ops =
  os_getrlimit :: "limit_resource \<Rightarrow> 'o \<Rightarrow> i32 \<times> rlimit64 \<times> 'o"
  os_setrlimit :: "limit_resource \<Rightarrow> rlimit64 \<Rightarrow> 'o \<Rightarrow> i32 \<times> 'o"
  os_last_error :: "'o \<Rightarrow> io_error"

definition check_ret :: "io_error \<Rightarrow> i32 \<Rightarrow> io_error + unit" where
  "check_ret err r = (if r <s 0 then Inl err else Inr ())"

definition raise_limit :: "'o os_ops \<Rightarrow> limit_resource \<Rightarrow> 'o \<Rightarrow> (io_error + unit) \<times> 'o" where
  "raise_limit os res st =
     (let (r, limit, st1) = os_getrlimit os res st
      in case check_ret (os_last_error os st1) r of
           Inl err \<Rightarrow> (Inl err, st1)
         | Inr _ \<Rightarrow>
             if rlim_cur limit < rlim_max limit then
               (let (r', st2) = os_setrlimit os res (limit\<lparr>rlim_cur := rlim_max limit\<rparr>) st1
                in (check_ret (os_last_error os st2) r', st2))
             else (Inr (), st1))"

definition set_limits :: "'o os_ops \<Rightarrow> 'o \<Rightarrow> (io_error + unit) \<times> 'o" where
  "set_limits os st =
     (case raise_limit os RLIMIT_MEMLOCK st of
        (Inl err, st1) \<Rightarrow> (Inl err, st1)
      | (Inr _, st1) \<Rightarrow> raise_limit os RLIMIT_NOFILE st1)"

subsection \<open>Processes with limits\<close>

text \<open>
  The documented behaviour of the two calls: \<open>limit_of\<close> reads the limits of a process, a
  successful \<open>getrlimit\<close> returns them and changes nothing, a successful \<open>setrlimit\<close> sets one
  of them.
\<close>

definition os_limits :: "'o os_ops \<Rightarrow> ('o \<Rightarrow> limit_resource \<Rightarrow> rlimit64) \<Rightarrow> bool" where
  "os_limits os limit_of \<longleftrightarrow>
     (\<forall>res st r l st'. os_getrlimit os res st = (r, l, st') \<and> \<not> r <s 0 \<longrightarrow>
        l = limit_of st res \<and> limit_of st' = limit_of st) \<and>
     (\<forall>res l st r st'. os_setrlimit os res l st = (r, st') \<and> \<not> r <s 0 \<longrightarrow>
        limit_of st' = (limit_of st)(res := l))"

lemma os_limitsD:
  assumes "os_limits os limit_of"
  shows "os_getrlimit os res st = (r, l, st') \<Longrightarrow> \<not> r <s 0 \<Longrightarrow>
      l = limit_of st res \<and> limit_of st' = limit_of st"
    and "os_setrlimit os res l st = (r, st') \<Longrightarrow> \<not> r <s 0 \<Longrightarrow>
      limit_of st' = (limit_of st)(res := l)"
  using assms by (auto simp: os_limits_def)

definition raised :: "rlimit64 \<Rightarrow> rlimit64" where
  "raised l = l\<lparr>rlim_cur := max (rlim_cur l) (rlim_max l)\<rparr>"

lemma raise_limit_ok:
  assumes os: "os_limits os limit_of" and ok: "raise_limit os res st = (Inr (), st')"
  shows "limit_of st' = (limit_of st)(res := raised (limit_of st res))"
proof -
  obtain r l st1 where g: "os_getrlimit os res st = (r, l, st1)" by (cases "os_getrlimit os res st")
  have r: "\<not> r <s 0" using ok g by (auto simp: raise_limit_def check_ret_def split: if_splits)
  note l = os_limitsD(1) [OF os g r]
  show ?thesis
  proof (cases "rlim_cur l < rlim_max l")
    case True
    obtain r' st2 where s: "os_setrlimit os res (l\<lparr>rlim_cur := rlim_max l\<rparr>) st1 = (r', st2)"
      by (cases "os_setrlimit os res (l\<lparr>rlim_cur := rlim_max l\<rparr>) st1")
    have "\<not> r' <s 0" "st' = st2"
      using ok g r s True by (auto simp: raise_limit_def check_ret_def split: if_splits)
    then show ?thesis using os_limitsD(2) [OF os s] l True by (simp add: max_def raised_def less_imp_le)
  next
    case False
    then have "st' = st1" using ok g r by (auto simp: raise_limit_def check_ret_def)
    then show ?thesis using l False by (auto simp: max_def not_less raised_def)
  qed
qed

lemma set_limits_raised:
  assumes os: "os_limits os limit_of" and ok: "set_limits os st = (Inr (), st')"
  shows "limit_of st' res = raised (limit_of st res)"
proof -
  obtain st1 where "raise_limit os RLIMIT_MEMLOCK st = (Inr (), st1)"
    "raise_limit os RLIMIT_NOFILE st1 = (Inr (), st')"
    using ok by (auto simp: set_limits_def split: prod.splits sum.splits)
  note a = raise_limit_ok [OF os this(1)] and b = raise_limit_ok [OF os this(2)]
  show ?thesis using a b by (cases res) auto
qed

text \<open>A process whose state is its limits.\<close>

definition table_os :: "(limit_resource \<Rightarrow> rlimit64) os_ops" where
  "table_os =
     \<lparr>os_getrlimit = (\<lambda>res st. (0, st res, st)), os_setrlimit = (\<lambda>res l st. (0, st(res := l))),
      os_last_error = (\<lambda>_. OsError 0)\<rparr>"

end
