(* ===== verification/Ring.thy ===== *)
theory Ring
  imports CompletionSpec Register Buffer Sqe Limits
begin

section \<open>The ring (ring/mod.rs)\<close>

text \<open>
  \<open>Ring\<close> wraps the kernel's queues. \<open>io_uring::IoUring\<close> and its submitter are outside the
  repository: \<open>uring_ops\<close> is the record of the calls the code makes on them, on an opaque
  state \<open>'u\<close>. \<open>ur_completion\<close> returns the entries the iterator over the completion queue
  yields. An \<open>expect\<close> on a failed call is a panic, an addition or subtraction of the \<open>u32\<close>
  counters that leaves their range is the panic \<open>Overflow\<close>.
\<close>

record 'u uring_ops =
  ur_build :: "u32 \<Rightarrow> 'u option"
  ur_register_buffers_sparse :: "u32 \<Rightarrow> 'u \<Rightarrow> 'u option"
  ur_register_files_sparse :: "u32 \<Rightarrow> 'u \<Rightarrow> 'u option"
  ur_register_file_alloc_range :: "u32 \<Rightarrow> u32 \<Rightarrow> 'u \<Rightarrow> 'u option"
  ur_register_files_update :: "u32 \<Rightarrow> i32 list \<Rightarrow> 'u \<Rightarrow> 'u option"
  ur_register_buffers_update :: "u32 \<Rightarrow> (ptr \<times> usize) list \<Rightarrow> 'u \<Rightarrow> io_error + 'u"
  ur_push :: "sqe \<Rightarrow> 'u \<Rightarrow> 'u option"
  ur_submit_and_wait :: "usize \<Rightarrow> 'u \<Rightarrow> 'u option"
  ur_completion :: "'u \<Rightarrow> cqe list \<times> 'u"

text \<open>The parameters every ring operation is given.\<close>

record ('u, 's) env =
  env_ur :: "'u uring_ops"
  env_cq :: cqueue_ops
  env_sl :: "('s, completion) slab_ops"

definition u32_add :: "u32 \<Rightarrow> u32 \<Rightarrow> panic + u32" where
  "u32_add a b = (if unat a + unat b < 2 ^ 32 then Inr (a + b) else Inl Overflow)"

definition u32_sub :: "u32 \<Rightarrow> u32 \<Rightarrow> panic + u32" where
  "u32_sub a b = (if b \<le> a then Inr (a - b) else Inl Overflow)"

definition u32_mul :: "u32 \<Rightarrow> u32 \<Rightarrow> panic + u32" where
  "u32_mul a b = (if unat a * unat b < 2 ^ 32 then Inr (a * b) else Inl Overflow)"

definition expectR :: "panic \<Rightarrow> 'a option \<Rightarrow> panic + 'a" where
  "expectR p m = (case m of Some x \<Rightarrow> Inr x | None \<Rightarrow> Inl p)"

lemma expectR_simps [simp, result_simps]: "expectR p (Some x) = Inr x" "expectR p None = Inl p"
  by (simp_all add: expectR_def)

lemma expectR_Inr_iff: "expectR p m = Inr x \<longleftrightarrow> m = Some x"
  by (cases m) simp_all

subsection \<open>Options and construction\<close>

record ring_options =
  opt_submissions :: u32
  opt_fixed_buffers :: u32
  opt_buffer_groups :: u32
  opt_auto_direct_files :: u32
  opt_manual_direct_files :: u32

definition default_options :: ring_options where
  "default_options =
     \<lparr>opt_submissions = 2048, opt_fixed_buffers = 256, opt_buffer_groups = 256,
      opt_auto_direct_files = 256, opt_manual_direct_files = 16\<rparr>"

definition set_submissions :: "u32 \<Rightarrow> ring_options \<Rightarrow> ring_options" where
  "set_submissions capacity opts = opts\<lparr>opt_submissions := capacity\<rparr>"

definition set_auto_direct_files :: "u32 \<Rightarrow> ring_options \<Rightarrow> ring_options" where
  "set_auto_direct_files capacity opts = opts\<lparr>opt_auto_direct_files := capacity\<rparr>"

definition set_manual_direct_files :: "u32 \<Rightarrow> ring_options \<Rightarrow> ring_options" where
  "set_manual_direct_files capacity opts = opts\<lparr>opt_manual_direct_files := capacity\<rparr>"

definition set_fixed_buffers :: "u32 \<Rightarrow> ring_options \<Rightarrow> ring_options" where
  "set_fixed_buffers capacity opts = opts\<lparr>opt_fixed_buffers := capacity\<rparr>"

definition set_buffer_groups :: "u32 \<Rightarrow> ring_options \<Rightarrow> ring_options" where
  "set_buffer_groups capacity opts = opts\<lparr>opt_buffer_groups := capacity\<rparr>"

record ('u, 's) ring =
  uring :: 'u
  active :: u32
  detached :: u32
  canceled :: u32
  completions :: "'s completion_set"
  direct_files :: slot_register
  fixed_buffers :: slot_register
  buffer_groups :: slot_register

definition new_ring :: "('u, 's) env \<Rightarrow> ring_options \<Rightarrow> 'u \<Rightarrow> ('u, 's) ring" where
  "new_ring E opts u =
     \<lparr>uring = u, active = 0, detached = 0, canceled = 0,
      completions = cs_with_capacity (env_sl E) (unat (opt_submissions opts)),
      direct_files = sr_new (opt_manual_direct_files opts),
      fixed_buffers = sr_new (opt_fixed_buffers opts),
      buffer_groups = sr_new (opt_buffer_groups opts)\<rparr>"

text \<open>\<open>build\<close> only logs a failure of \<open>set_limits\<close>.\<close>

definition ring_build ::
    "('u, 's) env \<Rightarrow> 'o os_ops \<Rightarrow> ring_options \<Rightarrow> 'o \<Rightarrow> (panic + ('u, 's) ring) \<times> 'o" where
  "ring_build E os opts st =
     (let (_, st1) = set_limits os st;
          ur = env_ur E;
          auto = opt_auto_direct_files opts;
          manual = opt_manual_direct_files opts
      in (bindR (expectR BuildFailed (ur_build ur (opt_submissions opts))) (\<lambda>u0.
          bindR (if opt_fixed_buffers opts > 0
                 then expectR BuildFailed (ur_register_buffers_sparse ur (opt_fixed_buffers opts) u0)
                 else Inr u0) (\<lambda>u1.
          bindR (u32_add auto manual) (\<lambda>files.
          bindR (if files > 0 then expectR BuildFailed (ur_register_files_sparse ur files u1)
                 else Inr u1) (\<lambda>u2.
          bindR (if auto > 0
                 then bindR (expectR BuildFailed (ur_register_file_alloc_range ur manual auto u2)) (\<lambda>u3.
                      if manual > 0
                      then expectR BuildFailed (ur_register_files_update ur 0 (replicate (unat manual) 0) u3)
                      else Inr u3)
                 else Inr u2) (\<lambda>u4.
          Inr (new_ring E opts u4)))))), st1))"

subsection \<open>Queries\<close>

definition ring_active :: "('u, 's) ring \<Rightarrow> u32" where
  "ring_active r = active r"

definition ring_is_done :: "('u, 's) env \<Rightarrow> ('u, 's) ring \<Rightarrow> panic + bool" where
  "ring_is_done E r =
     bindR (u32_add (active r) (detached r)) (\<lambda>n.
       Inr (n = 0 \<and> cs_is_empty (env_sl E) (completions r) \<and> sr_is_full (direct_files r) \<and>
         sr_is_full (fixed_buffers r) \<and> sr_is_full (buffer_groups r)))"

subsection \<open>Submission\<close>

definition ring_push :: "('u, 's) env \<Rightarrow> sqe \<Rightarrow> ('u, 's) ring \<Rightarrow> panic + ('u, 's) ring" where
  "ring_push E entry r =
     mapR (\<lambda>u. r\<lparr>uring := u\<rparr>) (expectR SubmissionQueueFull (ur_push (env_ur E) entry (uring r)))"

definition ring_submit ::
    "('u, 's) env \<Rightarrow> sqe \<Rightarrow> waker \<Rightarrow> ('u, 's) ring \<Rightarrow> panic + (key \<times> ('u, 's) ring)" where
  "ring_submit E entry waker r =
     (let (key, cs') = cs_insert (env_sl E) waker (completions r)
      in bindR (ring_push E (sqe_with_user_data (key_as_u64 key) entry) (r\<lparr>completions := cs'\<rparr>)) (\<lambda>r1.
         mapR (\<lambda>n. (key, r1\<lparr>active := n\<rparr>)) (u32_add (active r1) 1)))"

definition ring_submit_detached ::
    "('u, 's) env \<Rightarrow> sqe \<Rightarrow> ('u, 's) ring \<Rightarrow> panic + ('u, 's) ring" where
  "ring_submit_detached E entry r =
     bindR (ring_push E (sqe_with_user_data IGNORE_KEY entry) r) (\<lambda>r1.
     mapR (\<lambda>n. r1\<lparr>detached := n\<rparr>) (u32_add (detached r1) 1))"

definition ring_cancel ::
    "('u, 's) env \<Rightarrow> key \<Rightarrow> sqe option \<Rightarrow> cancellation \<Rightarrow> ('u, 's) ring \<Rightarrow>
      panic + (('u, 's) ring \<times> event list)" where
  "ring_cancel E key entry cancel r =
     bindR (cs_cancel (env_sl E) key cancel (completions r)) (\<lambda>(in_flight, cs', ev).
     let r1 = r\<lparr>completions := cs'\<rparr> in
     if \<not> in_flight then Inr (r1, ev)
     else (case entry of
             None \<Rightarrow> Inr (r1, ev)
           | Some e \<Rightarrow>
               bindR (ring_push E (sqe_with_user_data IGNORE_KEY e) r1) (\<lambda>r2.
               bindR (u32_add (detached r2) 1) (\<lambda>d.
               bindR (u32_add (canceled r2) 1) (\<lambda>c.
               Inr (r2\<lparr>detached := d, canceled := c\<rparr>, ev))))))"

definition ring_check_result ::
    "('u, 's) env \<Rightarrow> key \<Rightarrow> ('u, 's) ring \<Rightarrow> panic + (ring_result option \<times> ('u, 's) ring)" where
  "ring_check_result E key r =
     mapR (\<lambda>(result, cs', _). (result, r\<lparr>completions := cs'\<rparr>)) (cs_result (env_sl E) key (completions r))"

subsection \<open>Waiting\<close>

text \<open>The number of completions \<open>submit_and_wait\<close> asks the kernel for.\<close>

definition ring_want :: "('u, 's) ring \<Rightarrow> panic + u32" where
  "ring_want r =
     bindR (u32_mul 2 (canceled r)) (\<lambda>twice.
     bindR (if active r = canceled r then Inr twice else u32_add 1 twice) (\<lambda>want.
     Inr (if want = 0 \<and> detached r > 0 then detached r else want)))"

definition ring_submit_and_wait :: "('u, 's) env \<Rightarrow> ('u, 's) ring \<Rightarrow> panic + ('u, 's) ring" where
  "ring_submit_and_wait E r =
     bindR (u32_add (active r) (detached r)) (\<lambda>n.
     if n = 0 then Inr r
     else bindR (ring_want r) (\<lambda>want.
          bindR (expectR WaitFailed (ur_submit_and_wait (env_ur E) (unat want) (uring r))) (\<lambda>u.
          Inr (r\<lparr>uring := u, canceled := 0\<rparr>))))"

definition ring_handle_entry ::
    "('u, 's) env \<Rightarrow> cqe \<Rightarrow> ('u, 's) ring \<Rightarrow> panic + (('u, 's) ring \<times> event list)" where
  "ring_handle_entry E entry r =
     (if cqe_user_data entry = IGNORE_KEY then
        mapR (\<lambda>n. (r\<lparr>detached := n\<rparr>, [])) (u32_sub (detached r) 1)
      else
        (let result = from_completion entry
         in bindR (if has_more (env_cq E) result then Inr (active r) else u32_sub (active r) 1) (\<lambda>n.
            bindR (cs_notify (env_cq E) (env_sl E) (key_from_u64 (cqe_user_data entry)) result
                (completions r)) (\<lambda>(_, cs', ev).
            Inr (r\<lparr>active := n, completions := cs'\<rparr>, ev)))))"

fun ring_handle_entries ::
    "('u, 's) env \<Rightarrow> cqe list \<Rightarrow> ('u, 's) ring \<Rightarrow> panic + (('u, 's) ring \<times> event list)" where
  "ring_handle_entries E [] r = Inr (r, [])"
| "ring_handle_entries E (entry # rest) r =
     bindR (ring_handle_entry E entry r) (\<lambda>(r1, ev1).
     bindR (ring_handle_entries E rest r1) (\<lambda>(r2, ev2).
     Inr (r2, ev1 @ ev2)))"

definition ring_handle_completions ::
    "('u, 's) env \<Rightarrow> ('u, 's) ring \<Rightarrow> panic + (('u, 's) ring \<times> event list)" where
  "ring_handle_completions E r =
     (let (es, u) = ur_completion (env_ur E) (uring r)
      in ring_handle_entries E es (r\<lparr>uring := u\<rparr>))"

definition ring_wait :: "('u, 's) env \<Rightarrow> ('u, 's) ring \<Rightarrow> panic + (('u, 's) ring \<times> event list)" where
  "ring_wait E r = bindR (ring_submit_and_wait E r) (ring_handle_completions E)"

subsection \<open>Slots\<close>

definition ring_register_buffer ::
    "('u, 's) env \<Rightarrow> 'b stable_buffer \<Rightarrow> 'b \<Rightarrow> ('u, 's) ring \<Rightarrow> (io_error + buffer_slot) \<times> ('u, 's) ring" where
  "ring_register_buffer E D buffer r =
     (case sr_get wrap_buffer_slot (fixed_buffers r) of
        None \<Rightarrow> (Inl (OtherError ''No fixed buffer slots available''), r)
      | Some (slot, sr') \<Rightarrow>
          (let r1 = r\<lparr>fixed_buffers := sr'\<rparr>;
               iovec = (sb_ptr D buffer, sb_size D buffer)
           in case ur_register_buffers_update (env_ur E) (buffer_slot_index slot) [iovec] (uring r1) of
                Inl err \<Rightarrow> (Inl err, r1)
              | Inr u \<Rightarrow> (Inr slot, r1\<lparr>uring := u\<rparr>)))"

definition ring_unregister_buffer :: "buffer_slot \<Rightarrow> ('u, 's) ring \<Rightarrow> ('u, 's) ring" where
  "ring_unregister_buffer slot r =
     r\<lparr>fixed_buffers := sr_remove wrap_buffer_slot slot (fixed_buffers r)\<rparr>"

definition ring_get_direct_slot :: "('u, 's) ring \<Rightarrow> (io_error + direct_slot) \<times> ('u, 's) ring" where
  "ring_get_direct_slot r =
     (case sr_get wrap_direct_slot (direct_files r) of
        None \<Rightarrow> (Inl (OtherError ''No manual direct file slots available''), r)
      | Some (slot, sr') \<Rightarrow> (Inr slot, r\<lparr>direct_files := sr'\<rparr>))"

definition ring_release_direct_slot :: "direct_slot \<Rightarrow> ('u, 's) ring \<Rightarrow> ('u, 's) ring" where
  "ring_release_direct_slot slot r =
     r\<lparr>direct_files := sr_remove wrap_direct_slot slot (direct_files r)\<rparr>"

definition ring_get_buffer_group :: "('u, 's) ring \<Rightarrow> (io_error + buffer_group_id) \<times> ('u, 's) ring" where
  "ring_get_buffer_group r =
     (case sr_get wrap_buffer_group_id (buffer_groups r) of
        None \<Rightarrow> (Inl (OtherError ''No manual buffer group slots available''), r)
      | Some (slot, sr') \<Rightarrow> (Inr slot, r\<lparr>buffer_groups := sr'\<rparr>))"

definition ring_release_buffer_group :: "buffer_group_id \<Rightarrow> ('u, 's) ring \<Rightarrow> ('u, 's) ring" where
  "ring_release_buffer_group slot r =
     r\<lparr>buffer_groups := sr_remove wrap_buffer_group_id slot (buffer_groups r)\<rparr>"

end
