(* ===== verification/RingSpec.thy ===== *)
theory RingSpec
  imports Ring
begin

section \<open>The ring keeps count of what the kernel owes\<close>

text \<open>
  The contract of the kernel's queues (locale \<open>kernel_queue\<close>): \<open>pending\<close> is the multiset of
  entries that were pushed and whose last completion was not yet reaped. Pushing adds an
  entry, waiting keeps them, and the completion iterator yields completions of pending
  entries, removing an entry with the completion that announces no more.

  The invariant \<open>ring_inv\<close> ties the counters \<open>active\<close>, \<open>detached\<close> and \<open>canceled\<close> and the
  completion set to \<open>pending\<close>. It gives: no completion is for an unknown key, no counter
  leaves its range, and \<open>wait\<close> never asks for more completions than are outstanding.
\<close>

subsection \<open>The kernel's queues\<close>

inductive reaped :: "cqueue_ops \<Rightarrow> cqe list \<Rightarrow> sqe multiset \<Rightarrow> sqe multiset \<Rightarrow> bool" for cq where
  nil: "reaped cq [] P P"
| final: "e \<in># P \<Longrightarrow> cqe_user_data c = sq_user_data e \<Longrightarrow> \<not> has_more cq (from_completion c) \<Longrightarrow>
    reaped cq cs (P - {#e#}) P' \<Longrightarrow> reaped cq (c # cs) P P'"
| again: "e \<in># P \<Longrightarrow> cqe_user_data c = sq_user_data e \<Longrightarrow> has_more cq (from_completion c) \<Longrightarrow>
    multishot e \<Longrightarrow> reaped cq cs P P' \<Longrightarrow> reaped cq (c # cs) P P'"

inductive_cases reaped_consE: "reaped cq (c # cs) P P'"
inductive_cases reaped_nilE: "reaped cq [] P P'"

locale kernel_queue =
  fixes ur :: "'u uring_ops" and cq :: cqueue_ops
    and pending :: "'u \<Rightarrow> sqe multiset" and uvalid :: "'u \<Rightarrow> bool"
  assumes build_pending: "ur_build ur depth = Some u \<Longrightarrow> uvalid u \<and> pending u = {#}"
    and sparse_pending: "\<lbrakk>uvalid u; ur_register_buffers_sparse ur cap u = Some u'\<rbrakk> \<Longrightarrow>
      uvalid u' \<and> pending u' = pending u"
    and files_pending: "\<lbrakk>uvalid u; ur_register_files_sparse ur cap u = Some u'\<rbrakk> \<Longrightarrow>
      uvalid u' \<and> pending u' = pending u"
    and range_pending: "\<lbrakk>uvalid u; ur_register_file_alloc_range ur off cap u = Some u'\<rbrakk> \<Longrightarrow>
      uvalid u' \<and> pending u' = pending u"
    and update_pending: "\<lbrakk>uvalid u; ur_register_files_update ur off fds u = Some u'\<rbrakk> \<Longrightarrow>
      uvalid u' \<and> pending u' = pending u"
    and push_pending: "\<lbrakk>uvalid u; ur_push ur e u = Some u'\<rbrakk> \<Longrightarrow>
      uvalid u' \<and> pending u' = add_mset e (pending u)"
    and wait_pending: "\<lbrakk>uvalid u; ur_submit_and_wait ur n u = Some u'\<rbrakk> \<Longrightarrow>
      uvalid u' \<and> pending u' = pending u"
    and completion_reaped: "\<lbrakk>uvalid u; ur_completion ur u = (cs, u')\<rbrakk> \<Longrightarrow>
      uvalid u' \<and> reaped cq cs (pending u) (pending u')"
    and buffers_pending: "\<lbrakk>uvalid u; ur_register_buffers_update ur i bs u = Inr u'\<rbrakk> \<Longrightarrow>
      uvalid u' \<and> pending u' = pending u"

subsection \<open>What the counters count\<close>

definition waiting :: "(key \<rightharpoonup> acompletion) \<Rightarrow> key set" where
  "waiting m = {k. \<exists>a. m k = Some a \<and> expects_more a}"

definition gone :: "(key \<rightharpoonup> acompletion) \<Rightarrow> key set" where
  "gone m = {k. \<exists>c. m k = Some (Gone c)}"

definition owed :: "nat \<Rightarrow> key set \<Rightarrow> u64 multiset" where
  "owed n K = replicate_mset n IGNORE_KEY + image_mset key_as_u64 (mset_set K)"

definition counted :: "sqe multiset \<Rightarrow> ('u, 's) ring \<Rightarrow> (key \<rightharpoonup> acompletion) \<Rightarrow> bool" where
  "counted P r m \<longleftrightarrow>
     finite (dom m) \<and>
     image_mset sq_user_data P = owed (unat (detached r)) (waiting m) \<and>
     (\<forall>e. e \<in># P \<longrightarrow> sq_user_data e = IGNORE_KEY \<longrightarrow> \<not> multishot e) \<and>
     unat (active r) = card (waiting m) \<and>
     unat (canceled r) \<le> unat (detached r) \<and>
     unat (canceled r) \<le> card (gone m)"

definition balanced :: "('u, 's) env \<Rightarrow> ('s \<Rightarrow> bool) \<Rightarrow> sqe multiset \<Rightarrow> ('u, 's) ring \<Rightarrow> bool" where
  "balanced E valid P r \<longleftrightarrow>
     cs_inv (env_sl E) valid (completions r) \<and>
     counted P r (cs_abs (env_sl E) (completions r)) \<and>
     sr_inv (direct_files r) \<and> sr_inv (fixed_buffers r) \<and> sr_inv (buffer_groups r)"

definition ring_inv ::
    "('u, 's) env \<Rightarrow> ('s \<Rightarrow> bool) \<Rightarrow> ('u \<Rightarrow> sqe multiset) \<Rightarrow> ('u \<Rightarrow> bool) \<Rightarrow> ('u, 's) ring \<Rightarrow> bool" where
  "ring_inv E valid pending uvalid r \<longleftrightarrow>
     uvalid (uring r) \<and> balanced E valid (pending (uring r)) r"

definition ring_abs :: "('u, 's) env \<Rightarrow> ('u, 's) ring \<Rightarrow> key \<rightharpoonup> acompletion" where
  "ring_abs E r = cs_abs (env_sl E) (completions r)"

lemma waiting_dom: "waiting m \<subseteq> dom m"
  by (auto simp: waiting_def)

lemma gone_waiting: "gone m \<subseteq> waiting m"
  by (auto simp: waiting_def gone_def expects_more_def)

lemma waiting_update:
  "waiting (m(k := a)) = (if \<exists>b. a = Some b \<and> expects_more b then insert k (waiting m) else waiting m - {k})"
  by (auto simp: waiting_def)

lemma gone_update:
  "gone (m(k := a)) = (if \<exists>c. a = Some (Gone c) then insert k (gone m) else gone m - {k})"
  by (auto simp: gone_def)

lemma finite_waiting: "finite (dom m) \<Longrightarrow> finite (waiting m)"
  using waiting_dom by (rule finite_subset)

lemma card_gone: "finite (dom m) \<Longrightarrow> card (gone m) \<le> card (waiting m)"
  by (rule card_mono [OF finite_waiting gone_waiting])

lemma size_owed: "finite K \<Longrightarrow> size (owed n K) = n + card K"
  by (simp add: owed_def)

lemma owed_insert: "finite K \<Longrightarrow> k \<notin> K \<Longrightarrow> owed n (insert k K) = add_mset (key_as_u64 k) (owed n K)"
  by (simp add: owed_def)

lemma owed_Suc: "owed (Suc n) K = add_mset IGNORE_KEY (owed n K)"
  by (simp add: owed_def)

lemma owed_remove: "finite K \<Longrightarrow> k \<in> K \<Longrightarrow> owed n (K - {k}) = owed n K - {#key_as_u64 k#}"
  using owed_insert [of "K - {k}" k n] by (simp add: insert_absorb)

lemma owed_mem: "finite K \<Longrightarrow> d \<in># owed n K \<longleftrightarrow> d = IGNORE_KEY \<and> 0 < n \<or> (\<exists>k\<in>K. d = key_as_u64 k)"
  by (auto simp: owed_def)

lemma counted_pending_size:
  assumes "counted P r m"
  shows "size P = unat (active r) + unat (detached r)"
proof -
  have "size P = size (image_mset sq_user_data P)" by simp
  also have "\<dots> = unat (detached r) + card (waiting m)"
    using assms by (simp only: counted_def) (simp add: size_owed finite_waiting)
  finally show ?thesis using assms by (simp add: counted_def)
qed

lemma u32_add_Inr [simp]: "unat a + unat b < 2 ^ 32 \<Longrightarrow> u32_add a b = Inr (a + b)"
  by (simp add: u32_add_def)

lemma unat_u32_add: "unat (a :: u32) + unat b < 2 ^ 32 \<Longrightarrow> unat (a + b) = unat a + unat b"
  by (simp add: unat_word_ariths)

lemma unat_u32_sub: "(b :: u32) \<le> a \<Longrightarrow> unat (a - b) = unat a - unat b"
  by (simp add: unat_sub)

lemma u32_sub_one: "0 < unat (a :: u32) \<Longrightarrow> u32_sub a 1 = Inr (a - 1) \<and> unat (a - 1) = unat a - 1"
  by (simp add: u32_sub_def word_le_nat_alt unat_sub)

text \<open>\<open>wait\<close> asks for at most what is outstanding, and for something whenever anything is.\<close>

lemma want_bound:
  assumes c: "unat (canceled r) \<le> unat (detached r)" "unat (canceled r) \<le> unat (active r)"
    and s: "unat (active r) + unat (detached r) < 2 ^ 32" "0 < unat (active r) + unat (detached r)"
  shows "\<exists>w. ring_want r = Inr w \<and> unat w \<le> unat (active r) + unat (detached r) \<and> 0 < unat w"
proof -
  have two: "unat (2 :: u32) = 2" by simp
  have tw: "2 * unat (canceled r) < 2 ^ 32" using c s(1) by linarith
  have mul: "u32_mul 2 (canceled r) = Inr (2 * canceled r)"
    using tw by (simp only: u32_mul_def two if_True)
  have twice: "unat (2 * canceled r) = 2 * unat (canceled r)"
    using tw by (simp add: unat_word_ariths)
  show ?thesis
  proof (cases "active r = canceled r")
    case True
    have "2 * canceled r = 0 \<longleftrightarrow> unat (canceled r) = 0"
      using twice by (metis mult_is_0 unat_eq_zero zero_neq_numeral)
    then show ?thesis
      using True c s twice by (auto simp: ring_want_def mul word_less_nat_alt unat_eq_zero unat_gt_0)
  next
    case False
    then have "unat (canceled r) < unat (active r)"
      using c(2) by (metis le_neq_implies_less unat_u32_inject)
    then have lt: "unat (1 :: u32) + unat (2 * canceled r) < 2 ^ 32"
        "1 + 2 * unat (canceled r) \<le> unat (active r) + unat (detached r)"
      using c s twice by auto
    have "unat (1 + 2 * canceled r) = 1 + 2 * unat (canceled r)"
      using unat_u32_add [OF lt(1)] twice by simp
    moreover from this have "1 + 2 * canceled r \<noteq> 0" by (metis add_is_0 one_neq_zero unat_eq_zero)
    ultimately show ?thesis
      using False lt by (simp add: ring_want_def mul)
  qed
qed

subsection \<open>One completion\<close>

text \<open>The abstract effect of a completion and of a batch of them.\<close>

definition a_entry :: "cqueue_ops \<Rightarrow> cqe \<Rightarrow> (key \<rightharpoonup> acompletion) \<Rightarrow> (key \<rightharpoonup> acompletion) \<times> event list" where
  "a_entry cq c m =
     (if cqe_user_data c = IGNORE_KEY then (m, [])
      else (let k = key_from_u64 (cqe_user_data c)
            in case m k of
                 None \<Rightarrow> (m, [])
               | Some a \<Rightarrow> (m(k := fst (a_notify cq (from_completion c) a)), snd (a_notify cq (from_completion c) a))))"

fun a_entries :: "cqueue_ops \<Rightarrow> cqe list \<Rightarrow> (key \<rightharpoonup> acompletion) \<Rightarrow> (key \<rightharpoonup> acompletion) \<times> event list" where
  "a_entries cq [] m = (m, [])"
| "a_entries cq (c # cs) m =
     (let (m1, ev1) = a_entry cq c m; (m2, ev2) = a_entries cq cs m1 in (m2, ev1 @ ev2))"

definition quiet :: "cqueue_ops \<Rightarrow> cqe list \<Rightarrow> (key \<rightharpoonup> acompletion) \<Rightarrow> bool" where
  "quiet cq cs m \<longleftrightarrow>
     (\<forall>c. c \<in> set cs \<longrightarrow> has_more cq (from_completion c) \<longrightarrow>
        key_from_u64 (cqe_user_data c) \<notin> gone m)"

lemma quiet_cons: "quiet cq (c # cs) m \<Longrightarrow> quiet cq cs m"
  by (simp add: quiet_def)

lemma a_notify_gone: "fst (a_notify cq r a) = Some (Gone d) \<Longrightarrow> False"
  by (cases "(cq, r, a)" rule: a_notify.cases) auto

lemma gone_a_entry: "gone (fst (a_entry cq c m)) \<subseteq> gone m"
  by (auto simp: a_entry_def gone_def Let_def dest: a_notify_gone split: if_splits option.splits)

lemma quiet_step: "quiet cq (c # cs) m \<Longrightarrow> quiet cq cs (fst (a_entry cq c m))"
  using gone_a_entry [of cq c m] by (auto simp: quiet_def)

lemma waiting_a_notify:
  assumes "m k = Some a" "expects_more a" "has_more cq r \<Longrightarrow> k \<notin> gone m"
  shows "waiting (m(k := fst (a_notify cq r a))) = (if has_more cq r then waiting m else waiting m - {k})"
proof (cases a)
  case (Live w rs)
  then obtain w' where "w = Some w'" using assms(2) by (auto simp: expects_more_def)
  then show ?thesis using Live assms(1) by (auto simp: waiting_def expects_more_def)
next
  case (Gone d)
  then have "\<not> has_more cq r" using assms by (auto simp: gone_def)
  then show ?thesis using Gone by (auto simp: waiting_def)
qed

locale ring_env = completion_slab "env_sl E" valid + kernel_queue "env_ur E" "env_cq E" pending uvalid
  for E :: "('u, 's) env" and valid :: "'s \<Rightarrow> bool"
    and pending :: "'u \<Rightarrow> sqe multiset" and uvalid :: "'u \<Rightarrow> bool"
begin

lemma finite_abs: "cs_inv (env_sl E) valid s \<Longrightarrow> finite (dom (cs_abs (env_sl E) s))"
proof -
  assume i: "cs_inv (env_sl E) valid s"
  let ?g = "sl_get (env_sl E) (slab_of s)"
  have "key_as_usize ` dom (cs_abs (env_sl E) s) \<subseteq> dom ?g" by (auto simp: cs_abs_def abs_map_def)
  moreover have "finite (dom ?g)" using i by (simp add: cs_inv_def finite_slab)
  ultimately have "finite (key_as_usize ` dom (cs_abs (env_sl E) s))" by (rule finite_subset)
  then show ?thesis by (rule finite_imageD) (simp add: inj_on_def)
qed

lemma card_abs:
  assumes "cs_inv (env_sl E) valid s"
  shows "card (dom (cs_abs (env_sl E) s)) \<le> sl_len (env_sl E) (slab_of s)"
proof -
  let ?g = "sl_get (env_sl E) (slab_of s)"
  have "key_as_usize ` dom (cs_abs (env_sl E) s) \<subseteq> dom ?g" by (auto simp: cs_abs_def abs_map_def)
  then have "card (key_as_usize ` dom (cs_abs (env_sl E) s)) \<le> card (dom ?g)"
    using assms by (intro card_mono) (simp_all add: cs_inv_def finite_slab)
  then show ?thesis
    using assms by (simp add: card_image inj_on_def len_card cs_inv_def)
qed

lemma waiting_bound:
  assumes "balanced E valid P r"
  shows "unat (active r) \<le> sl_len (env_sl E) (slab_of (completions r))"
proof -
  have i: "cs_inv (env_sl E) valid (completions r)" using assms by (simp add: balanced_def)
  have "card (waiting (cs_abs (env_sl E) (completions r))) \<le> card (dom (cs_abs (env_sl E) (completions r)))"
    by (rule card_mono [OF finite_abs [OF i] waiting_dom])
  then show ?thesis using assms card_abs [OF i] by (simp add: balanced_def counted_def)
qed

lemma entry_refines:
  assumes i: "balanced E valid P r" and z: "canceled r = 0" and mem: "e \<in># P"
    and ud: "cqe_user_data c = sq_user_data e" and ms: "has_more (env_cq E) (from_completion c) \<Longrightarrow> multishot e"
    and q: "has_more (env_cq E) (from_completion c) \<Longrightarrow> key_from_u64 (cqe_user_data c) \<notin> gone (ring_abs E r)"
  defines "P' \<equiv> if has_more (env_cq E) (from_completion c) then P else P - {#e#}"
  shows "\<exists>r'. ring_handle_entry E c r = Inr (r', snd (a_entry (env_cq E) c (ring_abs E r))) \<and>
    ring_abs E r' = fst (a_entry (env_cq E) c (ring_abs E r)) \<and> uring r' = uring r \<and> canceled r' = 0 \<and>
    balanced E valid P' r'"
proof -
  let ?m = "ring_abs E r" and ?more = "has_more (env_cq E) (from_completion c)"
  have ci: "cs_inv (env_sl E) valid (completions r)" and cnt: "counted P r ?m"
    using i by (simp_all add: balanced_def ring_abs_def)
  have fin: "finite (waiting ?m)" using finite_abs [OF ci] by (simp add: finite_waiting ring_abs_def)
  have img: "image_mset sq_user_data P = owed (unat (detached r)) (waiting ?m)"
    and det: "\<And>e. e \<in># P \<Longrightarrow> sq_user_data e = IGNORE_KEY \<Longrightarrow> \<not> multishot e"
    and act: "unat (active r) = card (waiting ?m)"
    using cnt by (simp_all add: counted_def)
  have "sq_user_data e \<in># owed (unat (detached r)) (waiting ?m)"
    using mem img by (metis image_eqI set_image_mset)
  then consider (ignored) "sq_user_data e = IGNORE_KEY" "0 < unat (detached r)"
    | (key) k where "k \<in> waiting ?m" "sq_user_data e = key_as_u64 k"
    using fin by (auto simp: owed_mem)
  then show ?thesis
  proof cases
    case ignored
    have nm: "\<not> ?more" using det [OF mem ignored(1)] ms by blast
    note s = u32_sub_one [OF ignored(2)]
    let ?r = "r\<lparr>detached := detached r - 1\<rparr>"
    have "image_mset sq_user_data (P - {#e#}) = owed (unat (detached r) - 1) (waiting ?m)"
      using img ignored mem owed_Suc [of "unat (detached r) - 1" "waiting ?m"]
      by (simp add: image_mset_Diff)
    then have "balanced E valid P' ?r"
      using i nm cnt s z
      by (auto simp: balanced_def counted_def ring_abs_def P'_def dest: in_diffD)
    then show ?thesis
      using s ignored ud z nm
      by (intro exI [of _ ?r]) (auto simp: ring_handle_entry_def a_entry_def ring_abs_def)
  next
    case (key k)
    then obtain a where a: "?m k = Some a" "expects_more a" by (auto simp: waiting_def)
    have k: "key_from_u64 (cqe_user_data c) = k" and ni: "cqe_user_data c \<noteq> IGNORE_KEY"
      using key ud by simp_all
    obtain s' where s': "cs_notify (env_cq E) (env_sl E) k (from_completion c) (completions r) =
        Inr ((), s', snd (a_notify (env_cq E) (from_completion c) a))"
      "cs_inv (env_sl E) valid s'"
      "cs_abs (env_sl E) s' = ?m(k := fst (a_notify (env_cq E) (from_completion c) a))"
      using notify_refines [OF ci a [unfolded ring_abs_def], of "env_cq E" "from_completion c"]
      by (auto simp: ring_abs_def)
    have w: "waiting (cs_abs (env_sl E) s') = (if ?more then waiting ?m else waiting ?m - {k})"
      unfolding s'(3) by (rule waiting_a_notify [where m = ?m, OF a]) (use q k in simp)
    have pos: "0 < unat (active r)" using key(1) fin act by (metis card_gt_0_iff empty_iff)
    define n where "n = (if ?more then active r else active r - 1)"
    have n: "(if ?more then Inr (active r) else u32_sub (active r) 1) = Inr n"
      using u32_sub_one [OF pos] by (simp add: n_def)
    have nw: "unat n = card (waiting (cs_abs (env_sl E) s'))"
      using u32_sub_one [OF pos] key(1) fin act by (simp add: n_def w)
    let ?r = "r\<lparr>active := n, completions := s'\<rparr>"
    have "image_mset sq_user_data P' = owed (unat (detached r)) (waiting (cs_abs (env_sl E) s'))"
      using img key mem fin by (simp add: w P'_def image_mset_Diff owed_remove)
    moreover have "\<And>e. e \<in># P' \<Longrightarrow> e \<in># P" by (auto simp: P'_def dest: in_diffD split: if_splits)
    ultimately have "balanced E valid P' ?r"
      using i s'(2) nw z det finite_abs [OF s'(2)]
      by (auto simp: balanced_def counted_def)
    then show ?thesis
      using ni n s' a z
      by (intro exI [of _ ?r]) (auto simp: ring_handle_entry_def a_entry_def k ring_abs_def)
  qed
qed

lemma entries_refine:
  assumes "reaped (env_cq E) cs P P'" "balanced E valid P r" "canceled r = 0"
    "quiet (env_cq E) cs (ring_abs E r)"
  shows "\<exists>r'. ring_handle_entries E cs r = Inr (r', snd (a_entries (env_cq E) cs (ring_abs E r))) \<and>
    ring_abs E r' = fst (a_entries (env_cq E) cs (ring_abs E r)) \<and> uring r' = uring r \<and>
    canceled r' = 0 \<and> balanced E valid P' r'"
  using assms
proof (induction cs arbitrary: P r)
  case Nil
  then show ?case by (auto elim: reaped_nilE)
next
  case (Cons c cs)
  let ?m = "ring_abs E r" and ?more = "has_more (env_cq E) (from_completion c)"
  from Cons.prems(1) obtain e where e: "e \<in># P" "cqe_user_data c = sq_user_data e"
    "?more \<Longrightarrow> multishot e" "reaped (env_cq E) cs (if ?more then P else P - {#e#}) P'"
    by (elim reaped_consE) auto
  have "?more \<Longrightarrow> key_from_u64 (cqe_user_data c) \<notin> gone ?m"
    using Cons.prems(4) by (simp add: quiet_def)
  with entry_refines [OF Cons.prems(2,3) e(1,2,3)] obtain r1 where
    r1: "ring_handle_entry E c r = Inr (r1, snd (a_entry (env_cq E) c ?m))"
      "ring_abs E r1 = fst (a_entry (env_cq E) c ?m)" "uring r1 = uring r" "canceled r1 = 0"
      "balanced E valid (if ?more then P else P - {#e#}) r1" by blast
  have "quiet (env_cq E) cs (ring_abs E r1)" using quiet_step [OF Cons.prems(4)] by (simp add: r1)
  from Cons.IH [OF e(4) r1(5,4) this] obtain r2 where
    "ring_handle_entries E cs r1 = Inr (r2, snd (a_entries (env_cq E) cs (ring_abs E r1)))"
    "ring_abs E r2 = fst (a_entries (env_cq E) cs (ring_abs E r1))" "uring r2 = uring r1"
    "canceled r2 = 0" "balanced E valid P' r2" by blast
  then show ?case using r1 by (auto simp: split_beta)
qed

end

end
