(* ===== verification/RingOps.thy ===== *)
theory RingOps
  imports RingSpec
begin

section \<open>Every ring operation keeps the invariant\<close>

text \<open>
  One lemma per operation of \<open>Ring\<close>: which results are possible, that the invariant is kept,
  and the effect on the abstract map \<open>ring_abs\<close> of submitted operations. The counters leave
  their range only past \<open>2 ^ 32 - 1\<close> entries (\<open>roomy\<close>).
\<close>

definition roomy :: "('u, 's) env \<Rightarrow> ('u \<Rightarrow> sqe multiset) \<Rightarrow> ('u, 's) ring \<Rightarrow> bool" where
  "roomy E pending r \<longleftrightarrow>
     sl_len (env_sl E) (slab_of (completions r)) < 2 ^ 32 - 1 \<and> size (pending (uring r)) < 2 ^ 32 - 1"

definition detachable :: "sqe option \<Rightarrow> bool" where
  "detachable eo = (case eo of None \<Rightarrow> True | Some e \<Rightarrow> \<not> multishot e)"

text \<open>
  \<open>calm\<close>: no completion that announces more is for a cancelled operation. Without it a
  cancelled multi-shot operation breaks the accounting.
\<close>

definition calm ::
    "('u, 's) env \<Rightarrow> ('u \<Rightarrow> sqe multiset) \<Rightarrow> ('u \<Rightarrow> bool) \<Rightarrow> ('u, 's) ring \<Rightarrow> bool" where
  "calm E pending uvalid r \<longleftrightarrow> (\<forall>u u' cs. uvalid u \<longrightarrow> pending u = pending (uring r) \<longrightarrow>
     ur_completion (env_ur E) u = (cs, u') \<longrightarrow> quiet (env_cq E) cs (ring_abs E r))"

text \<open>The pending entries submitted under a key.\<close>

definition entries_of :: "('u \<Rightarrow> sqe multiset) \<Rightarrow> ('u, 's) ring \<Rightarrow> key \<Rightarrow> sqe multiset" where
  "entries_of pending r k = filter_mset (\<lambda>e. sq_user_data e = key_as_u64 k) (pending (uring r))"

lemma entries_of_ignored [simp]:
  "pending (uring r') = add_mset (sqe_with_user_data IGNORE_KEY e) (pending (uring r)) \<Longrightarrow>
    entries_of pending r' k = entries_of pending r k"
  using key_not_ignored [of k, symmetric] by (simp add: entries_of_def)

lemma unat_one_u32 [simp]: "unat (1 :: u32) = 1"
  by simp

lemma unat_Suc_u32: "unat (a :: u32) < 2 ^ 32 - 1 \<Longrightarrow> u32_add a 1 = Inr (a + 1) \<and> unat (a + 1) = Suc (unat a)"
  by (simp add: u32_add_def unat_u32_add)

context ring_env
begin

lemma inv_parts:
  assumes "ring_inv E valid pending uvalid r"
  shows "uvalid (uring r)" "cs_inv (env_sl E) valid (completions r)"
    "counted (pending (uring r)) r (ring_abs E r)"
    "sr_inv (direct_files r)" "sr_inv (fixed_buffers r)" "sr_inv (buffer_groups r)"
  using assms by (simp_all add: ring_inv_def balanced_def ring_abs_def)

lemma invI:
  assumes "uvalid (uring r)" "cs_inv (env_sl E) valid (completions r)"
    "counted (pending (uring r)) r (ring_abs E r)"
    "sr_inv (direct_files r)" "sr_inv (fixed_buffers r)" "sr_inv (buffer_groups r)"
  shows "ring_inv E valid pending uvalid r"
  using assms by (simp add: ring_inv_def balanced_def ring_abs_def)

lemma room_counters:
  assumes "ring_inv E valid pending uvalid r" "roomy E pending r"
  shows "unat (active r) < 2 ^ 32 - 1" "unat (detached r) < 2 ^ 32 - 1"
    "unat (canceled r) < 2 ^ 32 - 1" "unat (active r) + unat (detached r) < 2 ^ 32"
proof -
  have c: "counted (pending (uring r)) r (ring_abs E r)" using inv_parts [OF assms(1)] by simp
  have "unat (active r) + unat (detached r) < 2 ^ 32 - 1"
    using counted_pending_size [OF c] assms(2) by (simp add: roomy_def)
  then show "unat (active r) < 2 ^ 32 - 1" "unat (detached r) < 2 ^ 32 - 1"
    "unat (canceled r) < 2 ^ 32 - 1" "unat (active r) + unat (detached r) < 2 ^ 32"
    using c by (auto simp: counted_def)
qed

lemma submit_sound:
  assumes i: "ring_inv E valid pending uvalid r" and room: "roomy E pending r"
  shows "ring_submit E entry w r = Inl SubmissionQueueFull \<or>
    (\<exists>k r'. ring_submit E entry w r = Inr (k, r') \<and> ring_inv E valid pending uvalid r' \<and>
      ring_abs E r k = None \<and> ring_abs E r' = (ring_abs E r)(k \<mapsto> Live (Some w) []) \<and>
      pending (uring r') = add_mset (sqe_with_user_data (key_as_u64 k) entry) (pending (uring r)))"
proof -
  obtain k cs' where ins: "cs_insert (env_sl E) w (completions r) = (k, cs')" by fastforce
  have len: "sl_len (env_sl E) (slab_of (completions r)) < 2 ^ 32" using room by (simp add: roomy_def)
  from insert_refines [OF inv_parts(2) [OF i] len ins]
  have cs': "cs_inv (env_sl E) valid cs'" and fresh: "ring_abs E r k = None"
    and am: "cs_abs (env_sl E) cs' = (ring_abs E r)(k \<mapsto> Live (Some w) [])"
    by (simp_all add: ring_abs_def)
  let ?e = "sqe_with_user_data (key_as_u64 k) entry"
  show ?thesis
  proof (cases "ur_push (env_ur E) ?e (uring r)")
    case None
    then show ?thesis by (simp add: ring_submit_def ins ring_push_def)
  next
    case (Some u)
    note p = push_pending [OF inv_parts(1) [OF i] Some]
    note a = unat_Suc_u32 [OF room_counters(1) [OF i room]]
    let ?r = "r\<lparr>uring := u, completions := cs', active := active r + 1\<rparr>"
    have nw: "k \<notin> waiting (ring_abs E r)" using fresh by (simp add: waiting_def)
    have c: "counted (pending (uring r)) r (ring_abs E r)" using inv_parts(3) [OF i] .
    then have fin: "finite (waiting (ring_abs E r))" by (simp add: counted_def finite_waiting)
    have w: "waiting (cs_abs (env_sl E) cs') = insert k (waiting (ring_abs E r))"
      by (simp add: am waiting_update expects_more_def)
    have g: "gone (cs_abs (env_sl E) cs') = gone (ring_abs E r)"
      using fresh by (auto simp: am gone_def)
    have "counted (pending (uring ?r)) ?r (ring_abs E ?r)"
      using c p a nw fin w g finite_abs [OF cs'] by (auto simp: counted_def ring_abs_def owed_insert)
    then have "ring_inv E valid pending uvalid ?r"
      using inv_parts [OF i] p cs' by (intro invI) simp_all
    moreover have "ring_submit E entry w r = Inr (k, ?r)"
      using a by (simp add: ring_submit_def ins ring_push_def Some)
    ultimately show ?thesis using fresh am p by (auto simp: ring_abs_def)
  qed
qed

lemma detached_sound:
  assumes i: "ring_inv E valid pending uvalid r" and room: "roomy E pending r" and m: "\<not> multishot entry"
  shows "ring_submit_detached E entry r = Inl SubmissionQueueFull \<or>
    (\<exists>r'. ring_submit_detached E entry r = Inr r' \<and> ring_inv E valid pending uvalid r' \<and>
      ring_abs E r' = ring_abs E r \<and>
      pending (uring r') = add_mset (sqe_with_user_data IGNORE_KEY entry) (pending (uring r)))"
proof (cases "ur_push (env_ur E) (sqe_with_user_data IGNORE_KEY entry) (uring r)")
  case None
  then show ?thesis by (simp add: ring_submit_detached_def ring_push_def)
next
  case (Some u)
  note p = push_pending [OF inv_parts(1) [OF i] Some]
  note a = unat_Suc_u32 [OF room_counters(2) [OF i room]]
  let ?r = "r\<lparr>uring := u, detached := detached r + 1\<rparr>"
  have "counted (pending (uring ?r)) ?r (ring_abs E ?r)"
    using inv_parts(3) [OF i] p a m by (auto simp: counted_def ring_abs_def owed_Suc)
  then have "ring_inv E valid pending uvalid ?r"
    using inv_parts [OF i] p by (intro invI) simp_all
  then show ?thesis using a p by (auto simp: ring_submit_detached_def ring_push_def Some ring_abs_def)
qed

lemma waiting_cancel:
  assumes "m k = Some (Live wo rs)"
  shows "waiting (m(k := fst (snd (a_cancel d (Live wo rs))))) = waiting m"
    and "fst (a_cancel d (Live wo rs)) \<Longrightarrow>
      gone (m(k := fst (snd (a_cancel d (Live wo rs))))) = insert k (gone m)"
    and "\<not> fst (a_cancel d (Live wo rs)) \<Longrightarrow>
      gone (m(k := fst (snd (a_cancel d (Live wo rs))))) = gone m"
    and "k \<notin> gone m"
  using assms by (auto simp: Let_def waiting_def gone_def expects_more_def split: if_splits)

lemma cancel_sound:
  assumes i: "ring_inv E valid pending uvalid r" and room: "roomy E pending r"
    and m: "detachable entry" and k: "ring_abs E r k = Some (Live wo rs)"
  shows "ring_cancel E k entry d r = Inl SubmissionQueueFull \<or>
    (\<exists>r'. ring_cancel E k entry d r = Inr (r', snd (snd (a_cancel d (Live wo rs)))) \<and>
      ring_inv E valid pending uvalid r' \<and>
      ring_abs E r' = (ring_abs E r)(k := fst (snd (a_cancel d (Live wo rs)))) \<and>
      entries_of pending r' = entries_of pending r)"
proof -
  let ?m = "ring_abs E r"
  obtain fl a' ev where a: "a_cancel d (Live wo rs) = (fl, a', ev)"
    by (cases "a_cancel d (Live wo rs)") auto
  note ip = inv_parts [OF i]
  obtain s' where s': "cs_cancel (env_sl E) k d (completions r) = Inr (fl, s', ev)"
    "cs_inv (env_sl E) valid s'" "cs_abs (env_sl E) s' = ?m(k := a')"
    using cancel_refines [OF ip(2) k [unfolded ring_abs_def], of d]
    unfolding a ring_abs_def by auto
  note wc = waiting_cancel(1-3) [where m = ?m and d = d, OF k, unfolded a fst_conv snd_conv, folded s'(3)]
  note nk = waiting_cancel(4) [where m = ?m, OF k]
  have fin: "finite (gone ?m)" "finite (dom (cs_abs (env_sl E) s'))"
    using ip(3) finite_abs [OF s'(2)]
    by (auto simp: counted_def intro: finite_subset [OF gone_waiting] finite_waiting)
  have le: "card (gone ?m) \<le> card (gone (cs_abs (env_sl E) s'))"
    using wc fin by (cases fl) (simp_all add: card_insert_le)
  let ?r1 = "r\<lparr>completions := s'\<rparr>"
  have a_simps: "fst (snd (a_cancel d (Live wo rs))) = a'" "snd (snd (a_cancel d (Live wo rs))) = ev"
    by (simp_all only: a fst_conv snd_conv)
  have i1: "ring_inv E valid pending uvalid ?r1"
    using ip s' wc(1) le fin by (intro invI) (auto simp: counted_def ring_abs_def)
  show ?thesis
  proof (cases "fl \<and> entry \<noteq> None")
    case False
    then have "ring_cancel E k entry d r = Inr (?r1, ev)"
      by (auto simp: ring_cancel_def s' Let_def)
    then show ?thesis using i1 s'(3) unfolding a_simps by (auto simp: ring_abs_def entries_of_def)
  next
    case True
    then obtain e where e: "entry = Some e" by blast
    let ?e = "sqe_with_user_data IGNORE_KEY e"
    show ?thesis
    proof (cases "ur_push (env_ur E) ?e (uring r)")
      case None
      then show ?thesis using True by (simp add: ring_cancel_def s' e ring_push_def)
    next
      case (Some u)
      note p = push_pending [OF ip(1) Some]
      note d1 = unat_Suc_u32 [OF room_counters(2) [OF i room]]
      note c1 = unat_Suc_u32 [OF room_counters(3) [OF i room]]
      let ?r = "r\<lparr>uring := u, completions := s', detached := detached r + 1, canceled := canceled r + 1\<rparr>"
      have "card (gone (cs_abs (env_sl E) s')) = Suc (card (gone ?m))"
        using wc(2) nk True fin by simp
      then have "counted (pending (uring ?r)) ?r (ring_abs E ?r)"
        using ip(3) p d1 c1 m wc(1) fin e
        by (auto simp: counted_def ring_abs_def owed_Suc detachable_def)
      then have "ring_inv E valid pending uvalid ?r"
        using ip p s' by (intro invI) simp_all
      moreover have "ring_cancel E k entry d r = Inr (?r, ev)"
        using True d1 c1 by (simp add: ring_cancel_def s' e ring_push_def Some)
      moreover have "entries_of pending ?r = entries_of pending r"
        using p by (intro ext entries_of_ignored) simp
      ultimately show ?thesis using s'(3) unfolding a_simps by (auto simp: ring_abs_def)
    qed
  qed
qed

lemma check_sound:
  assumes i: "ring_inv E valid pending uvalid r" and k: "ring_abs E r k = Some a"
  shows "\<exists>r'. ring_check_result E k r = Inr (fst (a_result a), r') \<and>
    ring_inv E valid pending uvalid r' \<and> ring_abs E r' = (ring_abs E r)(k := snd (a_result a)) \<and>
    uring r' = uring r"
proof -
  let ?m = "ring_abs E r"
  note ip = inv_parts [OF i]
  obtain s' where s': "cs_result (env_sl E) k (completions r) = Inr (fst (a_result a), s', [])"
    "cs_inv (env_sl E) valid s'" "cs_abs (env_sl E) s' = ?m(k := snd (a_result a))"
    using result_refines [OF ip(2) k [unfolded ring_abs_def]] by (auto simp: ring_abs_def)
  have "waiting (?m(k := snd (a_result a))) = waiting ?m" "gone (?m(k := snd (a_result a))) = gone ?m"
    using k by (cases a rule: a_result.cases; auto simp: waiting_def gone_def expects_more_def)+
  then have "ring_inv E valid pending uvalid (r\<lparr>completions := s'\<rparr>)"
    using ip s' finite_abs [OF s'(2)] by (intro invI) (auto simp: counted_def ring_abs_def)
  then show ?thesis using s' by (auto simp: ring_check_result_def ring_abs_def)
qed

lemma submit_and_wait_sound:
  assumes i: "ring_inv E valid pending uvalid r" and room: "roomy E pending r"
  shows "ring_submit_and_wait E r = Inl WaitFailed \<or>
    (\<exists>r'. ring_submit_and_wait E r = Inr r' \<and> ring_inv E valid pending uvalid r' \<and>
      ring_abs E r' = ring_abs E r \<and> pending (uring r') = pending (uring r) \<and> canceled r' = 0)"
proof -
  note ip = inv_parts [OF i] and rc = room_counters [OF i room]
  have n: "unat (active r + detached r) = unat (active r) + unat (detached r)"
    using unat_u32_add [OF rc(4)] .
  have c: "unat (canceled r) \<le> unat (detached r)" "unat (canceled r) \<le> unat (active r)"
    using ip(3) card_gone [of "ring_abs E r"] by (auto simp: counted_def)
  show ?thesis
  proof (cases "active r + detached r = 0")
    case True
    then have "canceled r = 0" using n c by (metis add_is_0 le_zero_eq unat_eq_zero)
    then show ?thesis using True i rc(4) by (simp add: ring_submit_and_wait_def)
  next
    case False
    then have "0 < unat (active r) + unat (detached r)" using n by (metis unat_gt_0)
    from want_bound [OF c rc(4) this] obtain w where w: "ring_want r = Inr w" by blast
    show ?thesis
    proof (cases "ur_submit_and_wait (env_ur E) (unat w) (uring r)")
      case None
      then show ?thesis using False rc(4) w by (simp add: ring_submit_and_wait_def)
    next
      case (Some u)
      note p = wait_pending [OF ip(1) Some]
      let ?r = "r\<lparr>uring := u, canceled := 0\<rparr>"
      have "ring_inv E valid pending uvalid ?r"
        using ip p by (intro invI) (auto simp: counted_def ring_abs_def)
      then show ?thesis
        using False rc(4) w Some p by (simp add: ring_submit_and_wait_def ring_abs_def)
    qed
  qed
qed

lemma wait_sound:
  assumes i: "ring_inv E valid pending uvalid r" and room: "roomy E pending r" and calm: "calm E pending uvalid r"
  shows "ring_wait E r = Inl WaitFailed \<or>
    (\<exists>r' cs. ring_wait E r = Inr (r', snd (a_entries (env_cq E) cs (ring_abs E r))) \<and>
      ring_inv E valid pending uvalid r' \<and>
      ring_abs E r' = fst (a_entries (env_cq E) cs (ring_abs E r)) \<and>
      reaped (env_cq E) cs (pending (uring r)) (pending (uring r')))"
proof -
  consider "ring_submit_and_wait E r = Inl WaitFailed"
    | r1 where "ring_submit_and_wait E r = Inr r1" "ring_inv E valid pending uvalid r1"
      "ring_abs E r1 = ring_abs E r" "pending (uring r1) = pending (uring r)" "canceled r1 = 0"
    using submit_and_wait_sound [OF i room] by blast
  then show ?thesis
  proof cases
    case 1
    then show ?thesis by (simp add: ring_wait_def)
  next
    case 2
    obtain cs u where c: "ur_completion (env_ur E) (uring r1) = (cs, u)" by fastforce
    note p = completion_reaped [OF inv_parts(1) [OF 2(2)] c]
    have q: "quiet (env_cq E) cs (ring_abs E r)"
      using calm inv_parts(1) [OF 2(2)] 2(4) c by (auto simp: calm_def)
    have b: "balanced E valid (pending (uring r1)) (r1\<lparr>uring := u\<rparr>)"
      using 2(2) by (simp add: ring_inv_def balanced_def counted_def)
    have "ring_abs E (r1\<lparr>uring := u\<rparr>) = ring_abs E r" using 2(3) by (simp add: ring_abs_def)
    then obtain r2 where
      r2: "ring_handle_entries E cs (r1\<lparr>uring := u\<rparr>) = Inr (r2, snd (a_entries (env_cq E) cs (ring_abs E r)))"
        "ring_abs E r2 = fst (a_entries (env_cq E) cs (ring_abs E r))" "uring r2 = u"
        "balanced E valid (pending u) r2"
      using entries_refine [of cs "pending (uring r1)" "pending u" "r1\<lparr>uring := u\<rparr>"] p b q 2(5)
      by auto
    then have "ring_inv E valid pending uvalid r2" using p by (simp add: ring_inv_def)
    moreover have "ring_wait E r = Inr (r2, snd (a_entries (env_cq E) cs (ring_abs E r)))"
      using 2(1) c r2(1) by (simp add: ring_wait_def ring_handle_completions_def)
    ultimately show ?thesis using r2 p 2(4) by auto
  qed
qed

lemma is_done_iff:
  assumes i: "ring_inv E valid pending uvalid r" and room: "roomy E pending r"
  shows "\<exists>b. ring_is_done E r = Inr b \<and>
    (b \<longleftrightarrow> pending (uring r) = {#} \<and> ring_abs E r = Map.empty \<and>
      sr_live wrap_direct_slot (direct_files r) = {} \<and> sr_live wrap_buffer_slot (fixed_buffers r) = {} \<and>
      sr_live wrap_buffer_group_id (buffer_groups r) = {})"
proof -
  note ip = inv_parts [OF i] and rc = room_counters [OF i room]
  have "size (pending (uring r)) = unat (active r) + unat (detached r)"
    using ip(3) by (rule counted_pending_size)
  moreover have "unat (active r + detached r) = unat (active r) + unat (detached r)"
    using unat_u32_add [OF rc(4)] .
  ultimately have z: "active r + detached r = 0 \<longleftrightarrow> pending (uring r) = {#}"
    by (metis unat_eq_zero size_eq_0_iff_empty)
  show ?thesis
    using rc(4) by (simp add: ring_is_done_def z is_empty_refines [OF ip(2)] ring_abs_def
        sr_is_full_live [OF ip(4), where W = wrap_direct_slot]
        sr_is_full_live [OF ip(5), where W = wrap_buffer_slot]
        sr_is_full_live [OF ip(6), where W = wrap_buffer_group_id])
qed

lemma new_ring_inv:
  assumes "uvalid u" "pending u = {#}"
  shows "ring_inv E valid pending uvalid (new_ring E opts u) \<and> ring_abs E (new_ring E opts u) = Map.empty"
proof -
  note w = with_capacity_refines [of "unat (opt_submissions opts)"]
  have "ring_abs E (new_ring E opts u) = Map.empty" using w by (simp add: new_ring_def ring_abs_def)
  moreover from this have "counted {#} (new_ring E opts u) (ring_abs E (new_ring E opts u))"
    by (simp add: counted_def new_ring_def waiting_def owed_def)
  ultimately show ?thesis
    using w assms by (auto intro!: invI simp: new_ring_def sr_inv_new)
qed

lemma build_sound:
  assumes "ring_build E os opts st = (Inr r, st')"
  shows "ring_inv E valid pending uvalid r \<and> ring_abs E r = Map.empty \<and> pending (uring r) = {#}"
proof -
  let ?ok = "\<lambda>u. uvalid u \<and> pending u = {#}" and ?ur = "env_ur E"
  let ?auto = "opt_auto_direct_files opts" and ?manual = "opt_manual_direct_files opts"
  obtain u0 u1 n u2 u4 where
    b0: "ur_build ?ur (opt_submissions opts) = Some u0" and
    b1: "(if opt_fixed_buffers opts > 0
       then expectR BuildFailed (ur_register_buffers_sparse ?ur (opt_fixed_buffers opts) u0) else Inr u0) = Inr u1" and
    b2: "(if n > 0 then expectR BuildFailed (ur_register_files_sparse ?ur n u1) else Inr u1) = Inr u2" and
    b4: "(if ?auto > 0
       then bindR (expectR BuildFailed (ur_register_file_alloc_range ?ur ?manual ?auto u2)) (\<lambda>u3.
         if ?manual > 0 then expectR BuildFailed (ur_register_files_update ?ur 0 (replicate (unat ?manual) 0) u3)
         else Inr u3)
       else Inr u2) = Inr u4" and
    r: "r = new_ring E opts u4"
    using assms by (simp only: ring_build_def Let_def bindR_Inr_iff expectR_Inr_iff prod.case_eq_if
        prod.inject sum.inject) blast
  have "?ok u0" using build_pending [OF b0] .
  then have "?ok u1" using b1 sparse_pending [of u0 _ u1] by (auto simp: expectR_Inr_iff split: if_splits)
  then have "?ok u2" using b2 files_pending [of u1 n u2] by (auto simp: expectR_Inr_iff split: if_splits)
  moreover have "?ok u4" if pos: "?auto > 0" and ok2: "?ok u2"
  proof -
    obtain u3 where u3: "ur_register_file_alloc_range ?ur ?manual ?auto u2 = Some u3"
      "(if ?manual > 0 then expectR BuildFailed (ur_register_files_update ?ur 0 (replicate (unat ?manual) 0) u3)
        else Inr u3) = Inr u4"
      using b4 pos by (simp only: if_True bindR_Inr_iff expectR_Inr_iff) blast
    have "?ok u3" using range_pending [OF _ u3(1)] ok2 by simp
    then show ?thesis using u3(2) update_pending [of u3 _ _ u4] by (auto simp: expectR_Inr_iff split: if_splits)
  qed
  ultimately have "?ok u4" using b4 by (cases "?auto > 0") auto
  then show ?thesis using new_ring_inv [of u4 opts] r by (simp add: new_ring_def)
qed

end

end
