(* ===== verification/Reactor.thy ===== *)
theory Reactor
  imports RingOps
begin

section \<open>Access to the ring (inel/src/lib.rs, GlobalReactor; inel-reactor/src/reactor.rs)\<close>

text \<open>
  Operations reach the ring through \<open>Reactor::with\<close>. \<open>GlobalReactor\<close> keeps the ring in a
  thread-local \<open>RefCell\<close>: \<open>cell\<close> is its state, destroyed with the thread, borrowed, or
  ready with the ring. \<open>with_ring\<close> is \<open>GlobalReactor::with\<close>; the functions of the trait
  \<open>RingReactor\<close> follow, each with the \<open>unwrap\<close> or the ignored \<open>None\<close> of the code.
\<close>

datatype 'h cell = Destroyed | Borrowed | Ready 'h

definition with_ring :: "('h \<Rightarrow> panic + ('a \<times> 'h)) \<Rightarrow> 'h cell \<Rightarrow> panic + ('a option \<times> 'h cell)" where
  "with_ring f c =
     (case c of
        Destroyed \<Rightarrow> Inr (None, Destroyed)
      | Borrowed \<Rightarrow> Inl ReactorBusy
      | Ready r \<Rightarrow> mapR (\<lambda>(x, r'). (Some x, Ready r')) (f r))"

definition reactor_wait :: "('u, 's) env \<Rightarrow> ('u, 's) ring cell \<Rightarrow> panic + (event list \<times> ('u, 's) ring cell)" where
  "reactor_wait E c =
     (case c of
        Destroyed \<Rightarrow> Inl ReactorBusy
      | Borrowed \<Rightarrow> Inl ReactorBusy
      | Ready r \<Rightarrow> mapR (\<lambda>(r', ev). (ev, Ready r')) (ring_wait E r))"

definition unwrapR :: "panic + ('a option \<times> 'c) \<Rightarrow> panic + ('a \<times> 'c)" where
  "unwrapR m = bindR m (\<lambda>(xo, c). case xo of Some x \<Rightarrow> Inr (x, c) | None \<Rightarrow> Inl UnwrapNone)"

lemma with_ring_Ready [simp]: "with_ring f (Ready r) = mapR (\<lambda>(x, r'). (Some x, Ready r')) (f r)"
  by (simp add: with_ring_def)

lemma unwrapR_simps [simp]:
  "unwrapR (Inl p) = Inl p" "unwrapR (Inr (Some x, c)) = Inr (x, c)" "unwrapR (Inr (None, c)) = Inl UnwrapNone"
  by (simp_all add: unwrapR_def)

subsection \<open>RingReactor\<close>

definition reactor_submit ::
    "('u, 's) env \<Rightarrow> sqe \<Rightarrow> waker \<Rightarrow> ('u, 's) ring cell \<Rightarrow> panic + (key \<times> ('u, 's) ring cell)" where
  "reactor_submit E entry waker c = unwrapR (with_ring (ring_submit E entry waker) c)"

definition reactor_submit_detached ::
    "('u, 's) env \<Rightarrow> sqe \<Rightarrow> ('u, 's) ring cell \<Rightarrow> panic + ('u, 's) ring cell" where
  "reactor_submit_detached E entry c =
     mapR snd (with_ring (\<lambda>r. mapR (\<lambda>r'. ((), r')) (ring_submit_detached E entry r)) c)"

definition reactor_cancel ::
    "('u, 's) env \<Rightarrow> key \<Rightarrow> sqe option \<Rightarrow> cancellation \<Rightarrow> ('u, 's) ring cell \<Rightarrow>
      panic + (event list \<times> ('u, 's) ring cell)" where
  "reactor_cancel E key entry cancel c =
     mapR (\<lambda>(ev, c'). (case ev of Some es \<Rightarrow> es | None \<Rightarrow> [], c'))
       (with_ring (\<lambda>r. mapR (\<lambda>(r', ev). (ev, r')) (ring_cancel E key entry cancel r)) c)"

definition reactor_check_result ::
    "('u, 's) env \<Rightarrow> key \<Rightarrow> ('u, 's) ring cell \<Rightarrow> panic + (ring_result option \<times> ('u, 's) ring cell)" where
  "reactor_check_result E key c = unwrapR (with_ring (ring_check_result E key) c)"

definition reactor_register_buffer ::
    "('u, 's) env \<Rightarrow> 'b stable_buffer \<Rightarrow> 'b \<Rightarrow> ('u, 's) ring cell \<Rightarrow>
      panic + ((io_error + buffer_slot) \<times> ('u, 's) ring cell)" where
  "reactor_register_buffer E D buffer c =
     unwrapR (with_ring (\<lambda>r. Inr (ring_register_buffer E D buffer r)) c)"

definition reactor_unregister_buffer :: "buffer_slot \<Rightarrow> ('u, 's) ring cell \<Rightarrow> panic + ('u, 's) ring cell" where
  "reactor_unregister_buffer slot c =
     mapR snd (with_ring (\<lambda>r. Inr ((), ring_unregister_buffer slot r)) c)"

definition reactor_get_direct_slot ::
    "('u, 's) ring cell \<Rightarrow> panic + ((io_error + direct_slot) \<times> ('u, 's) ring cell)" where
  "reactor_get_direct_slot c = unwrapR (with_ring (\<lambda>r. Inr (ring_get_direct_slot r)) c)"

definition reactor_release_direct_slot :: "direct_slot \<Rightarrow> ('u, 's) ring cell \<Rightarrow> panic + ('u, 's) ring cell" where
  "reactor_release_direct_slot slot c =
     mapR snd (with_ring (\<lambda>r. Inr ((), ring_release_direct_slot slot r)) c)"

definition reactor_get_buffer_group ::
    "('u, 's) ring cell \<Rightarrow> panic + ((io_error + buffer_group_id) \<times> ('u, 's) ring cell)" where
  "reactor_get_buffer_group c = unwrapR (with_ring (\<lambda>r. Inr (ring_get_buffer_group r)) c)"

definition reactor_release_buffer_group ::
    "buffer_group_id \<Rightarrow> ('u, 's) ring cell \<Rightarrow> panic + ('u, 's) ring cell" where
  "reactor_release_buffer_group slot c =
     mapR snd (with_ring (\<lambda>r. Inr ((), ring_release_buffer_group slot r)) c)"

subsection \<open>Starting and stopping (inel/src/lib.rs)\<close>

definition inel_init ::
    "('u, 's) env \<Rightarrow> 'o os_ops \<Rightarrow> ring_options \<Rightarrow> ('u, 's) ring cell \<times> 'o \<Rightarrow>
      panic + (('u, 's) ring cell \<times> 'o)" where
  "inel_init E os opts s =
     (case fst s of
        Ready r \<Rightarrow>
          bindR (ring_is_done E r) (\<lambda>idle.
          if \<not> idle then Inl ReactorBusy
          else (case ring_build E os opts (snd s) of
                  (Inl p, _) \<Rightarrow> Inl p
                | (Inr r', o') \<Rightarrow> Inr (Ready r', o')))
      | _ \<Rightarrow> Inl ReactorBusy)"

definition inel_is_done :: "('u, 's) env \<Rightarrow> ('u, 's) ring cell \<Rightarrow> panic + bool" where
  "inel_is_done E c = (case c of Ready r \<Rightarrow> ring_is_done E r | _ \<Rightarrow> Inl ReactorBusy)"

lemmas reactor_defs = reactor_submit_def reactor_submit_detached_def reactor_cancel_def
  reactor_check_result_def reactor_register_buffer_def reactor_unregister_buffer_def
  reactor_get_direct_slot_def reactor_release_direct_slot_def reactor_get_buffer_group_def
  reactor_release_buffer_group_def

subsection \<open>Slots through the reactor\<close>

lemma get_direct_slot_Ready:
  "reactor_get_direct_slot (Ready r) = Inr (fst (ring_get_direct_slot r), Ready (snd (ring_get_direct_slot r)))"
  by (simp add: reactor_get_direct_slot_def split_beta)

lemma register_buffer_Ready:
  "reactor_register_buffer E D b (Ready r) =
    Inr (fst (ring_register_buffer E D b r), Ready (snd (ring_register_buffer E D b r)))"
  by (simp add: reactor_register_buffer_def split_beta)

lemma get_buffer_group_Ready:
  "reactor_get_buffer_group (Ready r) = Inr (fst (ring_get_buffer_group r), Ready (snd (ring_get_buffer_group r)))"
  by (simp add: reactor_get_buffer_group_def split_beta)

context ring_env
begin

lemma register_buffer_inv:
  assumes i: "ring_inv E valid pending uvalid r"
  shows "ring_inv E valid pending uvalid (snd (ring_register_buffer E D b r)) \<and>
    ring_abs E (snd (ring_register_buffer E D b r)) = ring_abs E r"
proof -
  note ip = inv_parts [OF i]
  show ?thesis
  proof (cases "sr_get wrap_buffer_slot (fixed_buffers r)")
    case None
    then show ?thesis using i by (simp add: ring_register_buffer_def)
  next
    case (Some p)
    then obtain slot sr' where p: "sr_get wrap_buffer_slot (fixed_buffers r) = Some (slot, sr')" by (cases p) auto
    have sr': "sr_inv sr'" using buffer_pool.pool.get_Some [OF ip(5) p] by simp
    then show ?thesis
      using ip buffers_pending [OF ip(1), of "buffer_slot_index slot" "[(sb_ptr D b, sb_size D b)]"]
      by (auto simp: ring_register_buffer_def p Let_def counted_def ring_abs_def intro!: invI split: sum.splits)
  qed
qed

lemma get_direct_slot_inv:
  assumes i: "ring_inv E valid pending uvalid r"
  shows "ring_inv E valid pending uvalid (snd (ring_get_direct_slot r)) \<and>
    ring_abs E (snd (ring_get_direct_slot r)) = ring_abs E r"
  using inv_parts [OF i] direct_pool.pool.get_Some [of "direct_files r"]
  by (auto simp: ring_get_direct_slot_def counted_def ring_abs_def intro!: invI split: option.splits)

lemma get_buffer_group_inv:
  assumes i: "ring_inv E valid pending uvalid r"
  shows "ring_inv E valid pending uvalid (snd (ring_get_buffer_group r)) \<and>
    ring_abs E (snd (ring_get_buffer_group r)) = ring_abs E r"
  using inv_parts [OF i] group_pool.pool.get_Some [of "buffer_groups r"]
  by (auto simp: ring_get_buffer_group_def counted_def ring_abs_def intro!: invI split: option.splits)

lemma release_inv:
  assumes i: "ring_inv E valid pending uvalid r"
  shows "ds \<in> sr_live wrap_direct_slot (direct_files r) \<Longrightarrow>
      ring_inv E valid pending uvalid (ring_release_direct_slot ds r)"
    and "bs \<in> sr_live wrap_buffer_slot (fixed_buffers r) \<Longrightarrow>
      ring_inv E valid pending uvalid (ring_unregister_buffer bs r)"
    and "bg \<in> sr_live wrap_buffer_group_id (buffer_groups r) \<Longrightarrow>
      ring_inv E valid pending uvalid (ring_release_buffer_group bg r)"
  using inv_parts [OF i] direct_pool.pool.put_live [of "direct_files r" ds]
    buffer_pool.pool.put_live [of "fixed_buffers r" bs] group_pool.pool.put_live [of "buffer_groups r" bg]
  by (auto simp: ring_release_direct_slot_def ring_unregister_buffer_def ring_release_buffer_group_def
      counted_def ring_abs_def intro!: invI)

end

end
