(* ===== verification/Source.thy ===== *)
theory Source
  imports Reactor
begin

section \<open>Sources and direct descriptors (source.rs, ring/register.rs)\<close>

text \<open>
  A \<open>Source\<close> is what an operation acts on, a file descriptor or a slot of the ring's file
  table. The traits \<open>AsSource\<close> and \<open>AsDirectSlot\<close> are the functions \<open>as_source_*\<close> and
  \<open>as_slot_*\<close>, passed to the operations' constructors. \<open>DestinationSlot\<close> belongs to the
  \<open>io_uring\<close> crate; its fallible constructor is the parameter \<open>try_slot\<close>, which says for
  which indices it succeeds.
\<close>

datatype source = Source target

definition source_fd :: "i32 \<Rightarrow> source" where
  "source_fd fd = Source (TFd fd)"

definition source_fixed :: "u32 \<Rightarrow> source" where
  "source_fixed slot = Source (TFixed slot)"

definition source_as_raw :: "source \<Rightarrow> target" where
  "source_as_raw s = (case s of Source t \<Rightarrow> t)"

record direct_fd =
  dfd_slot :: direct_slot

record direct_auto_fd =
  dafd_slot :: direct_slot

definition direct_fd_get :: "('u, 's) ring cell \<Rightarrow> panic + ((io_error + direct_fd) \<times> ('u, 's) ring cell)" where
  "direct_fd_get c =
     mapR (\<lambda>(res, c'). (mapR (\<lambda>slot. \<lparr>dfd_slot = slot\<rparr>) res, c')) (reactor_get_direct_slot c)"

definition direct_fd_release :: "direct_fd \<Rightarrow> ('u, 's) ring cell \<Rightarrow> panic + ('u, 's) ring cell" where
  "direct_fd_release d c = reactor_release_direct_slot (dfd_slot d) c"

definition direct_auto_from_raw :: "u32 \<Rightarrow> direct_auto_fd" where
  "direct_auto_from_raw slot = \<lparr>dafd_slot = direct_slot_from_raw slot\<rparr>"

definition as_source_source :: "source \<Rightarrow> source" where
  "as_source_source s = s"

definition as_source_fd :: "i32 \<Rightarrow> source" where
  "as_source_fd fd = source_fd fd"

definition as_source_direct :: "direct_fd \<Rightarrow> source" where
  "as_source_direct d = source_fixed (direct_slot_index (dfd_slot d))"

definition as_source_auto :: "direct_auto_fd \<Rightarrow> source" where
  "as_source_auto d = source_fixed (direct_slot_index (dafd_slot d))"

definition as_slot_direct :: "direct_fd \<Rightarrow> direct_slot" where
  "as_slot_direct d = dfd_slot d"

definition as_slot_auto :: "direct_auto_fd \<Rightarrow> direct_slot" where
  "as_slot_auto d = dafd_slot d"

definition as_destination_slot :: "(u32 \<Rightarrow> bool) \<Rightarrow> direct_slot \<Rightarrow> panic + dest_slot" where
  "as_destination_slot try_slot s =
     (if try_slot (direct_slot_index s) then Inr (SlotTarget (direct_slot_index s)) else Inl UnwrapErr)"

lemma direct_slot_index_from_raw [simp]: "direct_slot_index (direct_slot_from_raw n) = n"
  by (simp add: direct_slot_index_def direct_slot_from_raw_def wrap_direct_slot_def)

lemma auto_source [simp]: "source_as_raw (as_source_auto (direct_auto_from_raw n)) = TFixed n"
  by (simp add: source_as_raw_def as_source_auto_def source_fixed_def direct_auto_from_raw_def)

end
