(* ===== verification/Op.thy ===== *)
theory Op
  imports Source
begin

section \<open>Operations (op/mod.rs)\<close>

text \<open>
  The trait \<open>Op\<close> is the record \<open>op_ops\<close>: \<open>op_entry this op w\<close> builds the entry of the
  operation stored at the address \<open>this\<close>, \<open>op_result\<close> and \<open>op_cancel\<close> consume it, and
  \<open>op_drop\<close> is its destructor. \<open>'w\<close> is the state an operation shares with others (buffer
  groups behind an \<open>Rc\<close>); operations that share nothing are built with \<open>pure_op\<close>, for any
  \<open>'w\<close>. \<open>op_cancel\<close> returns the cancellation and the frees of the fields it does not take
  along. \<open>MultiOp\<close> adds \<open>op_next\<close>.

  The safety comment on the trait is the locale \<open>live_op\<close>: what the entry points to is
  neither part of the operation's own storage nor freed when the operation is cancelled.
  \<open>safe_op\<close> adds that the cancellation and the fields dropped free exactly what the
  destructor frees, and \<open>op_scratch\<close>, what \<open>op_cancel\<close> itself allocates.
\<close>

record ('o, 'out, 'w) op_ops =
  op_entry :: "ptr \<Rightarrow> 'o \<Rightarrow> 'w \<Rightarrow> panic + (sqe \<times> 'o \<times> 'w)"
  op_result :: "'o \<Rightarrow> ring_result \<Rightarrow> 'w \<Rightarrow> panic + ('out \<times> 'w)"
  op_cancel :: "'o \<Rightarrow> cancellation \<times> event list"
  op_entry_cancel :: "u64 \<Rightarrow> sqe option"
  op_drop :: "'o \<Rightarrow> event list"
  op_scratch :: "'o \<Rightarrow> event list"

record ('o, 'out, 'w) multi_ops = "('o, 'out, 'w) op_ops" +
  op_next :: "'o \<Rightarrow> ring_result \<Rightarrow> 'w \<Rightarrow> panic + ('out \<times> 'w)"

definition pure_op ::
    "(ptr \<Rightarrow> 'o \<Rightarrow> sqe \<times> 'o) \<Rightarrow> ('o \<Rightarrow> ring_result \<Rightarrow> panic + 'out) \<Rightarrow> ('o \<Rightarrow> cancellation \<times> event list) \<Rightarrow>
      (u64 \<Rightarrow> sqe option) \<Rightarrow> ('o \<Rightarrow> event list) \<Rightarrow> ('o, 'out, 'w) op_ops" where
  "pure_op en res cn ec dr =
     \<lparr>op_entry = (\<lambda>this q w. let (e, q') = en this q in Inr (e, q', w)),
      op_result = (\<lambda>q r w. mapR (\<lambda>x. (x, w)) (res q r)), op_cancel = cn, op_entry_cancel = ec, op_drop = dr,
      op_scratch = (\<lambda>_. [])\<rparr>"

definition pure_multi ::
    "(ptr \<Rightarrow> 'o \<Rightarrow> sqe \<times> 'o) \<Rightarrow> ('o \<Rightarrow> ring_result \<Rightarrow> panic + 'out) \<Rightarrow> ('o, 'out, 'w) multi_ops" where
  "pure_multi en nxt =
     \<lparr>op_entry = (\<lambda>this q w. let (e, q') = en this q in Inr (e, q', w)),
      op_result = (\<lambda>q r w. mapR (\<lambda>x. (x, w)) (nxt q r)), op_cancel = (\<lambda>_. (cancel_empty, [])),
      op_entry_cancel = (\<lambda>key. Some (sqe_build (OpAsyncCancel key))), op_drop = (\<lambda>_. []),
      op_scratch = (\<lambda>_. []), op_next = (\<lambda>q r w. mapR (\<lambda>x. (x, w)) (nxt q r))\<rparr>"

text \<open>The provided methods of the trait: \<open>cancel\<close> drops the operation.\<close>

definition default_cancel :: "('o \<Rightarrow> event list) \<Rightarrow> 'o \<Rightarrow> cancellation \<times> event list" where
  "default_cancel dr q = (cancel_empty, dr q)"

definition default_entry_cancel :: "u64 \<Rightarrow> sqe option" where
  "default_entry_cancel key = Some (sqe_build (OpAsyncCancel key))"

definition no_entry_cancel :: "u64 \<Rightarrow> sqe option" where
  "no_entry_cancel _ = None"

definition no_drop :: "'o \<Rightarrow> event list" where
  "no_drop _ = []"

definition run_detached ::
    "('u, 's) env \<Rightarrow> ('o, 'out, 'w, 'z) op_ops_scheme \<Rightarrow> ptr \<Rightarrow> 'o \<Rightarrow> 'w \<times> ('u, 's) ring cell \<Rightarrow>
      panic + ('o \<times> 'w \<times> ('u, 's) ring cell)" where
  "run_detached E T this q s =
     bindR (op_entry T this q (fst s)) (\<lambda>(e, q', w).
     mapR (\<lambda>c. (q', w, c)) (reactor_submit_detached E e (snd s)))"

subsection \<open>Results\<close>

text \<open>\<open>Error::from_raw_os_error(-ret)\<close>; the negation of \<open>i32::MIN\<close> overflows.\<close>

definition os_error_of :: "i32 \<Rightarrow> panic + io_error" where
  "os_error_of r = (if r = - (2 ^ 31) then Inl Overflow else Inr (OsError (- r)))"

definition expect_zero :: "ring_result \<Rightarrow> panic + (io_error + unit)" where
  "expect_zero res =
     (if ret res = 0 then Inr (Inr ())
      else if ret res <s 0 then mapR Inl (os_error_of (ret res))
      else Inl Unreachable)"

definition expect_fd :: "ring_result \<Rightarrow> panic + (io_error + i32)" where
  "expect_fd res =
     (if 1 \<le>s ret res then Inr (Inr (ret res))
      else if ret res <s 0 then mapR Inl (os_error_of (ret res))
      else Inl Unreachable)"

definition expect_direct :: "ring_result \<Rightarrow> panic + (io_error + direct_auto_fd)" where
  "expect_direct res =
     (if 1 \<le>s ret res then Inr (Inr (direct_auto_from_raw (ret res)))
      else if ret res <s 0 then mapR Inl (os_error_of (ret res))
      else Inl Unreachable)"

definition expect_positive :: "ring_result \<Rightarrow> panic + (io_error + usize)" where
  "expect_positive res =
     (if ret res <s 0 then mapR Inl (os_error_of (ret res)) else Inr (Inr (unat (ret res))))"

text \<open>How a client reads the kernel's result: an errno, or a value.\<close>

definition kernel_result :: "i32 \<Rightarrow> io_error + int" where
  "kernel_result r = (if sint r < 0 then Inl (OsError (- r)) else Inr (sint r))"

lemma sint_nonneg_unat: "\<not> (r :: i32) <s 0 \<Longrightarrow> int (unat r) = sint r"
proof -
  assume "\<not> r <s 0"
  then have "0 \<le> sint r" by (simp add: word_sless_alt)
  moreover have "sint r < 2 ^ 32" using sint_less [of r] by simp
  ultimately have "take_bit 32 (sint r) = sint r" by (rule take_bit_int_eq_self)
  then show ?thesis using uint_sint [of r] by simp
qed

lemma os_error_of_negative:
  "- (2 ^ 31) < sint r \<Longrightarrow> os_error_of r = Inr (OsError (- r))"
proof -
  assume a: "- (2 ^ 31) < sint r"
  have "sint (- (2 ^ 31) :: i32) = - (2 ^ 31)" by simp
  then have "r \<noteq> - (2 ^ 31)" using a by auto
  then show ?thesis by (simp only: os_error_of_def if_False)
qed

subsection \<open>Nop and Chain\<close>

datatype nop = Nop

definition ECANCELED :: i32 where "ECANCELED = 125"

definition nop_entry :: "ptr \<Rightarrow> nop \<Rightarrow> sqe \<times> nop" where
  "nop_entry _ q = (sqe_build OpNop, q)"

definition nop_next :: "nop \<Rightarrow> ring_result \<Rightarrow> panic + unit" where
  "nop_next _ res = (if ret res = 0 \<or> ret res = - ECANCELED then Inr () else Inl AssertFailed)"

definition nop_op :: "(nop, unit, 'w) multi_ops" where
  "nop_op = pure_multi nop_entry nop_next"

record 'o chain =
  chain_inner :: 'o

definition chain_new :: "'o \<Rightarrow> 'o chain" where
  "chain_new q = \<lparr>chain_inner = q\<rparr>"

definition chain_entry ::
    "('o, 'out, 'w, 'z) op_ops_scheme \<Rightarrow> ptr \<Rightarrow> 'o chain \<Rightarrow> 'w \<Rightarrow> panic + (sqe \<times> 'o chain \<times> 'w)" where
  "chain_entry T this c w =
     mapR (\<lambda>(e, q, w'). (sqe_with_flags IO_LINK e, \<lparr>chain_inner = q\<rparr>, w'))
       (op_entry T this (chain_inner c) w)"

definition chain_result ::
    "('o, 'out, 'w, 'z) op_ops_scheme \<Rightarrow> 'o chain \<Rightarrow> ring_result \<Rightarrow> 'w \<Rightarrow> panic + ('out \<times> 'w)" where
  "chain_result T c res w = op_result T (chain_inner c) res w"

definition chain_cancel :: "('o, 'out, 'w, 'z) op_ops_scheme \<Rightarrow> 'o chain \<Rightarrow> cancellation \<times> event list" where
  "chain_cancel T c = op_cancel T (chain_inner c)"

definition chain_op :: "('o, 'out, 'w, 'z) op_ops_scheme \<Rightarrow> ('o chain, 'out, 'w) op_ops" where
  "chain_op T =
     \<lparr>op_entry = chain_entry T, op_result = chain_result T, op_cancel = chain_cancel T,
      op_entry_cancel = op_entry_cancel T, op_drop = (\<lambda>c. op_drop T (chain_inner c)),
      op_scratch = (\<lambda>c. op_scratch T (chain_inner c))\<rparr>"

subsection \<open>The contract of operations\<close>

text \<open>An allocation covers the pointers into it.\<close>

definition covers :: "event \<Rightarrow> loc \<Rightarrow> bool" where
  "covers ev l =
     (case ev of
        Freed (AllocVec p n) \<Rightarrow> (case l of At q \<Rightarrow> p \<le> q \<and> q < p + n | FieldOf q _ \<Rightarrow> p \<le> q \<and> q < p + n | _ \<Rightarrow> False)
      | Freed (AllocBox p) \<Rightarrow> (case l of At q \<Rightarrow> p = q | FieldOf q _ \<Rightarrow> p = q | _ \<Rightarrow> False)
      | Freed (AllocRc p) \<Rightarrow> (case l of At q \<Rightarrow> p = q | FieldOf q _ \<Rightarrow> p = q | _ \<Rightarrow> False)
      | _ \<Rightarrow> False)"

definition in_self :: "ptr \<Rightarrow> loc \<Rightarrow> bool" where
  "in_self this l = (case l of FieldOf q _ \<Rightarrow> q = this | _ \<Rightarrow> False)"

text \<open>\<open>keeps_alive T this q e\<close>: cancelling \<open>q\<close> leaves valid what \<open>e\<close> points to.\<close>

definition keeps_alive :: "('o, 'out, 'w, 'z) op_ops_scheme \<Rightarrow> ptr \<Rightarrow> 'o \<Rightarrow> sqe \<Rightarrow> bool" where
  "keeps_alive T this q e \<longleftrightarrow>
     list_all (\<lambda>l. \<not> in_self this l \<and> \<not> list_ex (\<lambda>ev. covers ev l) (snd (op_cancel T q))) (sqe_locs e)"

definition frees_once :: "('o, 'out, 'w, 'z) op_ops_scheme \<Rightarrow> 'o \<Rightarrow> bool" where
  "frees_once T q \<longleftrightarrow> mset (snd (op_cancel T q) @ drop_raw (fst (op_cancel T q))) = mset (op_drop T q @ op_scratch T q)"

locale live_op =
  fixes T :: "('o, 'out, 'w, 'z) op_ops_scheme" and ok :: "ptr \<Rightarrow> 'o \<Rightarrow> bool"
  assumes entry_alive: "ok this q \<Longrightarrow> op_entry T this q w = Inr (e, q', w') \<Longrightarrow> ok this q' \<and> keeps_alive T this q' e"
    and cancel_entry_plain: "op_entry_cancel T n = Some e \<Longrightarrow> \<not> multishot e \<and> sqe_locs e = []"
begin

text \<open>The contract is inherited by \<open>Chain\<close>.\<close>

lemma chain_live: "live_op (chain_op T) (\<lambda>this c. ok this (chain_inner c))"
proof (unfold_locales, goal_cases)
  case (1 this c w e c' w')
  then show ?case
    using entry_alive [of this "chain_inner c" w]
    by (auto simp: chain_op_def chain_entry_def mapR_Inr_iff keeps_alive_def chain_cancel_def sqe_locs_def)
next
  case (2 n e)
  then show ?case using cancel_entry_plain [of n e] by (simp add: chain_op_def)
qed

end

locale safe_op = live_op T ok
  for T :: "('o, 'out, 'w, 'z) op_ops_scheme" and ok :: "ptr \<Rightarrow> 'o \<Rightarrow> bool" +
  assumes cancel_frees: "ok this q \<Longrightarrow> frees_once T q"
begin

lemma chain_safe: "safe_op (chain_op T) (\<lambda>this c. ok this (chain_inner c))"
  by (intro safe_op.intro chain_live safe_op_axioms.intro)
    (use cancel_frees in \<open>auto simp: frees_once_def chain_op_def chain_cancel_def\<close>)

end

lemma default_entry_cancel_plain:
  "default_entry_cancel n = Some e \<Longrightarrow> \<not> multishot e \<and> sqe_locs e = []"
  by (auto simp: default_entry_cancel_def multishot_def sqe_locs_def opcode_locs_def)

lemma no_entry_cancel_plain: "no_entry_cancel n = Some e \<Longrightarrow> \<not> multishot e \<and> sqe_locs e = []"
  by (simp add: no_entry_cancel_def)

text \<open>Operations that share no state, by their parts.\<close>

lemma live_pure_opI:
  assumes "\<And>this q e q'. ok this q \<Longrightarrow> en this q = (e, q') \<Longrightarrow> ok this q' \<and>
      list_all (\<lambda>l. \<not> in_self this l \<and> \<not> list_ex (\<lambda>ev. covers ev l) (snd (cn q'))) (sqe_locs e)"
    and "\<And>n e. ec n = Some e \<Longrightarrow> \<not> multishot e \<and> sqe_locs e = []"
  shows "live_op (pure_op en res cn ec dr) ok"
  by unfold_locales (use assms in \<open>auto simp: pure_op_def keeps_alive_def split: prod.splits\<close>)

lemma safe_pure_opI:
  assumes "\<And>this q e q'. ok this q \<Longrightarrow> en this q = (e, q') \<Longrightarrow> ok this q' \<and>
      list_all (\<lambda>l. \<not> in_self this l \<and> \<not> list_ex (\<lambda>ev. covers ev l) (snd (cn q'))) (sqe_locs e)"
    and "\<And>this q. ok this q \<Longrightarrow> mset (snd (cn q) @ drop_raw (fst (cn q))) = mset (dr q)"
    and "\<And>n e. ec n = Some e \<Longrightarrow> \<not> multishot e \<and> sqe_locs e = []"
  shows "safe_op (pure_op en res cn ec dr) ok"
  by (intro safe_op.intro safe_op_axioms.intro live_pure_opI)
    (use assms in \<open>auto simp: pure_op_def frees_once_def\<close>)

lemma safe_pure_multiI:
  assumes "\<And>this q e q'. ok this q \<Longrightarrow> en this q = (e, q') \<Longrightarrow> ok this q' \<and> sqe_locs e = []"
  shows "safe_op (pure_multi en nxt) ok"
  by unfold_locales
    (use assms in \<open>auto simp: pure_multi_def keeps_alive_def frees_once_def multishot_def sqe_locs_def
      opcode_locs_def split: prod.splits\<close>)

interpretation nop: safe_op nop_op "\<lambda>_ _. True"
  unfolding nop_op_def
  by (rule safe_pure_multiI) (auto simp: nop_entry_def sqe_locs_def opcode_locs_def)

interpretation chain_nop: safe_op "chain_op nop_op" "\<lambda>_ _. True"
  by (rule nop.chain_safe)

end
