(* ===== verification/Submission.thy ===== *)
theory Submission
  imports Op
begin

section \<open>Submissions (submission.rs)\<close>

text \<open>
  \<open>Submission<T, R>\<close> drives an operation: initial, submitted under a key, completed. Its
  \<open>ManuallyDrop<T>\<close> is an option, \<open>None\<close> once the operation was moved out; taking it again is
  \<open>UseAfterMove\<close>. \<open>sub_at\<close> is the address the submission is pinned at. \<open>submission_poll\<close> is
  \<open>Future::poll\<close>, \<open>submission_poll_next\<close> is \<open>Stream::poll_next\<close>, and \<open>submission_drop\<close> the
  destructor; all thread the state the operation shares and the reactor's cell.
\<close>

datatype submission_state = Initial | Submitted key | Completed

datatype 'a poll = is_pending: Pending | PollReady (poll_out: 'a)

record 'o submission =
  sub_op :: "'o option"
  sub_state :: submission_state
  sub_at :: ptr

definition state_take :: "'o submission \<Rightarrow> submission_state \<times> 'o submission" where
  "state_take s = (sub_state s, s\<lparr>sub_state := Initial\<rparr>)"

definition state_update :: "submission_state \<Rightarrow> 'o submission \<Rightarrow> 'o submission" where
  "state_update st s = s\<lparr>sub_state := st\<rparr>"

definition manually_take :: "'o submission \<Rightarrow> panic + ('o \<times> 'o submission)" where
  "manually_take s = (case sub_op s of None \<Rightarrow> Inl UseAfterMove | Some q \<Rightarrow> Inr (q, s\<lparr>sub_op := None\<rparr>))"

definition submission_new :: "ptr \<Rightarrow> 'o \<Rightarrow> 'o submission" where
  "submission_new this q = \<lparr>sub_op = Some q, sub_state = Initial, sub_at = this\<rparr>"

definition submission_cancel ::
    "('u, 's) env \<Rightarrow> ('o, 'out, 'w, 'z) op_ops_scheme \<Rightarrow> 'o submission \<Rightarrow> ('u, 's) ring cell \<Rightarrow>
      panic + ('o submission \<times> ('u, 's) ring cell \<times> event list)" where
  "submission_cancel E T s c =
     (case sub_state s of
        Initial \<Rightarrow>
          bindR (manually_take s) (\<lambda>(q, s').
          Inr (s', c, op_drop T q))
      | Submitted key \<Rightarrow>
          bindR (manually_take s) (\<lambda>(q, s').
          let (cancel, ev1) = op_cancel T q;
              entry = op_entry_cancel T (key_as_u64 key)
          in mapR (\<lambda>(ev2, c'). (s', c', ev1 @ ev2)) (reactor_cancel E key entry cancel c))
      | Completed \<Rightarrow> Inr (s, c, []))"

definition submission_drop ::
    "('u, 's) env \<Rightarrow> ('o, 'out, 'w, 'z) op_ops_scheme \<Rightarrow> 'o submission \<Rightarrow> ('u, 's) ring cell \<Rightarrow>
      panic + (('u, 's) ring cell \<times> event list)" where
  "submission_drop E T s c = mapR snd (submission_cancel E T s c)"

text \<open>The first poll, shared by both: build the entry and submit it.\<close>

definition submission_start ::
    "('u, 's) env \<Rightarrow> ('o, 'out, 'w, 'z) op_ops_scheme \<Rightarrow> waker \<Rightarrow> 'o submission \<Rightarrow> 'w \<times> ('u, 's) ring cell \<Rightarrow>
      panic + (key \<times> 'o submission \<times> 'w \<times> ('u, 's) ring cell)" where
  "submission_start E T wk s st =
     (case sub_op s of
        None \<Rightarrow> Inl UseAfterMove
      | Some q \<Rightarrow>
          bindR (op_entry T (sub_at s) q (fst st)) (\<lambda>(e, q', w).
          bindR (reactor_submit E e wk (snd st)) (\<lambda>(key, c).
          Inr (key, s\<lparr>sub_op := Some q'\<rparr>, w, c))))"

definition submission_poll ::
    "('u, 's) env \<Rightarrow> ('o, 'out, 'w, 'z) op_ops_scheme \<Rightarrow> waker \<Rightarrow> 'o submission \<Rightarrow> 'w \<times> ('u, 's) ring cell \<Rightarrow>
      panic + ('out poll \<times> 'o submission \<times> 'w \<times> ('u, 's) ring cell)" where
  "submission_poll E T wk s st =
     (let (old, s0) = state_take s
      in case old of
        Initial \<Rightarrow>
          bindR (submission_start E T wk s0 st) (\<lambda>(key, s1, w, c).
          Inr (Pending, state_update (Submitted key) s1, w, c))
      | Submitted key \<Rightarrow>
          bindR (reactor_check_result E key (snd st)) (\<lambda>(res, c).
          case res of
            None \<Rightarrow> Inr (Pending, state_update (Submitted key) s0, fst st, c)
          | Some result \<Rightarrow>
              bindR (manually_take s0) (\<lambda>(q, s1).
              let next_state = (if has_more (env_cq E) result then Submitted key else Completed)
              in bindR (op_result T q result (fst st)) (\<lambda>(out, w).
                 Inr (PollReady out, state_update next_state s1, w, c))))
      | Completed \<Rightarrow> Inl PolledCompleted)"

definition submission_is_terminated :: "'o submission \<Rightarrow> bool" where
  "submission_is_terminated s \<longleftrightarrow> sub_state s = Completed"

definition submission_poll_next ::
    "('u, 's) env \<Rightarrow> ('o, 'out, 'w, 'z) multi_ops_scheme \<Rightarrow> waker \<Rightarrow> 'o submission \<Rightarrow> 'w \<times> ('u, 's) ring cell \<Rightarrow>
      panic + ('out option poll \<times> 'o submission \<times> 'w \<times> ('u, 's) ring cell \<times> event list)" where
  "submission_poll_next E T wk s st =
     (let (old, s0) = state_take s
      in case old of
        Initial \<Rightarrow>
          bindR (submission_start E T wk s0 st) (\<lambda>(key, s1, w, c).
          Inr (Pending, state_update (Submitted key) s1, w, c, []))
      | Submitted key \<Rightarrow>
          bindR (reactor_check_result E key (snd st)) (\<lambda>(res, c).
          case res of
            None \<Rightarrow> Inr (Pending, state_update (Submitted key) s0, fst st, c, [])
          | Some result \<Rightarrow>
              (case sub_op s0 of
                 None \<Rightarrow> Inl UseAfterMove
               | Some q \<Rightarrow>
                   bindR (op_next T q result (fst st)) (\<lambda>(value, w).
                   if has_more (env_cq E) result
                   then Inr (PollReady (Some value), state_update (Submitted key) s0, w, c, [])
                   else Inr (PollReady (Some value), state_update Completed (s0\<lparr>sub_op := None\<rparr>), w, c, op_drop T q))))
      | Completed \<Rightarrow> Inr (PollReady None, state_update Completed s0, fst st, snd st, []))"

subsection \<open>The life of a submission\<close>

text \<open>\<open>sub_ok\<close>: the operation is there until the submission completes.\<close>

definition sub_ok :: "'o submission \<Rightarrow> bool" where
  "sub_ok s \<longleftrightarrow> (sub_op s = None) = (sub_state s = Completed)"

lemma sub_ok_new [simp]: "sub_ok (submission_new this q)"
  by (simp add: sub_ok_def submission_new_def)

lemma sub_ok_cases:
  assumes "sub_ok s"
  obtains (initial) q where "sub_state s = Initial" "sub_op s = Some q"
    | (submitted) q k where "sub_state s = Submitted k" "sub_op s = Some q"
    | (completed) "sub_state s = Completed" "sub_op s = None"
  using assms by (cases "sub_state s"; cases "sub_op s") (auto simp: sub_ok_def)

lemma reactor_submit_Ready:
  "reactor_submit E e wk (Ready r) = mapR (\<lambda>(k, r'). (k, Ready r')) (ring_submit E e wk r)"
  by (cases "ring_submit E e wk r") (auto simp: reactor_submit_def)

lemma reactor_check_Ready:
  "reactor_check_result E k (Ready r) = mapR (\<lambda>(x, r'). (x, Ready r')) (ring_check_result E k r)"
  by (cases "ring_check_result E k r") (auto simp: reactor_check_result_def)

lemma reactor_cancel_Ready:
  "reactor_cancel E k e d (Ready r) = mapR (\<lambda>(r', ev). (ev, Ready r')) (ring_cancel E k e d r)"
  by (cases "ring_cancel E k e d r") (auto simp: reactor_cancel_def)

context ring_env
begin

lemma start_sound:
  assumes i: "ring_inv E valid pending uvalid r" and room: "roomy E pending r"
    and q: "sub_op s = Some q" and en: "op_entry T (sub_at s) q w = Inr (e, q', w')"
  shows "submission_start E T wk s (w, Ready r) = Inl SubmissionQueueFull \<or>
    (\<exists>k r'. submission_start E T wk s (w, Ready r) = Inr (k, s\<lparr>sub_op := Some q'\<rparr>, w', Ready r') \<and>
      ring_inv E valid pending uvalid r' \<and> ring_abs E r k = None \<and>
      ring_abs E r' = (ring_abs E r)(k \<mapsto> Live (Some wk) []) \<and>
      pending (uring r') = add_mset (sqe_with_user_data (key_as_u64 k) e) (pending (uring r)))"
  using submit_sound [OF i room, of e wk]
  by (auto simp: submission_start_def q en reactor_submit_Ready)

lemma drop_sound:
  assumes i: "ring_inv E valid pending uvalid r" and room: "roomy E pending r"
    and ok: "sub_ok s" and live: "\<forall>k. sub_state s = Submitted k \<longrightarrow> (\<exists>wo rs. ring_abs E r k = Some (Live wo rs))"
    and plain: "\<And>n. detachable (op_entry_cancel T n)"
  shows "submission_drop E T s (Ready r) = Inl SubmissionQueueFull \<or>
    (\<exists>r' ev. submission_drop E T s (Ready r) = Inr (Ready r', ev) \<and> ring_inv E valid pending uvalid r' \<and>
      entries_of pending r' = entries_of pending r \<and>
      (case sub_state s of
         Submitted k \<Rightarrow> (\<exists>a'. ring_abs E r' = (ring_abs E r)(k := a') \<and> (\<forall>wo rs. a' \<noteq> Some (Live wo rs)))
       | _ \<Rightarrow> r' = r))"
proof (cases rule: sub_ok_cases [OF ok])
  case (1 q)
  then show ?thesis using i by (simp add: submission_drop_def submission_cancel_def manually_take_def)
next
  case (2 q k)
  obtain wo rs where k: "ring_abs E r k = Some (Live wo rs)" using live 2(1) by blast
  obtain d ev1 where d: "op_cancel T q = (d, ev1)" by fastforce
  let ?e = "op_entry_cancel T (key_as_u64 k)"
  have gone: "fst (snd (a_cancel d (Live wo rs))) \<noteq> Some (Live wo' rs')" for wo' rs'
    by (simp add: Let_def)
  from cancel_sound [where wo = wo and rs = rs and d = d, OF i room plain [of "key_as_u64 k"] k]
  show ?thesis
  proof (elim disjE exE conjE)
    assume "ring_cancel E k ?e d r = Inl SubmissionQueueFull"
    then show ?thesis
      using 2 d by (simp add: submission_drop_def submission_cancel_def manually_take_def reactor_cancel_Ready)
  next
    fix r'
    assume "ring_cancel E k ?e d r = Inr (r', snd (snd (a_cancel d (Live wo rs))))"
      and "ring_inv E valid pending uvalid r'"
      and a: "ring_abs E r' = (ring_abs E r)(k := fst (snd (a_cancel d (Live wo rs))))"
      and "entries_of pending r' = entries_of pending r"
    then show ?thesis
      using 2 d gone
      by (auto simp: submission_drop_def submission_cancel_def manually_take_def reactor_cancel_Ready
          simp del: a_cancel.simps)
  qed
next
  case 3
  then show ?thesis using i by (simp add: submission_drop_def submission_cancel_def)
qed

end

end
