(* ===== verification/System.thy ===== *)
theory System
  imports Submission
begin

section \<open>Tasks driving the ring\<close>

text \<open>
  A program that uses the library: any number of submissions over one ring, created, polled
  as futures or streams, dropped at any moment, entries submitted detached, and the
  executor's \<open>wait\<close>, in any order. \<open>sys_exec\<close> runs one action with the definitions of
  \<open>Submission\<close>, \<open>Op\<close> and \<open>Reactor\<close>; \<open>reachable\<close> is the set of states a run from a fresh
  ring can reach with enabled actions. The invariant \<open>sys_inv\<close> says that each submission in
  flight owns a live key of the completion set, no two own the same, and no live key is
  without an owner. It follows that no interleaving of drops and completions makes the ring
  panic, take an operation twice or leak an entry.
\<close>

subsection \<open>Results keep their shape\<close>

text \<open>Every result but the last announces more, and no more are expected after the last.\<close>

definition shape :: "cqueue_ops \<Rightarrow> waker option \<Rightarrow> ring_result list \<Rightarrow> bool" where
  "shape cq wo rs \<longleftrightarrow>
     (case wo of
        Some _ \<Rightarrow> list_all (has_more cq) rs
      | None \<Rightarrow> rs \<noteq> [] \<and> list_all (has_more cq) (butlast rs) \<and> \<not> has_more cq (last rs))"

definition shaped :: "cqueue_ops \<Rightarrow> (key \<rightharpoonup> acompletion) \<Rightarrow> bool" where
  "shaped cq m \<longleftrightarrow> (\<forall>k wo rs. m k = Some (Live wo rs) \<longrightarrow> shape cq wo rs)"

definition live_at :: "(key \<rightharpoonup> acompletion) \<Rightarrow> key \<Rightarrow> bool" where
  "live_at m k \<longleftrightarrow> (\<exists>wo rs. m k = Some (Live wo rs))"

lemma shape_notify:
  assumes "shape cq wo rs" "fst (a_notify cq r (Live wo rs)) = Some (Live wo' rs')"
  shows "shape cq wo' rs'"
  using assms by (cases wo) (auto simp: shape_def list_all_iff split: if_splits)

lemma shape_result:
  assumes "shape cq wo (r # rs)"
  shows "has_more cq r \<Longrightarrow> \<not> (rs = [] \<and> wo = None) \<and> shape cq wo rs"
    and "\<not> has_more cq r \<Longrightarrow> rs = [] \<and> wo = None"
  using assms by (auto simp: shape_def split: option.splits if_splits)

lemma a_notify_live:
  assumes "m k = Some a"
  shows "live_at (m(k := fst (a_notify cq r a))) j \<longleftrightarrow> live_at m j"
  using assms by (cases "(cq, r, a)" rule: a_notify.cases) (auto simp: live_at_def)

lemma a_entry_live: "live_at (fst (a_entry cq c m)) k \<longleftrightarrow> live_at m k"
  by (simp add: a_entry_def Let_def a_notify_live del: fun_upd_apply split: option.split)

lemma a_entries_live: "live_at (fst (a_entries cq cs m)) k \<longleftrightarrow> live_at m k"
  by (induction cs arbitrary: m) (simp_all add: split_beta a_entry_live)

lemma a_entry_shaped:
  assumes "shaped cq m"
  shows "shaped cq (fst (a_entry cq c m))"
proof -
  have "shape cq wo rs" if "m k = Some a" "fst (a_notify cq r a) = Some (Live wo rs)" for k a r wo rs
  proof (cases a)
    case (Live wo0 rs0)
    then show ?thesis using that assms shape_notify [of cq wo0 rs0 r wo rs] by (auto simp: shaped_def)
  next
    case (Gone d)
    then show ?thesis using that(2) by simp
  qed
  then show ?thesis using assms by (auto simp: a_entry_def shaped_def Let_def split: option.splits if_splits)
qed

lemma a_entries_shaped: "shaped cq m \<Longrightarrow> shaped cq (fst (a_entries cq cs m))"
  by (induction cs arbitrary: m) (simp_all add: split_beta a_entry_shaped)

definition came_from :: "key \<Rightarrow> cqe list \<Rightarrow> ring_result \<Rightarrow> bool" where
  "came_from k cs r \<longleftrightarrow>
     (\<exists>c. c \<in> set cs \<and> from_completion c = r \<and> cqe_user_data c \<noteq> IGNORE_KEY \<and>
        key_from_u64 (cqe_user_data c) = k)"

lemma a_entry_results:
  assumes "fst (a_entry cq c m) k = Some (Live wo' rs')" "r \<in> set rs'"
  shows "came_from k [c] r \<or> (\<exists>wo rs. m k = Some (Live wo rs) \<and> r \<in> set rs)"
proof -
  have "r \<in> set rs \<or> r = r0"
    if "fst (a_notify cq r0 (Live wo rs)) = Some (Live wo' rs')" for r0 wo rs
    using that assms(2) by (cases wo) auto
  moreover have "\<exists>wo rs. a = Live wo rs" if "fst (a_notify cq r0 a) = Some (Live wo' rs')" for a r0
    using that by (cases a) auto
  ultimately show ?thesis
    using assms
    by (auto simp: a_entry_def came_from_def Let_def split: if_splits option.splits) metis
qed

lemma a_entries_results:
  assumes "fst (a_entries cq cs m) k = Some (Live wo' rs')" "r \<in> set rs'"
  shows "came_from k cs r \<or> (\<exists>wo rs. m k = Some (Live wo rs) \<and> r \<in> set rs)"
  using assms
proof (induction cs arbitrary: m)
  case (Cons c cs)
  from Cons.prems(1) have "fst (a_entries cq cs (fst (a_entry cq c m))) k = Some (Live wo' rs')"
    by (simp add: split_beta)
  from Cons.IH [OF this Cons.prems(2)] show ?case
    using a_entry_results [of cq c m k _ _ r] by (auto simp: came_from_def)
qed simp

lemma reaped_subset: "reaped cq cs P P' \<Longrightarrow> P' \<subseteq># P"
  by (induction rule: reaped.induct) (auto intro: subset_mset.order_trans)

lemma reaped_more:
  assumes "reaped cq cs P P'" "c \<in> set cs"
  shows "\<exists>e. e \<in># P \<and> cqe_user_data c = sq_user_data e \<and> (has_more cq (from_completion c) \<longrightarrow> multishot e)"
  using assms
proof (induction rule: reaped.induct)
  case (final e P c' cs P')
  then show ?case by (auto dest: in_diffD)
qed auto

subsection \<open>Actions\<close>

record ('o, 'w, 'u, 's) sys =
  sys_subs :: "nat \<rightharpoonup> 'o submission"
  sys_world :: 'w
  sys_cell :: "('u, 's) ring cell"

datatype 'o action =
    Create nat ptr 'o
  | PollFuture nat waker
  | PollStream nat waker
  | DropSub nat
  | Detach ptr 'o
  | Wait

definition sys_exec ::
    "('u, 's) env \<Rightarrow> ('o, 'out, 'w, 'z) multi_ops_scheme \<Rightarrow> 'o action \<Rightarrow> ('o, 'w, 'u, 's) sys \<Rightarrow>
      panic + ('o, 'w, 'u, 's) sys" where
  "sys_exec E T act S =
     (let owner = (\<lambda>i. case sys_subs S i of Some s \<Rightarrow> Inr s | None \<Rightarrow> Inl UnwrapNone)
      in case act of
        Create i this q \<Rightarrow> Inr (S\<lparr>sys_subs := (sys_subs S)(i \<mapsto> submission_new this q)\<rparr>)
      | PollFuture i wk \<Rightarrow>
          bindR (owner i) (\<lambda>s.
          mapR (\<lambda>(_, s', w, c). \<lparr>sys_subs = (sys_subs S)(i \<mapsto> s'), sys_world = w, sys_cell = c\<rparr>)
            (submission_poll E T wk s (sys_world S, sys_cell S)))
      | PollStream i wk \<Rightarrow>
          bindR (owner i) (\<lambda>s.
          mapR (\<lambda>(_, s', w, c, _). \<lparr>sys_subs = (sys_subs S)(i \<mapsto> s'), sys_world = w, sys_cell = c\<rparr>)
            (submission_poll_next E T wk s (sys_world S, sys_cell S)))
      | DropSub i \<Rightarrow>
          bindR (owner i) (\<lambda>s.
          mapR (\<lambda>(c, _). S\<lparr>sys_subs := (sys_subs S)(i := None), sys_cell := c\<rparr>)
            (submission_drop E T s (sys_cell S)))
      | Detach this q \<Rightarrow>
          mapR (\<lambda>(_, w, c). S\<lparr>sys_world := w, sys_cell := c\<rparr>)
            (run_detached E T this q (sys_world S, sys_cell S))
      | Wait \<Rightarrow> mapR (\<lambda>(_, c). S\<lparr>sys_cell := c\<rparr>) (reactor_wait E (sys_cell S)))"

text \<open>
  \<open>multi\<close> tells which operations submit multi-shot entries: those are polled as streams. A
  future is not polled after it completed, which is the contract of \<open>Future\<close>.
\<close>

definition multi_agrees :: "('o, 'out, 'w, 'z) op_ops_scheme \<Rightarrow> ('o \<Rightarrow> bool) \<Rightarrow> bool" where
  "multi_agrees T multi \<longleftrightarrow>
     (\<forall>this q w e q' w'. op_entry T this q w = Inr (e, q', w') \<longrightarrow>
        (multishot e \<longrightarrow> multi q) \<and> multi q' = multi q)"

definition enabled ::
    "('u, 's) env \<Rightarrow> ('u \<Rightarrow> sqe multiset) \<Rightarrow> ('u \<Rightarrow> bool) \<Rightarrow> (ptr \<Rightarrow> 'o \<Rightarrow> bool) \<Rightarrow> ('o \<Rightarrow> bool) \<Rightarrow>
      'o action \<Rightarrow> ('o, 'w, 'u, 's) sys \<Rightarrow> bool" where
  "enabled E pending uvalid ok multi act S \<longleftrightarrow>
     (\<forall>r. sys_cell S = Ready r \<longrightarrow> roomy E pending r \<and> (act = Wait \<longrightarrow> calm E pending uvalid r)) \<and>
     (case act of
        Create i this q \<Rightarrow> i \<notin> dom (sys_subs S) \<and> ok this q
      | PollFuture i _ \<Rightarrow> (\<exists>s. sys_subs S i = Some s \<and> \<not> submission_is_terminated s \<and>
          (\<forall>q. sub_op s = Some q \<longrightarrow> \<not> multi q))
      | PollStream i _ \<Rightarrow> i \<in> dom (sys_subs S)
      | DropSub i \<Rightarrow> i \<in> dom (sys_subs S)
      | Detach this q \<Rightarrow> ok this q \<and> \<not> multi q
      | Wait \<Rightarrow> True)"

inductive reachable ::
    "('u, 's) env \<Rightarrow> ('u \<Rightarrow> sqe multiset) \<Rightarrow> ('u \<Rightarrow> bool) \<Rightarrow> ('o, 'out, 'w, 'z) multi_ops_scheme \<Rightarrow>
      (ptr \<Rightarrow> 'o \<Rightarrow> bool) \<Rightarrow> ('o \<Rightarrow> bool) \<Rightarrow> ('o, 'w, 'u, 's) sys \<Rightarrow> ('o, 'w, 'u, 's) sys \<Rightarrow> bool"
  for E pending uvalid T ok multi S0 where
  here: "reachable E pending uvalid T ok multi S0 S0"
| step: "reachable E pending uvalid T ok multi S0 S \<Longrightarrow> enabled E pending uvalid ok multi act S \<Longrightarrow>
    sys_exec E T act S = Inr S' \<Longrightarrow> reachable E pending uvalid T ok multi S0 S'"

text \<open>The panics an operation itself can raise.\<close>

definition op_fault :: "('o, 'out, 'w, 'z) multi_ops_scheme \<Rightarrow> panic \<Rightarrow> bool" where
  "op_fault T p \<longleftrightarrow>
     (\<exists>this q w. op_entry T this q w = Inl p) \<or> (\<exists>q r w. op_result T q r w = Inl p) \<or>
     (\<exists>q r w. op_next T q r w = Inl p)"

subsection \<open>The invariant\<close>

definition owns ::
    "('u, 's) env \<Rightarrow> ('u \<Rightarrow> sqe multiset) \<Rightarrow> ('o \<Rightarrow> bool) \<Rightarrow> ('u, 's) ring \<Rightarrow> 'o submission \<Rightarrow> bool" where
  "owns E pending multi r s \<longleftrightarrow>
     (\<forall>k q. sub_state s = Submitted k \<longrightarrow> sub_op s = Some q \<longrightarrow>
        live_at (ring_abs E r) k \<and>
        (\<not> multi q \<longrightarrow>
          (\<forall>e. e \<in># entries_of pending r k \<longrightarrow> \<not> multishot e) \<and>
          (\<forall>wo rs x. ring_abs E r k = Some (Live wo rs) \<longrightarrow> x \<in> set rs \<longrightarrow> \<not> has_more (env_cq E) x)))"

definition subs_inv ::
    "('u, 's) env \<Rightarrow> ('u \<Rightarrow> sqe multiset) \<Rightarrow> (ptr \<Rightarrow> 'o \<Rightarrow> bool) \<Rightarrow> ('o \<Rightarrow> bool) \<Rightarrow>
      ('u, 's) ring \<Rightarrow> (nat \<rightharpoonup> 'o submission) \<Rightarrow> bool" where
  "subs_inv E pending ok multi r subs \<longleftrightarrow>
     (\<forall>i s. subs i = Some s \<longrightarrow> sub_ok s \<and> (\<forall>q. sub_op s = Some q \<longrightarrow> ok (sub_at s) q) \<and> owns E pending multi r s) \<and>
     (\<forall>i j s t k. subs i = Some s \<longrightarrow> subs j = Some t \<longrightarrow> sub_state s = Submitted k \<longrightarrow>
        sub_state t = Submitted k \<longrightarrow> i = j) \<and>
     (\<forall>k. live_at (ring_abs E r) k \<longrightarrow> (\<exists>i s. subs i = Some s \<and> sub_state s = Submitted k))"

definition sys_inv ::
    "('u, 's) env \<Rightarrow> ('s \<Rightarrow> bool) \<Rightarrow> ('u \<Rightarrow> sqe multiset) \<Rightarrow> ('u \<Rightarrow> bool) \<Rightarrow> (ptr \<Rightarrow> 'o \<Rightarrow> bool) \<Rightarrow> ('o \<Rightarrow> bool) \<Rightarrow>
      ('o, 'w, 'u, 's) sys \<Rightarrow> bool" where
  "sys_inv E valid pending uvalid ok multi S \<longleftrightarrow>
     (\<exists>r. sys_cell S = Ready r \<and> ring_inv E valid pending uvalid r \<and>
        shaped (env_cq E) (ring_abs E r) \<and> subs_inv E pending ok multi r (sys_subs S))"

end
