(* ===== verification/SystemSafe.thy ===== *)
theory SystemSafe
  imports System
begin

section \<open>No interleaving breaks the ring\<close>

text \<open>
  Each action keeps \<open>sys_inv\<close>, or stops with a full submission queue, a failed system call,
  or a panic of the operation's own code.
\<close>

lemma owns_frame:
  assumes "owns E pending multi r s"
    and "\<And>k. sub_state s = Submitted k \<Longrightarrow> ring_abs E r' k = ring_abs E r k"
    and "\<And>k. sub_state s = Submitted k \<Longrightarrow> entries_of pending r' k \<subseteq># entries_of pending r k"
  shows "owns E pending multi r' s"
proof (unfold owns_def, intro allI impI)
  fix k q
  assume k: "sub_state s = Submitted k" "sub_op s = Some q"
  have "e \<in># entries_of pending r' k \<Longrightarrow> e \<in># entries_of pending r k" for e
    using assms(3) [OF k(1)] by (rule mset_subset_eqD)
  then show "live_at (ring_abs E r') k \<and>
        (\<not> multi q \<longrightarrow>
          (\<forall>e. e \<in># entries_of pending r' k \<longrightarrow> \<not> multishot e) \<and>
          (\<forall>wo rs x. ring_abs E r' k = Some (Live wo rs) \<longrightarrow> x \<in> set rs \<longrightarrow> \<not> has_more (env_cq E) x))"
    using assms(1) k assms(2) [OF k(1)] by (auto simp: owns_def live_at_def)
qed

text \<open>Replacing or removing one submission, with the key it owns.\<close>

lemma subs_inv_update:
  assumes si: "subs_inv E pending ok multi r subs"
    and same: "\<And>j t k. j \<noteq> i \<Longrightarrow> subs j = Some t \<Longrightarrow> sub_state t = Submitted k \<Longrightarrow>
      ring_abs E r' k = ring_abs E r k \<and> entries_of pending r' k = entries_of pending r k \<and>
      (\<forall>s'. so' = Some s' \<longrightarrow> sub_state s' \<noteq> Submitted k)"
    and new: "\<And>s'. so' = Some s' \<Longrightarrow>
      sub_ok s' \<and> (\<forall>q. sub_op s' = Some q \<longrightarrow> ok (sub_at s') q) \<and> owns E pending multi r' s'"
    and live: "\<And>k. live_at (ring_abs E r') k \<Longrightarrow>
      (\<exists>s'. so' = Some s' \<and> sub_state s' = Submitted k) \<or>
      live_at (ring_abs E r) k \<and> (\<forall>s. subs i = Some s \<longrightarrow> sub_state s \<noteq> Submitted k)"
  shows "subs_inv E pending ok multi r' (subs(i := so'))"
proof -
  have "sub_ok t \<and> (\<forall>q. sub_op t = Some q \<longrightarrow> ok (sub_at t) q) \<and> owns E pending multi r' t"
    if "(subs(i := so')) j = Some t" for j t
  proof (cases "j = i")
    case True
    then show ?thesis using that new by simp
  next
    case False
    then have t: "subs j = Some t" using that by simp
    then have "owns E pending multi r t" using si by (auto simp: subs_inv_def)
    then have "owns E pending multi r' t"
      by (rule owns_frame) (use same [OF False t] in auto)
    then show ?thesis using si t by (auto simp: subs_inv_def)
  qed
  moreover have "j = l"
    if "(subs(i := so')) j = Some s" "(subs(i := so')) l = Some t"
      "sub_state s = Submitted k" "sub_state t = Submitted k" for j l s t k
  proof (cases "j = i \<or> l = i")
    case True
    then show ?thesis using that same by (auto split: if_splits)
  next
    case False
    then show ?thesis using that si by (auto simp: subs_inv_def)
  qed
  moreover have "\<exists>j t. (subs(i := so')) j = Some t \<and> sub_state t = Submitted k"
    if k: "live_at (ring_abs E r') k" for k
    using live [OF k]
  proof (elim disjE exE conjE)
    fix s' assume "so' = Some s'" "sub_state s' = Submitted k"
    then show ?thesis by (intro exI [of _ i] exI [of _ s']) simp
  next
    assume "live_at (ring_abs E r) k" and i: "\<forall>s. subs i = Some s \<longrightarrow> sub_state s \<noteq> Submitted k"
    then obtain j t where t: "subs j = Some t" "sub_state t = Submitted k"
      using si by (auto simp: subs_inv_def)
    with i have "j \<noteq> i" by auto
    with t show ?thesis by (intro exI [of _ j] exI [of _ t]) simp
  qed
  ultimately show ?thesis unfolding subs_inv_def by blast
qed

lemma subs_inv_unique:
  assumes "subs_inv E pending ok multi r subs" "subs i = Some s" "sub_state s = Submitted k"
    "subs j = Some t" "sub_state t = Submitted k"
  shows "j = i"
  using assms by (auto simp: subs_inv_def)

lemma owner_live:
  assumes si: "subs_inv E pending ok multi r subs" and t: "subs j = Some t" "sub_state t = Submitted k"
  shows "live_at (ring_abs E r) k"
proof -
  have "sub_ok t" "owns E pending multi r t" using si t(1) by (auto simp: subs_inv_def)
  moreover from this(1) obtain q where "sub_op t = Some q" using t(2) by (auto simp: sub_ok_def)
  ultimately show ?thesis using t(2) by (auto simp: owns_def)
qed

lemma shaped_update:
  assumes "shaped cq m" "\<And>wo rs. a = Some (Live wo rs) \<Longrightarrow> shape cq wo rs"
  shows "shaped cq (m(k := a))"
  using assms by (auto simp: shaped_def)

locale driver = ring_env E valid pending uvalid + live_op T ok
  for E :: "('u, 's) env" and valid :: "'s \<Rightarrow> bool"
    and pending :: "'u \<Rightarrow> sqe multiset" and uvalid :: "'u \<Rightarrow> bool"
    and T :: "('o, 'out, 'w, 'z) multi_ops_scheme" and ok :: "ptr \<Rightarrow> 'o \<Rightarrow> bool" +
  fixes multi :: "'o \<Rightarrow> bool"
  assumes agrees: "multi_agrees T multi"
begin

lemma plain_cancel: "detachable (op_entry_cancel T n)"
  using cancel_entry_plain [of n] by (auto simp: detachable_def split: option.split)

lemma no_entries:
  assumes "ring_inv E valid pending uvalid r" "ring_abs E r k = None"
  shows "entries_of pending r k = {#}"
proof -
  have c: "counted (pending (uring r)) r (ring_abs E r)" using inv_parts [OF assms(1)] by simp
  have "e \<notin># entries_of pending r k" for e
  proof
    assume "e \<in># entries_of pending r k"
    then have "e \<in># pending (uring r)" "sq_user_data e = key_as_u64 k" by (auto simp: entries_of_def)
    then have "key_as_u64 k \<in># image_mset sq_user_data (pending (uring r))" by (metis image_eqI set_image_mset)
    then have "key_as_u64 k \<in># owed (unat (detached r)) (waiting (ring_abs E r))"
      using c unfolding counted_def by metis
    moreover have "finite (waiting (ring_abs E r))" using c by (simp add: counted_def finite_waiting)
    ultimately have "k \<in> waiting (ring_abs E r)" by (auto simp: owed_mem)
    then show False using assms(2) by (simp add: waiting_def)
  qed
  then show ?thesis by blast
qed

lemma start_keeps:
  assumes i: "ring_inv E valid pending uvalid r" and room: "roomy E pending r"
    and sh: "shaped (env_cq E) (ring_abs E r)" and si: "subs_inv E pending ok multi r subs"
    and s: "subs i = Some s" "sub_state s = Initial" "sub_op s = Some q"
  shows "(\<exists>p. submission_start E T wk (s\<lparr>sub_state := Initial\<rparr>) (w, Ready r) = Inl p \<and>
      (p = SubmissionQueueFull \<or> op_fault T p)) \<or>
    (\<exists>k s' w' r'. submission_start E T wk (s\<lparr>sub_state := Initial\<rparr>) (w, Ready r) = Inr (k, s', w', Ready r') \<and>
      ring_inv E valid pending uvalid r' \<and> shaped (env_cq E) (ring_abs E r') \<and>
      subs_inv E pending ok multi r' (subs(i \<mapsto> state_update (Submitted k) s')))"
proof (cases "op_entry T (sub_at s) q w")
  case (Inl p)
  then show ?thesis using s by (auto simp: submission_start_def op_fault_def)
next
  case (Inr en)
  obtain e q' w' where en: "op_entry T (sub_at s) q w = Inr (e, q', w')" using Inr by (cases en) auto
  have okq: "ok (sub_at s) q" using si s by (auto simp: subs_inv_def)
  note alive = entry_alive [OF okq en]
  have ag: "multishot e \<longrightarrow> multi q" "multi q' = multi q" using agrees en unfolding multi_agrees_def by blast+
  let ?s = "s\<lparr>sub_state := Initial\<rparr>"
  have sq: "sub_op ?s = Some q" "op_entry T (sub_at ?s) q w = Inr (e, q', w')" using s en by simp_all
  from start_sound [where wk = wk, OF i room sq] show ?thesis
  proof (elim disjE exE conjE)
    fix k r'
    assume st: "submission_start E T wk ?s (w, Ready r) = Inr (k, ?s\<lparr>sub_op := Some q'\<rparr>, w', Ready r')"
      and i': "ring_inv E valid pending uvalid r'" and k: "ring_abs E r k = None"
      and a: "ring_abs E r' = (ring_abs E r)(k \<mapsto> Live (Some wk) [])"
      and p: "pending (uring r') = add_mset (sqe_with_user_data (key_as_u64 k) e) (pending (uring r))"
    let ?s' = "state_update (Submitted k) (?s\<lparr>sub_op := Some q'\<rparr>)"
    have nl: "\<not> live_at (ring_abs E r) k" using k by (simp add: live_at_def)
    have other: "j \<noteq> i \<Longrightarrow> subs j = Some t \<Longrightarrow> sub_state t = Submitted l \<Longrightarrow> l \<noteq> k" for j t l
      using owner_live [OF si] nl by auto
    have en1: "entries_of pending r' k = {#sqe_with_user_data (key_as_u64 k) e#}"
      using no_entries [OF i k] p by (simp add: entries_of_def)
    have "owns E pending multi r' ?s'"
      using a en1 ag by (auto simp: owns_def state_update_def live_at_def)
    then have "subs_inv E pending ok multi r' (subs(i := Some ?s'))"
      using si other alive a p s
      by (intro subs_inv_update [where r = r])
        (auto simp: entries_of_def state_update_def sub_ok_def live_at_def split: if_splits)
    moreover have "shaped (env_cq E) (ring_abs E r')"
      unfolding a by (rule shaped_update [OF sh]) (simp add: shape_def)
    ultimately show ?thesis using st i' by blast
  qed auto
qed

text \<open>A result taken by the owner of the key.\<close>

lemma check_keeps:
  assumes i: "ring_inv E valid pending uvalid r" and sh: "shaped (env_cq E) (ring_abs E r)"
    and si: "subs_inv E pending ok multi r subs" and s: "subs i = Some s" "sub_state s = Submitted k"
  shows "\<exists>xo r'. ring_check_result E k r = Inr (xo, r') \<and> ring_inv E valid pending uvalid r' \<and>
    shaped (env_cq E) (ring_abs E r') \<and>
    (case xo of
       None \<Rightarrow> subs_inv E pending ok multi r' subs
     | Some x \<Rightarrow>
         (\<forall>q. sub_op s = Some q \<longrightarrow> \<not> multi q \<longrightarrow> \<not> has_more (env_cq E) x) \<and>
         (if has_more (env_cq E) x then subs_inv E pending ok multi r' subs
          else subs_inv E pending ok multi r' (subs(i := Some (s\<lparr>sub_op := None, sub_state := Completed\<rparr>)))))"
proof -
  have okk: "sub_ok s" "owns E pending multi r s" using si s(1) by (auto simp: subs_inv_def)
  then obtain q where q: "sub_op s = Some q" using s(2) by (auto simp: sub_ok_def)
  then obtain wo rs where k: "ring_abs E r k = Some (Live wo rs)"
    using okk(2) s(2) by (auto simp: owns_def live_at_def)
  obtain r' where r': "ring_check_result E k r = Inr (fst (a_result (Live wo rs)), r')"
    "ring_inv E valid pending uvalid r'" "ring_abs E r' = (ring_abs E r)(k := snd (a_result (Live wo rs)))"
    "uring r' = uring r"
    using check_sound [OF i k] by blast
  have en: "entries_of pending r' = entries_of pending r" using r'(4) by (simp add: entries_of_def fun_eq_iff)
  have shk: "shape (env_cq E) wo rs" using sh k by (simp add: shaped_def)
  have other: "j \<noteq> i \<Longrightarrow> subs j = Some t \<Longrightarrow> sub_state t = Submitted l \<Longrightarrow> l \<noteq> k" for j t l
    using subs_inv_unique [OF si s] by auto
  have keep: "subs_inv E pending ok multi r' subs" if r1: "ring_abs E r' = (ring_abs E r)(k \<mapsto> Live wo rs1)"
    and sub: "set rs1 \<subseteq> set rs" for rs1
  proof -
    have "owns E pending multi r' s"
      using okk(2) s(2) q k r1 sub en by (auto simp: owns_def live_at_def)
    then have "subs_inv E pending ok multi r' (subs(i := Some s))"
      using si other s r1 en okk k
      by (intro subs_inv_update [where r = r]) (auto simp: subs_inv_def live_at_def split: if_splits)
    then show ?thesis using s(1) by (simp add: fun_upd_idem)
  qed
  show ?thesis
  proof (cases rs)
    case Nil
    then have "ring_abs E r' = (ring_abs E r)(k \<mapsto> Live wo [])" using r'(3) by simp
    then show ?thesis
      using keep [of "[]"] r' Nil shaped_update [OF sh, of "Some (Live wo [])" k] shk by auto
  next
    case (Cons x rest)
    note sr = shape_result [OF shk [unfolded Cons]]
    have single: "\<not> multi q \<longrightarrow> \<not> has_more (env_cq E) x"
      using okk(2) s(2) q k Cons by (auto simp: owns_def)
    show ?thesis
    proof (cases "has_more (env_cq E) x")
      case True
      then have a: "ring_abs E r' = (ring_abs E r)(k \<mapsto> Live wo rest)" using sr(1) r'(3) Cons by auto
      have "shaped (env_cq E) (ring_abs E r')"
        unfolding a by (rule shaped_update [OF sh]) (use sr(1) True in auto)
      then show ?thesis using True keep [OF a] r' Cons single q by auto
    next
      case False
      then have a: "ring_abs E r' = (ring_abs E r)(k := None)" using sr(2) r'(3) Cons by auto
      have "shaped (env_cq E) (ring_abs E r')" unfolding a by (rule shaped_update [OF sh]) simp
      moreover have "subs_inv E pending ok multi r' (subs(i := Some (s\<lparr>sub_op := None, sub_state := Completed\<rparr>)))"
        using si other s a en
        by (intro subs_inv_update [where r = r]) (auto simp: sub_ok_def owns_def live_at_def split: if_splits)
      ultimately show ?thesis using False r' Cons single q by auto
    qed
  qed
qed

lemma wait_keeps:
  assumes i: "ring_inv E valid pending uvalid r" and room: "roomy E pending r" and calm: "calm E pending uvalid r"
    and sh: "shaped (env_cq E) (ring_abs E r)" and si: "subs_inv E pending ok multi r subs"
  shows "ring_wait E r = Inl WaitFailed \<or>
    (\<exists>r' ev. ring_wait E r = Inr (r', ev) \<and> ring_inv E valid pending uvalid r' \<and>
      shaped (env_cq E) (ring_abs E r') \<and> subs_inv E pending ok multi r' subs)"
  using wait_sound [OF i room calm]
proof (elim disjE exE conjE)
  fix r' cs
  assume w: "ring_wait E r = Inr (r', snd (a_entries (env_cq E) cs (ring_abs E r)))"
    and i': "ring_inv E valid pending uvalid r'"
    and a: "ring_abs E r' = fst (a_entries (env_cq E) cs (ring_abs E r))"
    and re: "reaped (env_cq E) cs (pending (uring r)) (pending (uring r'))"
  have c: "counted (pending (uring r)) r (ring_abs E r)" using inv_parts [OF i] by simp
  have sub: "entries_of pending r' k \<subseteq># entries_of pending r k" for k
    unfolding entries_of_def by (rule multiset_filter_mono [OF reaped_subset [OF re]])
  have more: "\<exists>e. e \<in># entries_of pending r k \<and> multishot e"
    if x: "came_from k cs x" "has_more (env_cq E) x" for k x
  proof -
    obtain d where d: "d \<in> set cs" "from_completion d = x" "cqe_user_data d \<noteq> IGNORE_KEY"
      "key_from_u64 (cqe_user_data d) = k" using x(1) by (auto simp: came_from_def)
    obtain e where e: "e \<in># pending (uring r)" "cqe_user_data d = sq_user_data e" "multishot e"
      using reaped_more [OF re d(1)] d(2) x(2) by blast
    have "sq_user_data e \<in># owed (unat (detached r)) (waiting (ring_abs E r))"
      using e(1) c unfolding counted_def by (metis image_eqI set_image_mset)
    moreover have "finite (waiting (ring_abs E r))" using c by (simp add: counted_def finite_waiting)
    ultimately obtain k' where "sq_user_data e = key_as_u64 k'" using e d(3) by (auto simp: owed_mem)
    then have "sq_user_data e = key_as_u64 k" using e(2) d(4) by simp
    then show ?thesis using e by (auto simp: entries_of_def)
  qed
  have "owns E pending multi r' s" if "owns E pending multi r s" for s
  proof (unfold owns_def, intro allI impI)
    fix k q
    assume k: "sub_state s = Submitted k" "sub_op s = Some q"
    have o: "live_at (ring_abs E r) k"
      "\<not> multi q \<Longrightarrow> e \<in># entries_of pending r k \<Longrightarrow> \<not> multishot e"
      "\<not> multi q \<Longrightarrow> ring_abs E r k = Some (Live wo rs) \<Longrightarrow> x \<in> set rs \<Longrightarrow> \<not> has_more (env_cq E) x"
      for e wo rs x using that k by (auto simp: owns_def)
    show "live_at (ring_abs E r') k \<and>
        (\<not> multi q \<longrightarrow>
          (\<forall>e. e \<in># entries_of pending r' k \<longrightarrow> \<not> multishot e) \<and>
          (\<forall>wo rs x. ring_abs E r' k = Some (Live wo rs) \<longrightarrow> x \<in> set rs \<longrightarrow> \<not> has_more (env_cq E) x))"
    proof (intro conjI allI impI)
      show "live_at (ring_abs E r') k" using o(1) by (simp add: a a_entries_live)
      show "\<not> multishot e" if "\<not> multi q" "e \<in># entries_of pending r' k" for e
        using o(2) [OF that(1) mset_subset_eqD [OF sub that(2)]] .
      show "\<not> has_more (env_cq E) x"
        if x: "\<not> multi q" "ring_abs E r' k = Some (Live wo rs)" "x \<in> set rs" for wo rs x
        using a_entries_results [OF x(2) [unfolded a] x(3)] more o(2,3) x(1) by blast
    qed
  qed
  then have "subs_inv E pending ok multi r' subs"
    using si by (auto simp: subs_inv_def a a_entries_live)
  moreover have "shaped (env_cq E) (ring_abs E r')" unfolding a by (rule a_entries_shaped [OF sh])
  ultimately show ?thesis using w i' by blast
qed auto

lemma detach_keeps:
  assumes i: "ring_inv E valid pending uvalid r" and room: "roomy E pending r" and m: "\<not> multi q"
    and sh: "shaped (env_cq E) (ring_abs E r)" and si: "subs_inv E pending ok multi r subs"
  shows "(\<exists>p. run_detached E T this q (w, Ready r) = Inl p \<and> (p = SubmissionQueueFull \<or> op_fault T p)) \<or>
    (\<exists>q' w' r'. run_detached E T this q (w, Ready r) = Inr (q', w', Ready r') \<and>
      ring_inv E valid pending uvalid r' \<and> shaped (env_cq E) (ring_abs E r') \<and>
      subs_inv E pending ok multi r' subs)"
proof (cases "op_entry T this q w")
  case (Inl p)
  then show ?thesis by (auto simp: run_detached_def op_fault_def)
next
  case (Inr en)
  obtain e q' w' where en: "op_entry T this q w = Inr (e, q', w')" using Inr by (cases en) auto
  have "\<not> multishot e" using agrees en m unfolding multi_agrees_def by blast
  from detached_sound [OF i room this] show ?thesis
  proof (elim disjE exE conjE)
    assume "ring_submit_detached E e r = Inl SubmissionQueueFull"
    then show ?thesis by (simp add: run_detached_def en reactor_submit_detached_def)
  next
    fix r'
    assume d: "ring_submit_detached E e r = Inr r'" and i': "ring_inv E valid pending uvalid r'"
      and a: "ring_abs E r' = ring_abs E r"
      and p: "pending (uring r') = add_mset (sqe_with_user_data IGNORE_KEY e) (pending (uring r))"
    have "owns E pending multi r s \<Longrightarrow> owns E pending multi r' s" for s
      by (erule owns_frame) (simp_all add: a p)
    then have "subs_inv E pending ok multi r' subs" using si by (auto simp: subs_inv_def a)
    then show ?thesis
      using d i' sh by (simp add: run_detached_def en reactor_submit_detached_def a)
  qed
qed

lemma drop_keeps:
  assumes i: "ring_inv E valid pending uvalid r" and room: "roomy E pending r"
    and sh: "shaped (env_cq E) (ring_abs E r)" and si: "subs_inv E pending ok multi r subs"
    and s: "subs i = Some s"
  shows "submission_drop E T s (Ready r) = Inl SubmissionQueueFull \<or>
    (\<exists>r' ev. submission_drop E T s (Ready r) = Inr (Ready r', ev) \<and>
      ring_inv E valid pending uvalid r' \<and> shaped (env_cq E) (ring_abs E r') \<and>
      subs_inv E pending ok multi r' (subs(i := None)))"
proof -
  have ok: "sub_ok s" using si s by (auto simp: subs_inv_def)
  have live: "\<forall>k. sub_state s = Submitted k \<longrightarrow> (\<exists>wo rs. ring_abs E r k = Some (Live wo rs))"
    using owner_live [OF si s] by (simp add: live_at_def)
  from drop_sound [OF i room ok live plain_cancel] show ?thesis
  proof (elim disjE exE conjE)
    fix r' ev
    assume d: "submission_drop E T s (Ready r) = Inr (Ready r', ev)" and i': "ring_inv E valid pending uvalid r'"
      and en: "entries_of pending r' = entries_of pending r"
      and c: "case sub_state s of
         Submitted k \<Rightarrow> (\<exists>a'. ring_abs E r' = (ring_abs E r)(k := a') \<and> (\<forall>wo rs. a' \<noteq> Some (Live wo rs)))
       | _ \<Rightarrow> r' = r"
    show ?thesis
    proof (cases "\<exists>k. sub_state s = Submitted k")
      case True
      then obtain k a' where k: "sub_state s = Submitted k"
        and a: "ring_abs E r' = (ring_abs E r)(k := a')" "\<forall>wo rs. a' \<noteq> Some (Live wo rs)" using c by auto
      have other: "j \<noteq> i \<Longrightarrow> subs j = Some t \<Longrightarrow> sub_state t = Submitted l \<Longrightarrow> l \<noteq> k" for j t l
        using subs_inv_unique [OF si s k] by auto
      have "subs_inv E pending ok multi r' (subs(i := None))"
        using si other a en s k
        by (intro subs_inv_update [where r = r]) (auto simp: live_at_def split: if_splits)
      moreover have "shaped (env_cq E) (ring_abs E r')"
        unfolding a(1) by (rule shaped_update [OF sh]) (use a(2) in auto)
      ultimately show ?thesis using d i' by blast
    next
      case False
      then have "r' = r" using c by (cases "sub_state s") auto
      moreover have "subs_inv E pending ok multi r (subs(i := None))"
        using si False s by (intro subs_inv_update [where r = r]) auto
      ultimately show ?thesis using d i' sh by blast
    qed
  qed auto
qed

definition allowed_panic :: "panic \<Rightarrow> bool" where
  "allowed_panic p \<longleftrightarrow> p = SubmissionQueueFull \<or> p = WaitFailed \<or> op_fault T p"

lemma poll_keeps:
  assumes i: "ring_inv E valid pending uvalid r" and room: "roomy E pending r"
    and sh: "shaped (env_cq E) (ring_abs E r)" and si: "subs_inv E pending ok multi r subs"
    and s: "subs i = Some s" "sub_state s \<noteq> Completed" and m: "\<forall>q. sub_op s = Some q \<longrightarrow> \<not> multi q"
  shows "(\<exists>p. submission_poll E T wk s (w, Ready r) = Inl p \<and> allowed_panic p) \<or>
    (\<exists>out s' w' r'. submission_poll E T wk s (w, Ready r) = Inr (out, s', w', Ready r') \<and>
      ring_inv E valid pending uvalid r' \<and> shaped (env_cq E) (ring_abs E r') \<and>
      subs_inv E pending ok multi r' (subs(i \<mapsto> s')))"
proof -
  have ok: "sub_ok s" using si s by (auto simp: subs_inv_def)
  from ok show ?thesis
  proof (cases rule: sub_ok_cases)
    case (initial q)
    from start_keeps [where wk = wk and w = w, OF i room sh si s(1) initial] show ?thesis
      using initial by (auto simp: submission_poll_def state_take_def allowed_panic_def)
  next
    case (submitted q k)
    obtain xo r' where c: "ring_check_result E k r = Inr (xo, r')" "ring_inv E valid pending uvalid r'"
      "shaped (env_cq E) (ring_abs E r')"
      "case xo of
         None \<Rightarrow> subs_inv E pending ok multi r' subs
       | Some x \<Rightarrow>
         (\<forall>q. sub_op s = Some q \<longrightarrow> \<not> multi q \<longrightarrow> \<not> has_more (env_cq E) x) \<and>
         (if has_more (env_cq E) x then subs_inv E pending ok multi r' subs
          else subs_inv E pending ok multi r' (subs(i := Some (s\<lparr>sub_op := None, sub_state := Completed\<rparr>))))"
      using check_keeps [OF i sh si s(1) submitted(1)] by blast
    show ?thesis
    proof (cases xo)
      case None
      have "s\<lparr>sub_state := Submitted k\<rparr> = s" using submitted by simp
      then have "subs(i \<mapsto> s\<lparr>sub_state := Submitted k\<rparr>) = subs" using s(1) by (simp add: fun_upd_idem)
      then show ?thesis
        using c None submitted
        by (simp add: submission_poll_def state_take_def state_update_def reactor_check_Ready)
    next
      case (Some x)
      have nm: "\<not> has_more (env_cq E) x" using c(4) Some m submitted by auto
      show ?thesis
      proof (cases "op_result T q x w")
        case (Inl p)
        then show ?thesis
          using c Some submitted
          by (auto simp: submission_poll_def state_take_def reactor_check_Ready manually_take_def
              allowed_panic_def op_fault_def)
      next
        case (Inr res)
        obtain out w' where "op_result T q x w = Inr (out, w')" using Inr by (cases res) auto
        then show ?thesis
          using c Some submitted nm
          by (simp add: submission_poll_def state_take_def state_update_def reactor_check_Ready manually_take_def)
      qed
    qed
  qed (use s in simp)
qed

lemma poll_next_keeps:
  assumes i: "ring_inv E valid pending uvalid r" and room: "roomy E pending r"
    and sh: "shaped (env_cq E) (ring_abs E r)" and si: "subs_inv E pending ok multi r subs"
    and s: "subs i = Some s"
  shows "(\<exists>p. submission_poll_next E T wk s (w, Ready r) = Inl p \<and> allowed_panic p) \<or>
    (\<exists>out s' w' r' ev. submission_poll_next E T wk s (w, Ready r) = Inr (out, s', w', Ready r', ev) \<and>
      ring_inv E valid pending uvalid r' \<and> shaped (env_cq E) (ring_abs E r') \<and>
      subs_inv E pending ok multi r' (subs(i \<mapsto> s')))"
proof -
  have ok: "sub_ok s" using si s by (auto simp: subs_inv_def)
  have idem: "subs(i \<mapsto> s\<lparr>sub_state := sub_state s\<rparr>) = subs" using s by (simp add: fun_upd_idem)
  from ok show ?thesis
  proof (cases rule: sub_ok_cases)
    case (initial q)
    from start_keeps [where wk = wk and w = w, OF i room sh si s initial] show ?thesis
      using initial by (auto simp: submission_poll_next_def state_take_def allowed_panic_def)
  next
    case (submitted q k)
    obtain xo r' where c: "ring_check_result E k r = Inr (xo, r')" "ring_inv E valid pending uvalid r'"
      "shaped (env_cq E) (ring_abs E r')"
      "case xo of
         None \<Rightarrow> subs_inv E pending ok multi r' subs
       | Some x \<Rightarrow>
         (\<forall>q. sub_op s = Some q \<longrightarrow> \<not> multi q \<longrightarrow> \<not> has_more (env_cq E) x) \<and>
         (if has_more (env_cq E) x then subs_inv E pending ok multi r' subs
          else subs_inv E pending ok multi r' (subs(i := Some (s\<lparr>sub_op := None, sub_state := Completed\<rparr>))))"
      using check_keeps [OF i sh si s submitted(1)] by blast
    note idem = idem [unfolded submitted(1)]
    note defs = submission_poll_next_def state_take_def state_update_def reactor_check_Ready
    show ?thesis
    proof (cases xo)
      case None
      then show ?thesis using c submitted idem by (simp add: defs)
    next
      case (Some x)
      show ?thesis
      proof (cases "op_next T q x w")
        case (Inl p)
        then show ?thesis
          using c Some submitted by (auto simp: defs allowed_panic_def op_fault_def)
      next
        case (Inr res)
        obtain out w' where n: "op_next T q x w = Inr (out, w')" using Inr by (cases res) auto
        show ?thesis
        proof (cases "has_more (env_cq E) x")
          case True
          then show ?thesis using c Some submitted n idem by (simp add: defs)
        next
          case False
          have eq: "s\<lparr>sub_state := Completed, sub_op := None\<rparr> = s\<lparr>sub_op := None, sub_state := Completed\<rparr>" by simp
          show ?thesis using c Some submitted n False by (simp add: defs eq)
        qed
      qed
    qed
  next
    case completed
    then have "subs(i \<mapsto> s\<lparr>sub_state := Completed\<rparr>) = subs" using idem by simp
    then show ?thesis
      using completed i sh si by (simp add: submission_poll_next_def state_take_def state_update_def)
  qed
qed

lemma create_keeps:
  assumes si: "subs_inv E pending ok multi r subs" and f: "subs i = None" and q: "ok this q"
  shows "subs_inv E pending ok multi r (subs(i \<mapsto> submission_new this q))"
  using si f q
  by (intro subs_inv_update [where r = r]) (auto simp: submission_new_def sub_ok_def owns_def)

lemma exec_sound:
  assumes inv: "sys_inv E valid pending uvalid ok multi S" and en: "enabled E pending uvalid ok multi act S"
  shows "(\<exists>S'. sys_exec E T act S = Inr S' \<and> sys_inv E valid pending uvalid ok multi S') \<or>
    (\<exists>p. sys_exec E T act S = Inl p \<and> allowed_panic p)"
proof -
  obtain r where c: "sys_cell S = Ready r" and i: "ring_inv E valid pending uvalid r"
    and sh: "shaped (env_cq E) (ring_abs E r)" and si: "subs_inv E pending ok multi r (sys_subs S)"
    using inv by (auto simp: sys_inv_def)
  have room: "roomy E pending r" using en c by (auto simp: enabled_def)
  show ?thesis
  proof (cases act)
    case (Create n this q)
    then have "sys_subs S n = None" "ok this q" using en by (auto simp: enabled_def)
    then show ?thesis using c i sh create_keeps [OF si] Create by (simp add: sys_exec_def sys_inv_def)
  next
    case (PollFuture n wk)
    then obtain s where s: "sys_subs S n = Some s" "sub_state s \<noteq> Completed"
      and m: "\<forall>q. sub_op s = Some q \<longrightarrow> \<not> multi q"
      using en by (auto simp: enabled_def submission_is_terminated_def)
    show ?thesis
      using poll_keeps [where w = "sys_world S" and wk = wk, OF i room sh si s m] s PollFuture c
      by (auto simp: sys_exec_def sys_inv_def)
  next
    case (PollStream n wk)
    then obtain s where s: "sys_subs S n = Some s" using en by (auto simp: enabled_def)
    show ?thesis
      using poll_next_keeps [where w = "sys_world S" and wk = wk, OF i room sh si s] s PollStream c
      by (auto simp: sys_exec_def sys_inv_def)
  next
    case (DropSub n)
    then obtain s where s: "sys_subs S n = Some s" using en by (auto simp: enabled_def)
    show ?thesis
      using drop_keeps [OF i room sh si s] s DropSub c
      by (auto simp: sys_exec_def sys_inv_def allowed_panic_def)
  next
    case (Detach this q)
    then have m: "\<not> multi q" using en by (auto simp: enabled_def)
    show ?thesis
      using detach_keeps [where w = "sys_world S" and this = this, OF i room m sh si] Detach c
      by (auto simp: sys_exec_def sys_inv_def allowed_panic_def)
  next
    case Wait
    then have cm: "calm E pending uvalid r" using en c by (auto simp: enabled_def)
    show ?thesis
      using wait_keeps [OF i room cm sh si] Wait c
      by (auto simp: sys_exec_def sys_inv_def reactor_wait_def allowed_panic_def)
  qed
qed

lemma fresh_inv:
  assumes "ring_build E os opts st = (Inr r, st')"
  shows "sys_inv E valid pending uvalid ok multi \<lparr>sys_subs = Map.empty, sys_world = w, sys_cell = Ready r\<rparr>"
  using build_sound [OF assms] by (auto simp: sys_inv_def shaped_def subs_inv_def live_at_def)

lemma reachable_inv:
  assumes "reachable E pending uvalid T ok multi S0 S" "sys_inv E valid pending uvalid ok multi S0"
  shows "sys_inv E valid pending uvalid ok multi S"
  using assms
proof (induction rule: reachable.induct)
  case (step S act S')
  then show ?case using exec_sound [of S act] by auto
qed simp

text \<open>With every submission gone and nothing pending, nothing is left in the ring.\<close>

lemma quiescent:
  assumes inv: "sys_inv E valid pending uvalid ok multi S" and c: "sys_cell S = Ready r"
    and none: "\<forall>i s k. sys_subs S i = Some s \<longrightarrow> sub_state s \<noteq> Submitted k" and p: "pending (uring r) = {#}"
  shows "ring_abs E r = Map.empty"
proof -
  have i: "ring_inv E valid pending uvalid r" and si: "subs_inv E pending ok multi r (sys_subs S)"
    using inv c by (auto simp: sys_inv_def)
  have cnt: "counted (pending (uring r)) r (ring_abs E r)" using inv_parts [OF i] by simp
  have fin: "finite (waiting (ring_abs E r))" using cnt by (simp add: counted_def finite_waiting)
  have "owed (unat (detached r)) (waiting (ring_abs E r)) = {#}" using cnt p unfolding counted_def by simp
  then have w: "waiting (ring_abs E r) = {}" using fin size_owed [of "waiting (ring_abs E r)" "unat (detached r)"] by simp
  have "ring_abs E r k = None" for k
  proof (rule ccontr)
    assume "ring_abs E r k \<noteq> None"
    then obtain a where a: "ring_abs E r k = Some a" by blast
    show False
    proof (cases a)
      case (Live wo rs)
      then have "live_at (ring_abs E r) k" using a by (simp add: live_at_def)
      then show False using si none by (auto simp: subs_inv_def)
    next
      case (Gone d)
      then have "k \<in> waiting (ring_abs E r)" using a by (simp add: waiting_def expects_more_def)
      then show False using w by simp
    qed
  qed
  then show ?thesis by blast
qed

end

end
