(* ===== verification/Scripted.thy ===== *)
theory Scripted
  imports SystemSafe
begin

section \<open>A scripted kernel\<close>

text \<open>
  An instance of the contracts of the outside world on which the development evaluates: a
  kernel whose submission queue has \<open>sk_depth\<close> places and whose completions are read from a
  script. A line \<open>(i, r, f)\<close> of the script completes the \<open>i\<close>-th pending entry with result \<open>r\<close>
  and flags \<open>f\<close>; a line that names no entry, or announces more for a single-shot one, is
  skipped. With \<open>vec_slab\<close> and \<open>cq_abi\<close> it interprets \<open>kernel_queue\<close>, \<open>ring_env\<close> and, with
  \<open>nop_op\<close>, \<open>driver\<close>.
\<close>

record script_kernel =
  sk_pending :: "sqe list"
  sk_script :: "(nat \<times> i32 \<times> u32) list"
  sk_depth :: nat

fun sk_reap :: "(nat \<times> i32 \<times> u32) list \<Rightarrow> sqe list \<Rightarrow> cqe list \<times> sqe list" where
  "sk_reap [] P = ([], P)"
| "sk_reap ((i, r, f) # script) P =
     (if i < length P \<and> (cq_more cq_abi f \<longrightarrow> multishot (P ! i)) then
        (let P1 = (if cq_more cq_abi f then P else take i P @ drop (Suc i) P);
             (cs, P2) = sk_reap script P1
         in (\<lparr>cqe_user_data = sq_user_data (P ! i), cqe_result = r, cqe_flags = f\<rparr> # cs, P2))
      else sk_reap script P)"

definition script_uring :: "(nat \<times> i32 \<times> u32) list \<Rightarrow> script_kernel uring_ops" where
  "script_uring script =
     \<lparr>ur_build = (\<lambda>n. Some \<lparr>sk_pending = [], sk_script = script, sk_depth = unat n\<rparr>),
      ur_register_buffers_sparse = (\<lambda>_ u. Some u),
      ur_register_files_sparse = (\<lambda>_ u. Some u),
      ur_register_file_alloc_range = (\<lambda>_ _ u. Some u),
      ur_register_files_update = (\<lambda>_ _ u. Some u),
      ur_register_buffers_update = (\<lambda>_ _ u. Inr u),
      ur_push = (\<lambda>e u. if length (sk_pending u) < sk_depth u
                       then Some (u\<lparr>sk_pending := sk_pending u @ [e]\<rparr>) else None),
      ur_submit_and_wait = (\<lambda>n u. if n \<le> length (sk_pending u) then Some u else None),
      ur_completion = (\<lambda>u. let (cs, P) = sk_reap (sk_script u) (sk_pending u)
                           in (cs, u\<lparr>sk_pending := P, sk_script := []\<rparr>))\<rparr>"

definition script_env :: "(nat \<times> i32 \<times> u32) list \<Rightarrow> (script_kernel, completion option list) env" where
  "script_env script = \<lparr>env_ur = script_uring script, env_cq = cq_abi, env_sl = vec_slab\<rparr>"

definition sk_mset :: "script_kernel \<Rightarrow> sqe multiset" where
  "sk_mset u = mset (sk_pending u)"

lemma mset_remove_nth: "i < length xs \<Longrightarrow> mset (take i xs @ drop (Suc i) xs) = mset xs - {#xs ! i#}"
  by (metis add_mset_remove_trivial id_take_nth_drop mset_append mset.simps(2) union_mset_add_mset_right)

lemma sk_reap_reaped:
  assumes "sk_reap script P = (cs, P')"
  shows "reaped cq_abi cs (mset P) (mset P')"
  using assms
proof (induction script P arbitrary: cs P' rule: sk_reap.induct)
  case (2 i r f script P)
  show ?case
  proof (cases "i < length P \<and> (cq_more cq_abi f \<longrightarrow> multishot (P ! i))")
    case False
    then have "sk_reap script P = (cs, P')" using 2(3) by (simp only: sk_reap.simps if_False)
    then show ?thesis using 2(2) [OF False] by blast
  next
    case True
    let ?P1 = "if cq_more cq_abi f then P else take i P @ drop (Suc i) P"
    obtain cs1 P2 where r: "sk_reap script ?P1 = (cs1, P2)" by fastforce
    let ?c = "\<lparr>cqe_user_data = sq_user_data (P ! i), cqe_result = r, cqe_flags = f\<rparr>"
    have cs: "cs = ?c # cs1" "P' = P2" using 2(3) True r by (auto simp: Let_def)
    have re: "reaped cq_abi cs1 (mset ?P1) (mset P2)" using 2(1) [OF True] r by blast
    have mem: "P ! i \<in># mset P" using True by simp
    have m: "has_more cq_abi (from_completion ?c) = cq_more cq_abi f"
      by (simp add: has_more_def from_completion_def)
    show ?thesis
    proof (cases "cq_more cq_abi f")
      case more: True
      show ?thesis unfolding cs
        by (rule reaped.again [OF mem]) (use more True re m in auto)
    next
      case False
      have "mset ?P1 = mset P - {#P ! i#}" using False True mset_remove_nth [of i P] by simp
      then show ?thesis unfolding cs
        using False re m by (intro reaped.final [OF mem]) auto
    qed
  qed
qed (auto intro: reaped.nil)

interpretation scripted_queue: kernel_queue "script_uring script" cq_abi sk_mset "\<lambda>_. True"
proof (unfold_locales, goal_cases)
  case (7 u n u')
  then show ?case by (auto simp: script_uring_def sk_mset_def split: if_splits)
next
  case (8 u cs u')
  then show ?case
    by (auto simp: script_uring_def sk_mset_def split: prod.splits dest: sk_reap_reaped)
qed (auto simp: script_uring_def sk_mset_def split: if_splits)

interpretation scripted: ring_env "script_env script" vec_valid sk_mset "\<lambda>_. True"
  unfolding ring_env_def script_env_def
  by (simp add: vec_completions.completion_slab_axioms scripted_queue.kernel_queue_axioms)

lemma nop_agrees: "multi_agrees nop_op (\<lambda>_. False)"
  by (auto simp: multi_agrees_def nop_op_def pure_multi_def nop_entry_def multishot_def)

interpretation nop_driver: driver "script_env script" vec_valid sk_mset "\<lambda>_. True"
    nop_op "\<lambda>_ _. True" "\<lambda>_. False"
  by (intro driver.intro scripted.ring_env_axioms nop.live_op_axioms driver_axioms.intro nop_agrees)

end
