(* ===== verification/ReactorProps.thy ===== *)
theory ReactorProps
  imports Scripted
begin

section \<open>Properties of the reactor core\<close>

text \<open>
  The properties of the ring, the completion set, the slot registers and the submissions,
  each stated over the definitions with the contracts of the outside world as hypotheses,
  and applied to the scripted kernel by its witness.
\<close>

subsection \<open>A concrete run\<close>

definition no_limits :: "limit_resource \<Rightarrow> rlimit64" where
  "no_limits = (\<lambda>_. \<lparr>rlim_cur = 0, rlim_max = 0\<rparr>)"

definition fresh_sys :: "'w \<Rightarrow> ('u, 's) ring \<Rightarrow> ('o, 'w, 'u, 's) sys" where
  "fresh_sys w r = \<lparr>sys_subs = Map.empty, sys_world = w, sys_cell = Ready r\<rparr>"

definition idle_ring :: "(nat \<times> i32 \<times> u32) list \<Rightarrow> (script_kernel, completion option list) ring" where
  "idle_ring script = new_ring (script_env script) default_options
     \<lparr>sk_pending = [], sk_script = script, sk_depth = 2048\<rparr>"

text \<open>The ring and the system after one \<open>Nop\<close> was created and polled once.\<close>

definition flight_ring :: "(nat \<times> i32 \<times> u32) list \<Rightarrow> (script_kernel, completion option list) ring" where
  "flight_ring script = (idle_ring script)
     \<lparr>uring := \<lparr>sk_pending = [sqe_with_user_data 0 (sqe_build OpNop)], sk_script = script, sk_depth = 2048\<rparr>,
      active := 1, completions := \<lparr>slab_of = [Some (Vacant 3)], rqueues = rq_with_capacity 4\<rparr>\<rparr>"

definition flight_sys ::
    "(nat \<times> i32 \<times> u32) list \<Rightarrow> (nop, unit, script_kernel, completion option list) sys" where
  "flight_sys script =
     \<lparr>sys_subs = [7 \<mapsto> \<lparr>sub_op = Some Nop, sub_state = Submitted (Key 0), sub_at = 100\<rparr>], sys_world = (),
      sys_cell = Ready (flight_ring script)\<rparr>"

lemmas run_eval = sys_exec_def Let_def submission_new_def submission_poll_def submission_poll_next_def
  state_take_def state_update_def submission_start_def reactor_submit_Ready reactor_check_Ready
  reactor_cancel_Ready submission_drop_def submission_cancel_def manually_take_def
  nop_op_def pure_multi_def nop_entry_def nop_next_def ring_submit_def ring_push_def ring_check_result_def
  ring_cancel_def cs_insert_def cs_result_def cs_cancel_def cs_notify_def with_completion_def try_notify_def
  try_cancel_def take_result_def completion_new_def script_env_def script_uring_def
  vec_slab_def vec_insert_def vec_get_def vec_remove_def reactor_wait_def ring_wait_def
  ring_submit_and_wait_def ring_want_def ring_handle_completions_def ring_handle_entry_def
  from_completion_def has_more_def cq_abi_def key_from_usize_def key_as_usize_def key_as_u64_def
  key_from_u64_def fresh_sys_def new_ring_def default_options_def cs_with_capacity_def rq_with_capacity_def
  u32_add_def u32_sub_def u32_mul_def sqe_build_def sqe_with_user_data_def IGNORE_KEY_def is_finished_def
  cancel_consume_def cancel_empty_def idle_ring_def flight_ring_def flight_sys_def

lemma idle_built:
  "ring_build (script_env script) table_os default_options no_limits = (Inr (idle_ring script), no_limits)"
  by (simp add: ring_build_def idle_ring_def set_limits_def raise_limit_def check_ret_def table_os_def
      script_env_def script_uring_def default_options_def Let_def u32_add_def no_limits_def)

lemma enabled_easy:
  assumes "sys_cell S = Ready r" "roomy E pending r" "act \<noteq> Wait"
    "case act of
        Create i this q \<Rightarrow> i \<notin> dom (sys_subs S) \<and> ok this q
      | PollFuture i _ \<Rightarrow> (\<exists>s. sys_subs S i = Some s \<and> \<not> submission_is_terminated s \<and>
          (\<forall>q. sub_op s = Some q \<longrightarrow> \<not> multi q))
      | PollStream i _ \<Rightarrow> i \<in> dom (sys_subs S)
      | DropSub i \<Rightarrow> i \<in> dom (sys_subs S)
      | Detach this q \<Rightarrow> ok this q \<and> \<not> multi q
      | Wait \<Rightarrow> True"
  shows "enabled E pending uvalid ok multi act S"
  using assms by (simp add: enabled_def)

lemma flight_roomy: "roomy (script_env script) sk_mset (flight_ring script)"
  by (simp add: roomy_def script_env_def vec_slab_def vec_len_def sk_mset_def flight_ring_def)

lemma idle_roomy: "roomy (script_env script) sk_mset (idle_ring script)"
  by (simp add: roomy_def script_env_def vec_slab_def vec_len_def sk_mset_def idle_ring_def new_ring_def
      cs_with_capacity_def)

lemma flight_reachable:
  "reachable (script_env script) sk_mset (\<lambda>_. True) nop_op (\<lambda>_ _. True) (\<lambda>_. False)
     (fresh_sys () (idle_ring script)) (flight_sys script)"
proof -
  let ?S1 = "(fresh_sys () (idle_ring script))\<lparr>sys_subs := [7 \<mapsto> submission_new 100 Nop]\<rparr>"
  have "sys_exec (script_env script) nop_op (Create 7 100 Nop) (fresh_sys () (idle_ring script)) = Inr ?S1"
    by (simp add: sys_exec_def fresh_sys_def)
  moreover have "enabled (script_env script) sk_mset (\<lambda>_. True) (\<lambda>_ _. True) (\<lambda>_. False)
      (Create 7 100 Nop) (fresh_sys () (idle_ring script))"
    by (rule enabled_easy [OF _ idle_roomy [of script]]) (simp_all add: fresh_sys_def)
  ultimately have r1: "reachable (script_env script) sk_mset (\<lambda>_. True) nop_op (\<lambda>_ _. True) (\<lambda>_. False)
      (fresh_sys () (idle_ring script)) ?S1"
    by (intro reachable.step [OF reachable.here])
  have "enabled (script_env script) sk_mset (\<lambda>_. True) (\<lambda>_ _. True) (\<lambda>_. False) (PollFuture 7 3) ?S1"
    by (rule enabled_easy [OF _ idle_roomy [of script]])
      (simp_all add: fresh_sys_def submission_is_terminated_def submission_new_def)
  moreover have "sys_exec (script_env script) nop_op (PollFuture 7 3) ?S1 = Inr (flight_sys script)"
    by (simp add: run_eval)
  ultimately show ?thesis by (rule reachable.step [OF r1])
qed

lemma run_inv:
  assumes d: "driver E valid pending uvalid T ok multi"
    and b: "ring_build E os opts st = (Inr r, st')"
    and run: "reachable E pending uvalid T ok multi (fresh_sys w r) S"
  shows "sys_inv E valid pending uvalid ok multi S"
  using driver.reachable_inv [OF d run [unfolded fresh_sys_def] driver.fresh_inv [OF d b]] .

lemma flight_inv: "ring_inv (script_env script) vec_valid sk_mset (\<lambda>_. True) (flight_ring script)"
proof -
  have "sys_inv (script_env script) vec_valid sk_mset (\<lambda>_. True) (\<lambda>_ _. True) (\<lambda>_. False) (flight_sys script)"
    by (rule run_inv [OF nop_driver.driver_axioms idle_built flight_reachable])
  then show ?thesis by (simp add: sys_inv_def flight_sys_def)
qed

lemma flight_abs: "ring_abs (script_env script) (flight_ring script) (Key 0) = Some (Live (Some 3) [])"
  by (simp add: ring_abs_def cs_abs_def abs_map_def abs_comp_def flight_ring_def script_env_def
      vec_slab_def vec_get_def key_as_usize_def)

subsection \<open>Whole programs\<close>



text \<open>C5: \<open>wait\<close> asks the kernel for at least one completion and for no more than are
  outstanding, whatever was cancelled since the last wait: it cannot block on completions
  that will never come.\<close>

theorem wait_asks_for_what_is_owed:
  assumes "ring_env E valid pending uvalid" "ring_inv E valid pending uvalid r" "roomy E pending r"
    "pending (uring r) \<noteq> {#}"
  shows "\<exists>w. ring_want r = Inr w \<and> 0 < unat w \<and> unat w \<le> size (pending (uring r))"
proof -
  have c: "counted (pending (uring r)) r (ring_abs E r)"
    using ring_env.inv_parts [OF assms(1,2)] by simp
  note s = counted_pending_size [OF c]
  have g: "unat (canceled r) \<le> unat (detached r)" "unat (canceled r) \<le> unat (active r)"
    using c card_gone [of "ring_abs E r"] by (auto simp: counted_def)
  have "unat (active r) + unat (detached r) < 2 ^ 32" using ring_env.room_counters [OF assms(1-3)] by simp
  moreover have "0 < unat (active r) + unat (detached r)" using s assms(4) by (metis neq0_conv size_eq_0_iff_empty)
  ultimately show ?thesis using want_bound [OF g] s by auto
qed

theorem wait_asks_for_what_is_owed_witness:
  "\<exists>w. ring_want (flight_ring []) = Inr w \<and> 0 < unat w \<and> unat w \<le> size (sk_mset (uring (flight_ring [])))"
  by (rule wait_asks_for_what_is_owed [OF scripted.ring_env_axioms flight_inv flight_roomy])
    (simp add: sk_mset_def flight_ring_def)



text \<open>C11: \<open>Ring::is_done\<close> answers whether anything is outstanding: no entry the kernel owes a
  completion for, no result not taken, and no slot of the three registers given out.\<close>

theorem is_done_means_nothing_outstanding:
  assumes "ring_env E valid pending uvalid" "ring_inv E valid pending uvalid r" "roomy E pending r"
  shows "\<exists>b. ring_is_done E r = Inr b \<and>
    (b \<longleftrightarrow> pending (uring r) = {#} \<and> ring_abs E r = Map.empty \<and>
      sr_live wrap_direct_slot (direct_files r) = {} \<and> sr_live wrap_buffer_slot (fixed_buffers r) = {} \<and>
      sr_live wrap_buffer_group_id (buffer_groups r) = {})"
  using ring_env.is_done_iff [OF assms] .

theorem is_done_means_nothing_outstanding_witness:
  "ring_is_done (script_env []) (flight_ring []) = Inr False"
proof -
  have "sk_mset (uring (flight_ring [])) \<noteq> {#}" by (simp add: sk_mset_def flight_ring_def)
  then show ?thesis
    using is_done_means_nothing_outstanding [OF scripted.ring_env_axioms flight_inv [of "[]"] flight_roomy [of "[]"]]
    by auto
qed



subsection \<open>Completions and cancellation\<close>

text \<open>C9: \<open>CompletionSet::notify\<close> implements the specification on any slab: the result is
  appended to the operation's queue and its task woken, or the operation was cancelled and
  is released; no other operation and no other queue is touched.\<close>

theorem notify_implements_spec:
  assumes "slab sl valid" "cs_inv sl valid s" "cs_abs sl s key = Some a" "expects_more a"
  shows "\<exists>s'. cs_notify cq sl key r s = Inr ((), s', snd (a_notify cq r a)) \<and> cs_inv sl valid s' \<and>
    cs_abs sl s' = (cs_abs sl s)(key := fst (a_notify cq r a))"
  using completion_slab.notify_refines [OF completion_slab.intro [OF assms(1)] assms(2-4)] .

theorem notify_implements_spec_witness:
  "\<exists>s'. cs_notify cq_abi vec_slab (Key 0) \<lparr>ret = 5, flags = 0\<rparr> (completions (flight_ring [])) =
     Inr ((), s', [Wake 3]) \<and>
     cs_abs vec_slab s' = (cs_abs vec_slab (completions (flight_ring [])))(Key 0 \<mapsto> Live None [\<lparr>ret = 5, flags = 0\<rparr>])"
proof -
  have i: "cs_inv vec_slab vec_valid (completions (flight_ring []))"
    using flight_inv [of "[]"] by (simp add: ring_inv_def balanced_def script_env_def)
  have a: "cs_abs vec_slab (completions (flight_ring [])) (Key 0) = Some (Live (Some 3) [])"
    using flight_abs [of "[]"] by (simp add: ring_abs_def script_env_def)
  show ?thesis
    using notify_implements_spec [OF vec.slab_axioms i a, of cq_abi "\<lparr>ret = 5, flags = 0\<rparr>"]
    by (auto simp: expects_more_def has_more_def cq_abi_def)
qed

text \<open>C10: \<open>CompletionSet::result\<close> hands out the results of an operation oldest first, returns
  nothing while none arrived, and frees the key and the queue with the last result.\<close>

theorem results_in_order:
  assumes "slab sl valid" "cs_inv sl valid s" "cs_abs sl s key = Some (Live w (r # rs))"
  shows "\<exists>s'. cs_result sl key s = Inr (Some r, s', []) \<and> cs_inv sl valid s' \<and>
    cs_abs sl s' = (cs_abs sl s)(key := if rs = [] \<and> w = None then None else Some (Live w rs))"
  using completion_slab.result_refines [OF completion_slab.intro [OF assms(1)] assms(2,3)]
  by (simp only: a_result.simps fst_conv snd_conv)

definition answered :: "completion option list completion_set" where
  "answered = \<lparr>slab_of = [Some (Single \<lparr>ret = 5, flags = 0\<rparr>)], rqueues = rq_with_capacity 4\<rparr>"

lemma answered_inv: "cs_inv vec_slab vec_valid answered"
  "cs_abs vec_slab answered (Key 0) = Some (Live None [\<lparr>ret = 5, flags = 0\<rparr>])"
proof -
  have g: "sl_get vec_slab (slab_of answered) = [0 \<mapsto> Single \<lparr>ret = 5, flags = 0\<rparr>]"
    by (auto simp: vec_slab_def vec_get_def answered_def fun_eq_iff)
  have "cs_ok (update (\<lambda>_. None) 0 (Single \<lparr>ret = 5, flags = 0\<rparr>)) (rq_with_capacity 4)"
    using cs_ok_update_plain [OF cs_ok_empty, of 0 "Single \<lparr>ret = 5, flags = 0\<rparr>"] by (simp add: held_def)
  then show "cs_inv vec_slab vec_valid answered"
    by (simp only: cs_inv_def g) (simp add: answered_def vec_valid_def update_def)
  show "cs_abs vec_slab answered (Key 0) = Some (Live None [\<lparr>ret = 5, flags = 0\<rparr>])"
    by (simp add: cs_abs_def abs_map_def g key_as_usize_def abs_comp_def)
qed

theorem results_in_order_witness:
  "\<exists>s'. cs_result vec_slab (Key 0) answered = Inr (Some \<lparr>ret = 5, flags = 0\<rparr>, s', []) \<and>
     cs_abs vec_slab s' (Key 0) = None"
  using results_in_order [OF vec.slab_axioms answered_inv] by auto



subsection \<open>Slots\<close>

text \<open>C12: However the ring's direct-descriptor slots are acquired and released, no two holders
  ever have the same slot, a slot is refused only when all are held, and at most the
  configured number is out.\<close>

theorem direct_slots_exclusive:
  assumes "pool_run (sr_get wrap_direct_slot) (sr_remove wrap_direct_slot) (sr_new n) p hs"
  shows "distinct hs \<and> length hs \<le> unat n \<and> (sr_get wrap_direct_slot p = None \<longleftrightarrow> length hs = unat n)"
  using direct_pool.pool.run_held [OF assms sr_inv_new sr_live_new]
    direct_pool.pool.run_bound [OF assms sr_inv_new sr_live_new]
  by (simp add: sr_new_def)

theorem direct_slots_exclusive_witness:
  "sr_get wrap_direct_slot \<lparr>vacant = [], sr_len = 1, sr_size = 1\<rparr> = None"
proof -
  have "pool_run (sr_get wrap_direct_slot) (sr_remove wrap_direct_slot) (sr_new 1)
      \<lparr>vacant = [], sr_len = 1, sr_size = 1\<rparr> [DirectSlot (SlotKey 0)]"
    by (rule pool_run.acquire [OF pool_run.start]) (simp add: sr_new_def sr_get_def wrap_direct_slot_def)
  from direct_slots_exclusive [OF this] show ?thesis by simp
qed

text \<open>\<open>RingOptions::build\<close> gives a ring with nothing submitted and no slot given out, as
  large as the options ask; it panics only on a failed system call or when the sizes of the
  two file ranges overflow.\<close>

theorem build_gives_idle_ring:
  assumes "ring_env E valid pending uvalid" "ring_build E os opts st = (Inr r, st')"
  shows "ring_inv E valid pending uvalid r \<and> ring_abs E r = Map.empty \<and> pending (uring r) = {#} \<and>
    direct_files r = sr_new (opt_manual_direct_files opts) \<and> fixed_buffers r = sr_new (opt_fixed_buffers opts) \<and>
    buffer_groups r = sr_new (opt_buffer_groups opts)"
proof -
  have "\<exists>u. r = new_ring E opts u"
    using assms(2) by (simp only: ring_build_def Let_def bindR_Inr_iff prod.case_eq_if prod.inject) blast
  then show ?thesis using ring_env.build_sound [OF assms] by (auto simp: new_ring_def)
qed

theorem build_gives_idle_ring_witness:
  "ring_abs (script_env []) (idle_ring []) = Map.empty \<and> fixed_buffers (idle_ring []) = sr_new 256"
  using build_gives_idle_ring [OF scripted.ring_env_axioms idle_built, of "[]"] by (simp add: default_options_def)

text \<open>When \<open>set_limits\<close> reports success, the soft limit of every resource it handles is the
  larger of its old value and the hard limit, and the hard limit is unchanged.\<close>

theorem limits_are_raised:
  assumes "os_limits os limit_of" "set_limits os st = (Inr (), st')"
  shows "rlim_cur (limit_of st' res) = max (rlim_cur (limit_of st res)) (rlim_max (limit_of st res)) \<and>
    rlim_max (limit_of st' res) = rlim_max (limit_of st res)"
  using set_limits_raised [OF assms] by (simp add: raised_def)

theorem limits_are_raised_witness:
  "\<exists>st'. set_limits table_os (\<lambda>_. \<lparr>rlim_cur = 8, rlim_max = 64\<rparr>) = (Inr (), st') \<and>
     rlim_cur (st' RLIMIT_NOFILE) = 64"
proof -
  obtain st' where s: "set_limits table_os (\<lambda>_. \<lparr>rlim_cur = 8, rlim_max = 64\<rparr>) = (Inr (), st')"
    by (simp add: set_limits_def raise_limit_def table_os_def check_ret_def)
  have "os_limits table_os (\<lambda>st. st)" by (auto simp: os_limits_def table_os_def)
  from limits_are_raised [OF this s, of RLIMIT_NOFILE] show ?thesis
    using s by (simp add: max_def)
qed

end
