(* ===== verification/OpsRead.thy ===== *)
theory OpsRead
  imports Op
begin

section \<open>Reading (op/read.rs)\<close>

text \<open>
  \<open>Read\<close>, \<open>ReadFixed\<close>, \<open>ReadVectored\<close> and \<open>ReadVectoredExact\<close>, generic in the buffer's
  implementation \<open>D\<close>, in \<open>as_src\<close>, the source's \<open>AsSource\<close>, and for the fixed ones in \<open>slot\<close>,
  the buffer's \<open>FixedBuffer\<close>. The vectored operations keep a vector of \<open>iovec\<close>s: \<open>mem\<close> is
  the address the allocator returned for it, \<open>grow\<close> what a reallocation past its capacity
  returns, and \<open>fresh\<close> the address of the vector of cancellations \<open>cancel\<close> collects.
\<close>

definition u64_MAX :: u64 where
  "u64_MAX = - 1"

record iovec =
  iov_base :: ptr
  iov_len :: usize

type_synonym grow = "ptr \<Rightarrow> usize \<Rightarrow> ptr \<times> usize"

definition vec_with_capacity :: "ptr \<Rightarrow> usize \<Rightarrow> 'a vec" where
  "vec_with_capacity mem n = \<lparr>vec_ptr = mem, vec_data = [], vec_cap = n\<rparr>"

definition vec_append :: "grow \<Rightarrow> 'a vec \<Rightarrow> 'a \<Rightarrow> 'a vec" where
  "vec_append grow v x =
     (if length (vec_data v) < vec_cap v then v\<lparr>vec_data := vec_push (vec_data v) x\<rparr>
      else (let (p, c) = grow (vec_ptr v) (vec_cap v)
            in \<lparr>vec_ptr = p, vec_data = vec_push (vec_data v) x, vec_cap = c\<rparr>))"

definition iovec_of :: "'b stable_buffer \<Rightarrow> 'b \<Rightarrow> iovec" where
  "iovec_of D b = \<lparr>iov_base = sb_ptr D b, iov_len = sb_size D b\<rparr>"

text \<open>What a vector of buffers drops: every buffer, then its allocation.\<close>

definition bufs_release :: "'b stable_buffer \<Rightarrow> 'b vec \<Rightarrow> event list" where
  "bufs_release D v = concat (map (sb_drop D) (vec_data v)) @ vec_release v"

lemma vec_append_room:
  "length (vec_data v) < vec_cap v \<Longrightarrow> vec_append grow v x = v\<lparr>vec_data := vec_data v @ [x]\<rparr>"
  by (simp add: vec_append_def vec_push_def)

lemma vec_append_fits:
  "length (vec_data v) + length xs \<le> vec_cap v \<Longrightarrow>
    foldl (vec_append grow) v xs = v\<lparr>vec_data := vec_data v @ xs\<rparr>"
  by (induction xs arbitrary: v) (simp_all add: vec_append_room)

subsection \<open>Read\<close>

record 'b read_op =
  rd_buf :: 'b
  rd_src :: source
  rd_offset :: u64

definition read_new :: "('s \<Rightarrow> source) \<Rightarrow> 's \<Rightarrow> 'b \<Rightarrow> 'b read_op" where
  "read_new as_src src buf = \<lparr>rd_buf = buf, rd_src = as_src src, rd_offset = u64_MAX\<rparr>"

definition read_offset :: "u64 \<Rightarrow> 'b read_op \<Rightarrow> 'b read_op" where
  "read_offset off q = q\<lparr>rd_offset := off\<rparr>"

definition read_entry :: "'b stable_buffer \<Rightarrow> ptr \<Rightarrow> 'b read_op \<Rightarrow> sqe \<times> 'b read_op" where
  "read_entry D _ q =
     (sqe_build (OpRead (source_as_raw (rd_src q)) (At (sb_ptr D (rd_buf q)))
        (of_nat (sb_size D (rd_buf q))) (rd_offset q) None), q)"

definition read_result :: "'b read_op \<Rightarrow> ring_result \<Rightarrow> panic + ('b \<times> (io_error + usize))" where
  "read_result q res = mapR (\<lambda>x. (rd_buf q, x)) (expect_positive res)"

definition read_cancel :: "'b stable_buffer \<Rightarrow> 'b read_op \<Rightarrow> cancellation \<times> event list" where
  "read_cancel D q = (sb_cancel D (rd_buf q), [])"

definition read_op :: "'b stable_buffer \<Rightarrow> ('b read_op, 'b \<times> (io_error + usize), 'w) op_ops" where
  "read_op D = pure_op (read_entry D) read_result (read_cancel D) default_entry_cancel (\<lambda>q. sb_drop D (rd_buf q))"

subsection \<open>ReadFixed\<close>

record 'b read_fixed =
  rdf_buf :: 'b
  rdf_src :: source
  rdf_offset :: u64

definition read_fixed_new :: "('s \<Rightarrow> source) \<Rightarrow> 's \<Rightarrow> 'b \<Rightarrow> 'b read_fixed" where
  "read_fixed_new as_src src buf = \<lparr>rdf_buf = buf, rdf_src = as_src src, rdf_offset = u64_MAX\<rparr>"

definition read_fixed_offset :: "u64 \<Rightarrow> 'b read_fixed \<Rightarrow> 'b read_fixed" where
  "read_fixed_offset off q = q\<lparr>rdf_offset := off\<rparr>"

definition read_fixed_entry ::
    "'b stable_buffer \<Rightarrow> ('b \<Rightarrow> buffer_slot) \<Rightarrow> ptr \<Rightarrow> 'b read_fixed \<Rightarrow> sqe \<times> 'b read_fixed" where
  "read_fixed_entry D slot _ q =
     (sqe_build (OpReadFixed (source_as_raw (rdf_src q)) (At (sb_ptr D (rdf_buf q)))
        (of_nat (sb_size D (rdf_buf q))) (ucast (buffer_slot_index (slot (rdf_buf q)))) (rdf_offset q)), q)"

definition read_fixed_result :: "'b read_fixed \<Rightarrow> ring_result \<Rightarrow> panic + ('b \<times> (io_error + usize))" where
  "read_fixed_result q res = mapR (\<lambda>x. (rdf_buf q, x)) (expect_positive res)"

definition read_fixed_cancel :: "'b stable_buffer \<Rightarrow> 'b read_fixed \<Rightarrow> cancellation \<times> event list" where
  "read_fixed_cancel D q = (sb_cancel D (rdf_buf q), [])"

definition read_fixed_op ::
    "'b stable_buffer \<Rightarrow> ('b \<Rightarrow> buffer_slot) \<Rightarrow> ('b read_fixed, 'b \<times> (io_error + usize), 'w) op_ops" where
  "read_fixed_op D slot =
     pure_op (read_fixed_entry D slot) read_fixed_result (read_fixed_cancel D) default_entry_cancel
       (\<lambda>q. sb_drop D (rdf_buf q))"

subsection \<open>ReadVectored\<close>

record 'b read_vectored =
  rdv_bufs :: "'b vec"
  rdv_iovecs :: "iovec vec"
  rdv_src :: source
  rdv_offset :: u64

definition read_vectored_new :: "('s \<Rightarrow> source) \<Rightarrow> ptr \<Rightarrow> 's \<Rightarrow> 'b vec \<Rightarrow> 'b read_vectored" where
  "read_vectored_new as_src mem src bufs =
     \<lparr>rdv_bufs = bufs, rdv_iovecs = vec_with_capacity mem (length (vec_data bufs)), rdv_src = as_src src,
      rdv_offset = u64_MAX\<rparr>"

definition read_vectored_from_iter ::
    "('s \<Rightarrow> source) \<Rightarrow> ptr \<Rightarrow> ('b list \<Rightarrow> 'b vec) \<Rightarrow> 's \<Rightarrow> 'b list \<Rightarrow> 'b read_vectored" where
  "read_vectored_from_iter as_src mem collect src it = read_vectored_new as_src mem src (collect it)"

definition read_vectored_offset :: "u64 \<Rightarrow> 'b read_vectored \<Rightarrow> 'b read_vectored" where
  "read_vectored_offset off q = q\<lparr>rdv_offset := off\<rparr>"

definition read_vectored_entry ::
    "'b stable_buffer \<Rightarrow> grow \<Rightarrow> ptr \<Rightarrow> 'b read_vectored \<Rightarrow> sqe \<times> 'b read_vectored" where
  "read_vectored_entry D grow _ q =
     (let iovecs = foldl (vec_append grow) (rdv_iovecs q) (map (iovec_of D) (vec_data (rdv_bufs q)))
      in (sqe_build (OpReadv (source_as_raw (rdv_src q)) (At (vec_ptr iovecs))
            (of_nat (length (vec_data iovecs))) (rdv_offset q)), q\<lparr>rdv_iovecs := iovecs\<rparr>))"

definition read_vectored_result ::
    "'b read_vectored \<Rightarrow> ring_result \<Rightarrow> panic + ('b vec \<times> (io_error + usize))" where
  "read_vectored_result q res = mapR (\<lambda>x. (rdv_bufs q, x)) (expect_positive res)"

text \<open>\<open>cancel\<close> drains the buffers into cancellations and drops the two vectors.\<close>

definition read_vectored_cancel ::
    "'b stable_buffer \<Rightarrow> ptr \<Rightarrow> 'b read_vectored \<Rightarrow> cancellation \<times> event list" where
  "read_vectored_cancel D fresh q =
     (let cancels = map (sb_cancel D) (vec_data (rdv_bufs q))
      in (cancel_combine \<lparr>vec_ptr = fresh, vec_data = cancels, vec_cap = length cancels\<rparr>,
          vec_release (rdv_bufs q) @ vec_release (rdv_iovecs q)))"

definition read_vectored_op ::
    "'b stable_buffer \<Rightarrow> grow \<Rightarrow> ptr \<Rightarrow> ('b read_vectored, 'b vec \<times> (io_error + usize), 'w) op_ops" where
  "read_vectored_op D grow fresh =
     (pure_op (read_vectored_entry D grow) read_vectored_result (read_vectored_cancel D fresh) default_entry_cancel
       (\<lambda>q. bufs_release D (rdv_bufs q) @ vec_release (rdv_iovecs q)))
     \<lparr>op_scratch := (\<lambda>q. free_vec fresh (length (vec_data (rdv_bufs q))))\<rparr>"

subsection \<open>ReadVectoredExact\<close>

text \<open>The arrays are part of the operation: \<open>N\<close> is the length of the lists.\<close>

record 'b read_exact =
  rde_bufs :: "'b list"
  rde_iovecs :: "iovec list"
  rde_src :: source
  rde_offset :: u64

definition read_exact_new :: "('s \<Rightarrow> source) \<Rightarrow> 's \<Rightarrow> 'b list \<Rightarrow> 'b read_exact" where
  "read_exact_new as_src src bufs =
     \<lparr>rde_bufs = bufs, rde_iovecs = replicate (length bufs) \<lparr>iov_base = null_ptr, iov_len = 0\<rparr>,
      rde_src = as_src src, rde_offset = u64_MAX\<rparr>"

definition read_exact_offset :: "u64 \<Rightarrow> 'b read_exact \<Rightarrow> 'b read_exact" where
  "read_exact_offset off q = q\<lparr>rde_offset := off\<rparr>"

definition read_exact_entry :: "'b stable_buffer \<Rightarrow> ptr \<Rightarrow> 'b read_exact \<Rightarrow> sqe \<times> 'b read_exact" where
  "read_exact_entry D this q =
     (let iovecs = foldl (\<lambda>vs i. vs[i := iovec_of D (rde_bufs q ! i)]) (rde_iovecs q) [0..<length (rde_bufs q)]
      in (sqe_build (OpReadv (source_as_raw (rde_src q)) (FieldOf this ''iovecs'')
            (of_nat (length iovecs)) (rde_offset q)), q\<lparr>rde_iovecs := iovecs\<rparr>))"

definition read_exact_result :: "'b read_exact \<Rightarrow> ring_result \<Rightarrow> panic + ('b list \<times> (io_error + usize))" where
  "read_exact_result q res = mapR (\<lambda>x. (rde_bufs q, x)) (expect_positive res)"

definition read_exact_cancel :: "'b stable_buffer \<Rightarrow> ptr \<Rightarrow> 'b read_exact \<Rightarrow> cancellation \<times> event list" where
  "read_exact_cancel D fresh q =
     (let cancels = map (sb_cancel D) (rde_bufs q)
      in (cancel_combine \<lparr>vec_ptr = fresh, vec_data = cancels, vec_cap = length cancels\<rparr>, []))"

definition read_exact_op ::
    "'b stable_buffer \<Rightarrow> ptr \<Rightarrow> ('b read_exact, 'b list \<times> (io_error + usize), 'w) op_ops" where
  "read_exact_op D fresh =
     (pure_op (read_exact_entry D) read_exact_result (read_exact_cancel D fresh) default_entry_cancel
       (\<lambda>q. concat (map (sb_drop D) (rde_bufs q))))
     \<lparr>op_scratch := (\<lambda>q. free_vec fresh (length (rde_bufs q)))\<rparr>"

subsection \<open>The contract of reading operations\<close>

context sound_buffer
begin

lemma read_safe: "safe_op (read_op D) (\<lambda>_ q. wf (rd_buf q))"
  unfolding read_op_def
  by (rule safe_pure_opI)
    (auto simp: read_entry_def read_cancel_def cancel_drops in_self_def sqe_locs_def opcode_locs_def
      dest: default_entry_cancel_plain)

lemma read_fixed_safe: "safe_op (read_fixed_op D slot) (\<lambda>_ q. wf (rdf_buf q))"
  unfolding read_fixed_op_def
  by (rule safe_pure_opI)
    (auto simp: read_fixed_entry_def read_fixed_cancel_def cancel_drops in_self_def sqe_locs_def opcode_locs_def
      dest: default_entry_cancel_plain)

text \<open>The vectored operations release each buffer once.\<close>

lemma read_vectored_frees:
  assumes "list_all wf (vec_data (rdv_bufs q))"
  shows "frees_once (read_vectored_op D grow fresh) q"
proof -
  have "concat (map (\<lambda>b. drop_raw (sb_cancel D b)) bs) = concat (map (sb_drop D) bs)" if "list_all wf bs" for bs
    using that by (induction bs) (simp_all add: cancel_drops)
  from this [OF assms] show ?thesis
    by (simp add: frees_once_def read_vectored_op_def pure_op_def read_vectored_cancel_def Let_def bufs_release_def
        comp_def)
qed

lemma read_exact_frees:
  assumes "list_all wf (rde_bufs q)"
  shows "frees_once (read_exact_op D fresh) q"
proof -
  have "concat (map (\<lambda>b. drop_raw (sb_cancel D b)) bs) = concat (map (sb_drop D) bs)" if "list_all wf bs" for bs
    using that by (induction bs) (simp_all add: cancel_drops)
  from this [OF assms] show ?thesis
    by (simp add: frees_once_def read_exact_op_def pure_op_def read_exact_cancel_def Let_def comp_def)
qed

end

interpretation boxed_read: safe_op "read_op boxed_slice_buffer" "\<lambda>_ q. mem_ok (rd_buf q)"
  by (rule boxed.read_safe)

interpretation boxed_read_fixed: safe_op "read_fixed_op boxed_slice_buffer slot" "\<lambda>_ q. mem_ok (rdf_buf q)"
  by (rule boxed.read_fixed_safe)

text \<open>The entry of a vectored operation points into the vector \<open>cancel\<close> frees.\<close>

lemma read_vectored_entry_new:
  assumes "length (vec_data bufs) = n"
  shows "read_vectored_entry D grow this (read_vectored_new as_src mem src bufs) =
    (sqe_build (OpReadv (source_as_raw (as_src src)) (At mem) (of_nat n) u64_MAX),
     (read_vectored_new as_src mem src bufs)
       \<lparr>rdv_iovecs := \<lparr>vec_ptr = mem, vec_data = map (iovec_of D) (vec_data bufs), vec_cap = n\<rparr>\<rparr>)"
  using assms
  by (simp add: read_vectored_entry_def read_vectored_new_def vec_with_capacity_def vec_append_fits Let_def)

lemma read_exact_entry_new:
  "fst (read_exact_entry D this (read_exact_new as_src src bufs)) =
    sqe_build (OpReadv (source_as_raw (as_src src)) (FieldOf this ''iovecs'') (of_nat (length bufs)) u64_MAX)"
proof -
  have "length (foldl (\<lambda>vs i. vs[i := f i]) xs is) = length xs" for f :: "nat \<Rightarrow> iovec" and xs "is"
    by (induction "is" arbitrary: xs) simp_all
  then show ?thesis by (simp add: read_exact_entry_def read_exact_new_def Let_def)
qed

end
