(* ===== verification/OpsWrite.thy ===== *)
theory OpsWrite
  imports OpsRead
begin

section \<open>Writing (op/write.rs)\<close>

text \<open>
  \<open>Write\<close>, \<open>WriteFixed\<close>, \<open>WriteVectored\<close> and \<open>WriteVectoredExact\<close>, with the parameters of
  \<open>OpsRead\<close>.
\<close>

subsection \<open>Write\<close>

record 'b write_op =
  wr_buf :: 'b
  wr_src :: source
  wr_offset :: u64

definition write_new :: "('s \<Rightarrow> source) \<Rightarrow> 's \<Rightarrow> 'b \<Rightarrow> 'b write_op" where
  "write_new as_src src buf = \<lparr>wr_buf = buf, wr_src = as_src src, wr_offset = u64_MAX\<rparr>"

definition write_offset :: "u64 \<Rightarrow> 'b write_op \<Rightarrow> 'b write_op" where
  "write_offset off q = q\<lparr>wr_offset := off\<rparr>"

definition write_entry :: "'b stable_buffer \<Rightarrow> ptr \<Rightarrow> 'b write_op \<Rightarrow> sqe \<times> 'b write_op" where
  "write_entry D _ q =
     (sqe_build (OpWrite (source_as_raw (wr_src q)) (At (sb_ptr D (wr_buf q)))
        (of_nat (sb_size D (wr_buf q))) (wr_offset q)), q)"

definition write_result :: "'b write_op \<Rightarrow> ring_result \<Rightarrow> panic + ('b \<times> (io_error + usize))" where
  "write_result q res = mapR (\<lambda>x. (wr_buf q, x)) (expect_positive res)"

definition write_cancel :: "'b stable_buffer \<Rightarrow> 'b write_op \<Rightarrow> cancellation \<times> event list" where
  "write_cancel D q = (sb_cancel D (wr_buf q), [])"

definition write_op :: "'b stable_buffer \<Rightarrow> ('b write_op, 'b \<times> (io_error + usize), 'w) op_ops" where
  "write_op D = pure_op (write_entry D) write_result (write_cancel D) default_entry_cancel (\<lambda>q. sb_drop D (wr_buf q))"

subsection \<open>WriteFixed\<close>

record 'b write_fixed =
  wrf_buf :: 'b
  wrf_src :: source
  wrf_offset :: u64

definition write_fixed_new :: "('s \<Rightarrow> source) \<Rightarrow> 's \<Rightarrow> 'b \<Rightarrow> 'b write_fixed" where
  "write_fixed_new as_src src buf = \<lparr>wrf_buf = buf, wrf_src = as_src src, wrf_offset = u64_MAX\<rparr>"

definition write_fixed_offset :: "u64 \<Rightarrow> 'b write_fixed \<Rightarrow> 'b write_fixed" where
  "write_fixed_offset off q = q\<lparr>wrf_offset := off\<rparr>"

definition write_fixed_entry ::
    "'b stable_buffer \<Rightarrow> ('b \<Rightarrow> buffer_slot) \<Rightarrow> ptr \<Rightarrow> 'b write_fixed \<Rightarrow> sqe \<times> 'b write_fixed" where
  "write_fixed_entry D slot _ q =
     (sqe_build (OpWriteFixed (source_as_raw (wrf_src q)) (At (sb_ptr D (wrf_buf q)))
        (of_nat (sb_size D (wrf_buf q))) (ucast (buffer_slot_index (slot (wrf_buf q)))) (wrf_offset q)), q)"

definition write_fixed_result :: "'b write_fixed \<Rightarrow> ring_result \<Rightarrow> panic + ('b \<times> (io_error + usize))" where
  "write_fixed_result q res = mapR (\<lambda>x. (wrf_buf q, x)) (expect_positive res)"

definition write_fixed_cancel :: "'b stable_buffer \<Rightarrow> 'b write_fixed \<Rightarrow> cancellation \<times> event list" where
  "write_fixed_cancel D q = (sb_cancel D (wrf_buf q), [])"

definition write_fixed_op ::
    "'b stable_buffer \<Rightarrow> ('b \<Rightarrow> buffer_slot) \<Rightarrow> ('b write_fixed, 'b \<times> (io_error + usize), 'w) op_ops" where
  "write_fixed_op D slot =
     pure_op (write_fixed_entry D slot) write_fixed_result (write_fixed_cancel D) default_entry_cancel
       (\<lambda>q. sb_drop D (wrf_buf q))"

subsection \<open>WriteVectored\<close>

record 'b write_vectored =
  wrv_bufs :: "'b vec"
  wrv_iovecs :: "iovec vec"
  wrv_src :: source
  wrv_offset :: u64

definition write_vectored_new :: "('s \<Rightarrow> source) \<Rightarrow> ptr \<Rightarrow> 's \<Rightarrow> 'b vec \<Rightarrow> 'b write_vectored" where
  "write_vectored_new as_src mem src bufs =
     \<lparr>wrv_bufs = bufs, wrv_iovecs = vec_with_capacity mem (length (vec_data bufs)), wrv_src = as_src src,
      wrv_offset = u64_MAX\<rparr>"

definition write_vectored_from_iter ::
    "('s \<Rightarrow> source) \<Rightarrow> ptr \<Rightarrow> ('b list \<Rightarrow> 'b vec) \<Rightarrow> 's \<Rightarrow> 'b list \<Rightarrow> 'b write_vectored" where
  "write_vectored_from_iter as_src mem collect src it = write_vectored_new as_src mem src (collect it)"

definition write_vectored_offset :: "u64 \<Rightarrow> 'b write_vectored \<Rightarrow> 'b write_vectored" where
  "write_vectored_offset off q = q\<lparr>wrv_offset := off\<rparr>"

definition write_vectored_entry ::
    "'b stable_buffer \<Rightarrow> grow \<Rightarrow> ptr \<Rightarrow> 'b write_vectored \<Rightarrow> sqe \<times> 'b write_vectored" where
  "write_vectored_entry D grow _ q =
     (let iovecs = foldl (vec_append grow) (wrv_iovecs q) (map (iovec_of D) (vec_data (wrv_bufs q)))
      in (sqe_build (OpWritev (source_as_raw (wrv_src q)) (At (vec_ptr iovecs))
            (of_nat (length (vec_data iovecs))) (wrv_offset q)), q\<lparr>wrv_iovecs := iovecs\<rparr>))"

definition write_vectored_result ::
    "'b write_vectored \<Rightarrow> ring_result \<Rightarrow> panic + ('b vec \<times> (io_error + usize))" where
  "write_vectored_result q res = mapR (\<lambda>x. (wrv_bufs q, x)) (expect_positive res)"

text \<open>\<open>cancel\<close> drains the buffers into cancellations and drops the two vectors.\<close>

definition write_vectored_cancel ::
    "'b stable_buffer \<Rightarrow> ptr \<Rightarrow> 'b write_vectored \<Rightarrow> cancellation \<times> event list" where
  "write_vectored_cancel D fresh q =
     (let cancels = map (sb_cancel D) (vec_data (wrv_bufs q))
      in (cancel_combine \<lparr>vec_ptr = fresh, vec_data = cancels, vec_cap = length cancels\<rparr>,
          vec_release (wrv_bufs q) @ vec_release (wrv_iovecs q)))"

definition write_vectored_op ::
    "'b stable_buffer \<Rightarrow> grow \<Rightarrow> ptr \<Rightarrow> ('b write_vectored, 'b vec \<times> (io_error + usize), 'w) op_ops" where
  "write_vectored_op D grow fresh =
     (pure_op (write_vectored_entry D grow) write_vectored_result (write_vectored_cancel D fresh) default_entry_cancel
       (\<lambda>q. bufs_release D (wrv_bufs q) @ vec_release (wrv_iovecs q)))
     \<lparr>op_scratch := (\<lambda>q. free_vec fresh (length (vec_data (wrv_bufs q))))\<rparr>"

subsection \<open>WriteVectoredExact\<close>

text \<open>The arrays are part of the operation: \<open>N\<close> is the length of the lists.\<close>

record 'b write_exact =
  wre_bufs :: "'b list"
  wre_iovecs :: "iovec list"
  wre_src :: source
  wre_offset :: u64

definition write_exact_new :: "('s \<Rightarrow> source) \<Rightarrow> 's \<Rightarrow> 'b list \<Rightarrow> 'b write_exact" where
  "write_exact_new as_src src bufs =
     \<lparr>wre_bufs = bufs, wre_iovecs = replicate (length bufs) \<lparr>iov_base = null_ptr, iov_len = 0\<rparr>,
      wre_src = as_src src, wre_offset = u64_MAX\<rparr>"

definition write_exact_offset :: "u64 \<Rightarrow> 'b write_exact \<Rightarrow> 'b write_exact" where
  "write_exact_offset off q = q\<lparr>wre_offset := off\<rparr>"

definition write_exact_entry :: "'b stable_buffer \<Rightarrow> ptr \<Rightarrow> 'b write_exact \<Rightarrow> sqe \<times> 'b write_exact" where
  "write_exact_entry D this q =
     (let iovecs = foldl (\<lambda>vs i. vs[i := iovec_of D (wre_bufs q ! i)]) (wre_iovecs q) [0..<length (wre_bufs q)]
      in (sqe_build (OpWritev (source_as_raw (wre_src q)) (FieldOf this ''iovecs'')
            (of_nat (length iovecs)) (wre_offset q)), q\<lparr>wre_iovecs := iovecs\<rparr>))"

definition write_exact_result :: "'b write_exact \<Rightarrow> ring_result \<Rightarrow> panic + ('b list \<times> (io_error + usize))" where
  "write_exact_result q res = mapR (\<lambda>x. (wre_bufs q, x)) (expect_positive res)"

definition write_exact_cancel :: "'b stable_buffer \<Rightarrow> ptr \<Rightarrow> 'b write_exact \<Rightarrow> cancellation \<times> event list" where
  "write_exact_cancel D fresh q =
     (let cancels = map (sb_cancel D) (wre_bufs q)
      in (cancel_combine \<lparr>vec_ptr = fresh, vec_data = cancels, vec_cap = length cancels\<rparr>, []))"

definition write_exact_op ::
    "'b stable_buffer \<Rightarrow> ptr \<Rightarrow> ('b write_exact, 'b list \<times> (io_error + usize), 'w) op_ops" where
  "write_exact_op D fresh =
     (pure_op (write_exact_entry D) write_exact_result (write_exact_cancel D fresh) default_entry_cancel
       (\<lambda>q. concat (map (sb_drop D) (wre_bufs q))))
     \<lparr>op_scratch := (\<lambda>q. free_vec fresh (length (wre_bufs q)))\<rparr>"

subsection \<open>The contract of writing operations\<close>

context sound_buffer
begin

lemma write_safe: "safe_op (write_op D) (\<lambda>_ q. wf (wr_buf q))"
  unfolding write_op_def
  by (rule safe_pure_opI)
    (auto simp: write_entry_def write_cancel_def cancel_drops in_self_def sqe_locs_def opcode_locs_def
      dest: default_entry_cancel_plain)

lemma write_fixed_safe: "safe_op (write_fixed_op D slot) (\<lambda>_ q. wf (wrf_buf q))"
  unfolding write_fixed_op_def
  by (rule safe_pure_opI)
    (auto simp: write_fixed_entry_def write_fixed_cancel_def cancel_drops in_self_def sqe_locs_def opcode_locs_def
      dest: default_entry_cancel_plain)

text \<open>The vectored operations release each buffer once.\<close>

lemma write_vectored_frees:
  assumes "list_all wf (vec_data (wrv_bufs q))"
  shows "frees_once (write_vectored_op D grow fresh) q"
proof -
  have "concat (map (\<lambda>b. drop_raw (sb_cancel D b)) bs) = concat (map (sb_drop D) bs)" if "list_all wf bs" for bs
    using that by (induction bs) (simp_all add: cancel_drops)
  from this [OF assms] show ?thesis
    by (simp add: frees_once_def write_vectored_op_def pure_op_def write_vectored_cancel_def Let_def bufs_release_def
        comp_def)
qed

lemma write_exact_frees:
  assumes "list_all wf (wre_bufs q)"
  shows "frees_once (write_exact_op D fresh) q"
proof -
  have "concat (map (\<lambda>b. drop_raw (sb_cancel D b)) bs) = concat (map (sb_drop D) bs)" if "list_all wf bs" for bs
    using that by (induction bs) (simp_all add: cancel_drops)
  from this [OF assms] show ?thesis
    by (simp add: frees_once_def write_exact_op_def pure_op_def write_exact_cancel_def Let_def comp_def)
qed

end

interpretation boxed_write: safe_op "write_op boxed_slice_buffer" "\<lambda>_ q. mem_ok (wr_buf q)"
  by (rule boxed.write_safe)

interpretation boxed_write_fixed: safe_op "write_fixed_op boxed_slice_buffer slot" "\<lambda>_ q. mem_ok (wrf_buf q)"
  by (rule boxed.write_fixed_safe)

text \<open>The entry of a vectored operation points into the vector \<open>cancel\<close> frees.\<close>

lemma write_vectored_entry_new:
  assumes "length (vec_data bufs) = n"
  shows "write_vectored_entry D grow this (write_vectored_new as_src mem src bufs) =
    (sqe_build (OpWritev (source_as_raw (as_src src)) (At mem) (of_nat n) u64_MAX),
     (write_vectored_new as_src mem src bufs)
       \<lparr>wrv_iovecs := \<lparr>vec_ptr = mem, vec_data = map (iovec_of D) (vec_data bufs), vec_cap = n\<rparr>\<rparr>)"
  using assms
  by (simp add: write_vectored_entry_def write_vectored_new_def vec_with_capacity_def vec_append_fits Let_def)

lemma write_exact_entry_new:
  "fst (write_exact_entry D this (write_exact_new as_src src bufs)) =
    sqe_build (OpWritev (source_as_raw (as_src src)) (FieldOf this ''iovecs'') (of_nat (length bufs)) u64_MAX)"
proof -
  have "length (foldl (\<lambda>vs i. vs[i := f i]) xs is) = length xs" for f :: "nat \<Rightarrow> iovec" and xs "is"
    by (induction "is" arbitrary: xs) simp_all
  then show ?thesis by (simp add: write_exact_entry_def write_exact_new_def Let_def)
qed

end
