(* ===== verification/OpsFile.thy ===== *)
theory OpsFile
  imports OpsRead
begin

section \<open>Files (op/file.rs)\<close>

text \<open>
  The operations on files and directories. A path is its bytes; \<open>CString::new\<close> copies them to
  the allocation \<open>mem\<close> and refuses an interior nul, where the code unwraps. \<open>try_slot\<close> is the
  parameter of \<open>Source\<close> for \<open>DestinationSlot\<close>. The libc constants are those of Linux.
\<close>

type_synonym path = "u8 list"

definition path_is_absolute :: "path \<Rightarrow> bool" where
  "path_is_absolute p = (case p of [] \<Rightarrow> False | c # _ \<Rightarrow> c = 47)"

definition cstring_new :: "ptr \<Rightarrow> path \<Rightarrow> panic + cstring" where
  "cstring_new mem p = (if List.member p 0 then Inl UnwrapErr else Inr \<lparr>cstr_ptr = mem, cstr_bytes = p\<rparr>)"

definition AT_FDCWD :: i32 where "AT_FDCWD = - 100"

definition AT_EMPTY_PATH :: i32 where "AT_EMPTY_PATH = 0x1000"

subsection \<open>OpenAt\<close>

record openat =
  oa_dir :: i32
  oa_path :: cstring
  oa_flags :: i32
  oa_mode :: u32

definition openat_from_raw :: "i32 \<Rightarrow> cstring \<Rightarrow> i32 \<Rightarrow> u32 \<Rightarrow> openat" where
  "openat_from_raw dir path flgs mode = \<lparr>oa_dir = dir, oa_path = path, oa_flags = flgs, oa_mode = mode\<rparr>"

definition openat_relative_to :: "ptr \<Rightarrow> i32 \<Rightarrow> path \<Rightarrow> i32 \<Rightarrow> panic + openat" where
  "openat_relative_to mem dir path flgs = mapR (\<lambda>s. openat_from_raw dir s flgs 0) (cstring_new mem path)"

definition openat_relative :: "ptr \<Rightarrow> path \<Rightarrow> i32 \<Rightarrow> panic + openat" where
  "openat_relative mem path flgs = openat_relative_to mem AT_FDCWD path flgs"

definition openat_absolute :: "ptr \<Rightarrow> path \<Rightarrow> i32 \<Rightarrow> panic + openat" where
  "openat_absolute mem path flgs = openat_relative_to mem (- 1) path flgs"

definition openat_new :: "ptr \<Rightarrow> path \<Rightarrow> i32 \<Rightarrow> panic + openat" where
  "openat_new mem path flgs =
     (if path_is_absolute path then openat_absolute mem path flgs else openat_relative mem path flgs)"

definition openat_mode :: "u32 \<Rightarrow> openat \<Rightarrow> openat" where
  "openat_mode mode q = q\<lparr>oa_mode := mode\<rparr>"

definition openat_raw_entry :: "openat \<Rightarrow> dest_slot option \<Rightarrow> opcode" where
  "openat_raw_entry q slot = OpOpenAt (oa_dir q) (At (cstr_ptr (oa_path q))) (oa_flags q) (oa_mode q) slot"

definition openat_entry :: "ptr \<Rightarrow> openat \<Rightarrow> sqe \<times> openat" where
  "openat_entry _ q = (sqe_build (openat_raw_entry q None), q)"

definition openat_result :: "openat \<Rightarrow> ring_result \<Rightarrow> panic + (io_error + i32)" where
  "openat_result _ res = expect_fd res"

definition openat_cancel :: "openat \<Rightarrow> cancellation \<times> event list" where
  "openat_cancel q = (cancel_from_cstring (oa_path q), [])"

definition openat_op :: "(openat, io_error + i32, 'w) op_ops" where
  "openat_op = pure_op openat_entry openat_result openat_cancel default_entry_cancel (\<lambda>q. cstring_release (oa_path q))"

record openat_direct =
  oad_inner :: openat
  oad_slot :: dest_slot

definition openat_direct_from_raw :: "(u32 \<Rightarrow> bool) \<Rightarrow> openat \<Rightarrow> direct_slot \<Rightarrow> panic + openat_direct" where
  "openat_direct_from_raw try_slot inner slot =
     mapR (\<lambda>d. \<lparr>oad_inner = inner, oad_slot = d\<rparr>) (as_destination_slot try_slot slot)"

definition openat_direct :: "(u32 \<Rightarrow> bool) \<Rightarrow> ('d \<Rightarrow> direct_slot) \<Rightarrow> openat \<Rightarrow> 'd \<Rightarrow> panic + openat_direct" where
  "openat_direct try_slot as_slot q direct = openat_direct_from_raw try_slot q (as_slot direct)"

definition openat_direct_entry :: "ptr \<Rightarrow> openat_direct \<Rightarrow> sqe \<times> openat_direct" where
  "openat_direct_entry _ q = (sqe_build (openat_raw_entry (oad_inner q) (Some (oad_slot q))), q)"

definition openat_direct_result :: "openat_direct \<Rightarrow> ring_result \<Rightarrow> panic + (io_error + unit)" where
  "openat_direct_result _ res = expect_zero res"

definition openat_direct_cancel :: "openat_direct \<Rightarrow> cancellation \<times> event list" where
  "openat_direct_cancel q = openat_cancel (oad_inner q)"

definition openat_direct_op :: "(openat_direct, io_error + unit, 'w) op_ops" where
  "openat_direct_op =
     pure_op openat_direct_entry openat_direct_result openat_direct_cancel default_entry_cancel
       (\<lambda>q. cstring_release (oa_path (oad_inner q)))"

record openat_auto =
  oaa_inner :: openat

definition openat_auto :: "openat \<Rightarrow> openat_auto" where
  "openat_auto q = \<lparr>oaa_inner = q\<rparr>"

definition openat_auto_entry :: "ptr \<Rightarrow> openat_auto \<Rightarrow> sqe \<times> openat_auto" where
  "openat_auto_entry _ q = (sqe_build (openat_raw_entry (oaa_inner q) (Some AutoTarget)), q)"

definition openat_auto_result :: "openat_auto \<Rightarrow> ring_result \<Rightarrow> panic + (io_error + direct_auto_fd)" where
  "openat_auto_result _ res = expect_direct res"

definition openat_auto_cancel :: "openat_auto \<Rightarrow> cancellation \<times> event list" where
  "openat_auto_cancel q = openat_cancel (oaa_inner q)"

definition openat_auto_op :: "(openat_auto, io_error + direct_auto_fd, 'w) op_ops" where
  "openat_auto_op =
     pure_op openat_auto_entry openat_auto_result openat_auto_cancel default_entry_cancel
       (\<lambda>q. cstring_release (oa_path (oaa_inner q)))"

subsection \<open>Close and FSync\<close>

record close_op =
  cl_src :: source

definition close_new :: "('s \<Rightarrow> source) \<Rightarrow> 's \<Rightarrow> close_op" where
  "close_new as_src src = \<lparr>cl_src = as_src src\<rparr>"

definition close_entry :: "ptr \<Rightarrow> close_op \<Rightarrow> sqe \<times> close_op" where
  "close_entry _ q = (sqe_build (OpClose (source_as_raw (cl_src q))), q)"

definition close_result :: "close_op \<Rightarrow> ring_result \<Rightarrow> panic + (io_error + unit)" where
  "close_result _ res = expect_zero res"

definition close_ops :: "(close_op, io_error + unit, 'w) op_ops" where
  "close_ops = pure_op close_entry close_result (default_cancel no_drop) no_entry_cancel no_drop"

record fsync =
  fs_src :: source
  fs_meta :: bool

definition fsync_new :: "('s \<Rightarrow> source) \<Rightarrow> 's \<Rightarrow> fsync" where
  "fsync_new as_src src = \<lparr>fs_src = as_src src, fs_meta = False\<rparr>"

definition fsync_sync_meta :: "fsync \<Rightarrow> fsync" where
  "fsync_sync_meta q = q\<lparr>fs_meta := True\<rparr>"

definition fsync_entry :: "ptr \<Rightarrow> fsync \<Rightarrow> sqe \<times> fsync" where
  "fsync_entry _ q =
     (let flag = (if fs_meta q then FsyncAll else FsyncDatasync)
      in (sqe_build (OpFsync (source_as_raw (fs_src q)) flag), q))"

definition fsync_result :: "fsync \<Rightarrow> ring_result \<Rightarrow> panic + (io_error + unit)" where
  "fsync_result _ res = expect_zero res"

definition fsync_op :: "(fsync, io_error + unit, 'w) op_ops" where
  "fsync_op = pure_op fsync_entry fsync_result (default_cancel no_drop) default_entry_cancel no_drop"

subsection \<open>Statx and MkDirAt\<close>

text \<open>\<open>stats\<close> is a box the kernel fills; its address stands for it.\<close>

record statx =
  st_dir :: i32
  st_mask :: u32
  st_stats :: ptr

definition statx_new :: "ptr \<Rightarrow> i32 \<Rightarrow> u32 \<Rightarrow> statx" where
  "statx_new mem fd bits = \<lparr>st_dir = fd, st_mask = bits, st_stats = mem\<rparr>"

definition statx_entry :: "ptr \<Rightarrow> statx \<Rightarrow> sqe \<times> statx" where
  "statx_entry _ q =
     (sqe_build (OpStatx (st_dir q) (StaticStr []) (At (st_stats q)) AT_EMPTY_PATH (st_mask q)), q)"

definition statx_result :: "statx \<Rightarrow> ring_result \<Rightarrow> panic + (io_error + ptr)" where
  "statx_result q res = mapR (mapR (\<lambda>_. st_stats q)) (expect_zero res)"

definition statx_cancel :: "statx \<Rightarrow> cancellation \<times> event list" where
  "statx_cancel q = (cancel_from_box (st_stats q), [])"

definition statx_op :: "(statx, io_error + ptr, 'w) op_ops" where
  "statx_op = pure_op statx_entry statx_result statx_cancel default_entry_cancel (\<lambda>q. [Freed (AllocBox (st_stats q))])"

record mkdirat =
  mk_dir :: i32
  mk_path :: cstring
  mk_mode :: u32

definition mkdirat_from_raw :: "i32 \<Rightarrow> cstring \<Rightarrow> u32 \<Rightarrow> mkdirat" where
  "mkdirat_from_raw dir path mode = \<lparr>mk_dir = dir, mk_path = path, mk_mode = mode\<rparr>"

definition mkdirat_relative_to :: "ptr \<Rightarrow> i32 \<Rightarrow> path \<Rightarrow> panic + mkdirat" where
  "mkdirat_relative_to mem dir path = mapR (\<lambda>s. mkdirat_from_raw dir s 0) (cstring_new mem path)"

definition mkdirat_relative :: "ptr \<Rightarrow> path \<Rightarrow> panic + mkdirat" where
  "mkdirat_relative mem path = mkdirat_relative_to mem AT_FDCWD path"

definition mkdirat_absolute :: "ptr \<Rightarrow> path \<Rightarrow> panic + mkdirat" where
  "mkdirat_absolute mem path = mkdirat_relative_to mem (- 1) path"

definition mkdirat_new :: "ptr \<Rightarrow> path \<Rightarrow> panic + mkdirat" where
  "mkdirat_new mem path = (if path_is_absolute path then mkdirat_absolute mem path else mkdirat_relative mem path)"

definition mkdirat_mode :: "u32 \<Rightarrow> mkdirat \<Rightarrow> mkdirat" where
  "mkdirat_mode mode q = q\<lparr>mk_mode := mode\<rparr>"

definition mkdirat_entry :: "ptr \<Rightarrow> mkdirat \<Rightarrow> sqe \<times> mkdirat" where
  "mkdirat_entry _ q = (sqe_build (OpMkDirAt (mk_dir q) (At (cstr_ptr (mk_path q))) (mk_mode q)), q)"

definition mkdirat_result :: "mkdirat \<Rightarrow> ring_result \<Rightarrow> panic + (io_error + unit)" where
  "mkdirat_result _ res = expect_zero res"

definition mkdirat_cancel :: "mkdirat \<Rightarrow> cancellation \<times> event list" where
  "mkdirat_cancel q = (cancel_from_cstring (mk_path q), [])"

definition mkdirat_op :: "(mkdirat, io_error + unit, 'w) op_ops" where
  "mkdirat_op = pure_op mkdirat_entry mkdirat_result mkdirat_cancel default_entry_cancel (\<lambda>q. cstring_release (mk_path q))"

subsection \<open>FTruncate, FAdvise and FAllocate\<close>

record ftruncate =
  ft_src :: source
  ft_len :: usize

definition ftruncate_new :: "('s \<Rightarrow> source) \<Rightarrow> 's \<Rightarrow> usize \<Rightarrow> ftruncate" where
  "ftruncate_new as_src src n = \<lparr>ft_src = as_src src, ft_len = n\<rparr>"

definition ftruncate_entry :: "ptr \<Rightarrow> ftruncate \<Rightarrow> sqe \<times> ftruncate" where
  "ftruncate_entry _ q = (sqe_build (OpFtruncate (source_as_raw (ft_src q)) (of_nat (ft_len q))), q)"

definition ftruncate_result :: "ftruncate \<Rightarrow> ring_result \<Rightarrow> panic + (io_error + unit)" where
  "ftruncate_result _ res = expect_zero res"

definition ftruncate_op :: "(ftruncate, io_error + unit, 'w) op_ops" where
  "ftruncate_op = pure_op ftruncate_entry ftruncate_result (default_cancel no_drop) default_entry_cancel no_drop"

record 'r fadvise =
  fa_src :: source
  fa_advice :: i32
  fa_range :: 'r

definition fadvise_new :: "('s \<Rightarrow> source) \<Rightarrow> 's \<Rightarrow> i32 \<Rightarrow> unit fadvise" where
  "fadvise_new as_src src advice = \<lparr>fa_src = as_src src, fa_advice = advice, fa_range = ()\<rparr>"

definition fadvise_range :: "'r \<Rightarrow> unit fadvise \<Rightarrow> 'r fadvise" where
  "fadvise_range rng q = \<lparr>fa_src = fa_src q, fa_advice = fa_advice q, fa_range = rng\<rparr>"

definition fadvise_entry :: "'r range_bounds \<Rightarrow> ptr \<Rightarrow> 'r fadvise \<Rightarrow> panic + (sqe \<times> 'r fadvise)" where
  "fadvise_entry rb _ q =
     bindR (case start_bound rb (fa_range q) of
              Included i \<Rightarrow> Inr i | Excluded i \<Rightarrow> usize_add i 1 | Unbounded \<Rightarrow> Inr 0) (\<lambda>offset.
     bindR (case end_bound rb (fa_range q) of
              Included i \<Rightarrow> usize_add i 1 | Excluded i \<Rightarrow> Inr i | Unbounded \<Rightarrow> Inr 0) (\<lambda>n.
     Inr (sqe_build (OpFadvise (source_as_raw (fa_src q)) (of_nat n) (fa_advice q) (of_nat offset)), q)))"

definition fadvise_result :: "'r fadvise \<Rightarrow> ring_result \<Rightarrow> panic + (io_error + unit)" where
  "fadvise_result _ res = expect_zero res"

definition fadvise_op :: "'r range_bounds \<Rightarrow> ('r fadvise, io_error + unit, 'w) op_ops" where
  "fadvise_op rb =
     (pure_op (\<lambda>_ q. (sqe_build OpNop, q)) fadvise_result (default_cancel no_drop) no_entry_cancel no_drop)
     \<lparr>op_entry := (\<lambda>this q w. mapR (\<lambda>(e, q'). (e, q', w)) (fadvise_entry rb this q))\<rparr>"

record fallocate =
  fl_src :: source
  fl_size :: usize
  fl_offset :: usize

definition fallocate_new :: "('s \<Rightarrow> source) \<Rightarrow> 's \<Rightarrow> usize \<Rightarrow> fallocate" where
  "fallocate_new as_src src n = \<lparr>fl_src = as_src src, fl_size = n, fl_offset = 0\<rparr>"

definition fallocate_offset :: "usize \<Rightarrow> fallocate \<Rightarrow> fallocate" where
  "fallocate_offset off q = q\<lparr>fl_offset := off\<rparr>"

definition fallocate_entry :: "ptr \<Rightarrow> fallocate \<Rightarrow> sqe \<times> fallocate" where
  "fallocate_entry _ q =
     (sqe_build (OpFallocate (source_as_raw (fl_src q)) (of_nat (fl_size q)) (of_nat (fl_offset q))), q)"

definition fallocate_result :: "fallocate \<Rightarrow> ring_result \<Rightarrow> panic + (io_error + unit)" where
  "fallocate_result _ res = expect_zero res"

definition fallocate_op :: "(fallocate, io_error + unit, 'w) op_ops" where
  "fallocate_op = pure_op fallocate_entry fallocate_result (default_cancel no_drop) no_entry_cancel no_drop"

subsection \<open>The contract of file operations\<close>

lemmas op_plain_simps = in_self_def sqe_locs_def opcode_locs_def default_cancel_def no_drop_def

interpretation openat: live_op openat_op "\<lambda>_ _. True"
  unfolding openat_op_def
  by (rule live_pure_opI)
    (auto simp: openat_entry_def openat_cancel_def openat_raw_entry_def op_plain_simps dest: default_entry_cancel_plain)

interpretation openat_direct: live_op openat_direct_op "\<lambda>_ _. True"
  unfolding openat_direct_op_def
  by (rule live_pure_opI)
    (auto simp: openat_direct_entry_def openat_direct_cancel_def openat_cancel_def openat_raw_entry_def
      op_plain_simps dest: default_entry_cancel_plain)

interpretation openat_auto: live_op openat_auto_op "\<lambda>_ _. True"
  unfolding openat_auto_op_def
  by (rule live_pure_opI)
    (auto simp: openat_auto_entry_def openat_auto_cancel_def openat_cancel_def openat_raw_entry_def
      op_plain_simps dest: default_entry_cancel_plain)

interpretation close: safe_op close_ops "\<lambda>_ _. True"
  unfolding close_ops_def
  by (rule safe_pure_opI) (auto simp: close_entry_def op_plain_simps dest: no_entry_cancel_plain)

interpretation fsync: safe_op fsync_op "\<lambda>_ _. True"
  unfolding fsync_op_def
  by (rule safe_pure_opI) (auto simp: fsync_entry_def op_plain_simps dest: default_entry_cancel_plain)

interpretation statx: safe_op statx_op "\<lambda>_ _. True"
  unfolding statx_op_def
  by (rule safe_pure_opI)
    (auto simp: statx_entry_def statx_cancel_def op_plain_simps dest: default_entry_cancel_plain)

interpretation mkdirat: live_op mkdirat_op "\<lambda>_ _. True"
  unfolding mkdirat_op_def
  by (rule live_pure_opI)
    (auto simp: mkdirat_entry_def mkdirat_cancel_def op_plain_simps dest: default_entry_cancel_plain)

interpretation ftruncate: safe_op ftruncate_op "\<lambda>_ _. True"
  unfolding ftruncate_op_def
  by (rule safe_pure_opI) (auto simp: ftruncate_entry_def op_plain_simps dest: default_entry_cancel_plain)

interpretation fadvise: safe_op "fadvise_op rb" "\<lambda>_ _. True"
  by unfold_locales
    (auto simp: fadvise_op_def pure_op_def fadvise_entry_def bindR_Inr_iff mapR_Inr_iff keeps_alive_def
      frees_once_def op_plain_simps no_entry_cancel_def)

interpretation fallocate: safe_op fallocate_op "\<lambda>_ _. True"
  unfolding fallocate_op_def
  by (rule safe_pure_opI) (auto simp: fallocate_entry_def op_plain_simps dest: no_entry_cancel_plain)

end
