(* ===== verification/Addr.thy ===== *)
theory Addr
  imports Limits Buffer
begin

section \<open>Socket addresses (util.rs)\<close>

text \<open>
  \<open>SocketAddrCRepr\<close> is a C union of \<open>sockaddr\<close>, \<open>sockaddr_in\<close> and \<open>sockaddr_in6\<close>: it is kept
  as its 28 bytes, with the offsets of \<open>libc\<close>'s definitions on Linux (family at 0, port at 2;
  for IPv4 the address at 4; for IPv6 the flow information at 4, the address at 8 and the
  scope at 24). The conversions to and from native order are those of a little-endian
  machine; the port is stored in network order.
\<close>

datatype socket_addr =
    V4 "u8 list" u16
  | V6 "u8 list" u16 u32 u32

definition AF_INET :: u16 where "AF_INET = 2"

definition AF_INET6 :: u16 where "AF_INET6 = 10"

type_synonym addr_repr = "u8 list"

definition repr_size :: usize where "repr_size = 28"

definition sockaddr_in_size :: usize where "sockaddr_in_size = 16"

definition sockaddr_in6_size :: usize where "sockaddr_in6_size = 28"

definition ne16 :: "u16 \<Rightarrow> u8 list" where
  "ne16 v = [ucast v, ucast (drop_bit 8 v)]"

definition of_ne16 :: "u8 list \<Rightarrow> u16" where
  "of_ne16 bs = ucast (bs ! 0) OR push_bit 8 (ucast (bs ! 1))"

definition swap16 :: "u16 \<Rightarrow> u16" where
  "swap16 v = push_bit 8 v OR drop_bit 8 v"

definition ne32 :: "u32 \<Rightarrow> u8 list" where
  "ne32 v = [ucast v, ucast (drop_bit 8 v), ucast (drop_bit 16 v), ucast (drop_bit 24 v)]"

definition of_ne32 :: "u8 list \<Rightarrow> u32" where
  "of_ne32 bs = ucast (bs ! 0) OR push_bit 8 (ucast (bs ! 1)) OR push_bit 16 (ucast (bs ! 2)) OR
     push_bit 24 (ucast (bs ! 3))"

definition field :: "nat \<Rightarrow> nat \<Rightarrow> addr_repr \<Rightarrow> u8 list" where
  "field off n r = take n (drop off r)"

text \<open>\<open>SocketAddrV4\<close> and \<open>SocketAddrV6\<close> hold 4 and 16 octets.\<close>

definition addr_wf :: "socket_addr \<Rightarrow> bool" where
  "addr_wf a = (case a of V4 os _ \<Rightarrow> length os = 4 | V6 os _ _ _ \<Rightarrow> length os = 16)"

definition is_ipv4 :: "socket_addr \<Rightarrow> bool" where
  "is_ipv4 a = (case a of V4 _ _ \<Rightarrow> True | V6 _ _ _ _ \<Rightarrow> False)"

definition into_raw_addr :: "socket_addr \<Rightarrow> addr_repr \<times> u32" where
  "into_raw_addr a =
     (case a of
        V4 os port \<Rightarrow>
          (ne16 AF_INET @ ne16 (swap16 port) @ ne32 (of_ne32 os) @ replicate 8 0 @ replicate 12 0,
           of_nat sockaddr_in_size)
      | V6 os port flow scope \<Rightarrow>
          (ne16 AF_INET6 @ ne16 (swap16 port) @ ne32 flow @ os @ ne32 scope, of_nat sockaddr_in6_size))"

definition from_raw_addr :: "addr_repr \<Rightarrow> u32 \<Rightarrow> panic + socket_addr" where
  "from_raw_addr r n =
     (if of_ne16 (field 0 2 r) = AF_INET then
        (if unat n = sockaddr_in_size
         then Inr (V4 (ne32 (of_ne32 (field 4 4 r))) (swap16 (of_ne16 (field 2 2 r))))
         else Inl AssertFailed)
      else if of_ne16 (field 0 2 r) = AF_INET6 then
        (if unat n = sockaddr_in6_size
         then Inr (V6 (field 8 16 r) (swap16 (of_ne16 (field 2 2 r))) (of_ne32 (field 4 4 r)) (of_ne32 (field 24 4 r)))
         else Inl AssertFailed)
      else Inl Unreachable)"

subsection \<open>Socket names\<close>

text \<open>
  \<open>libc::getsockname\<close> and \<open>libc::getpeername\<close> are the parameter \<open>call\<close>: given the descriptor
  and the length of the buffer it returns its status, what it wrote and the new length.
\<close>

definition sock_name ::
    "(i32 \<Rightarrow> u32 \<Rightarrow> i32 \<times> addr_repr \<times> u32) \<Rightarrow> io_error \<Rightarrow> i32 \<Rightarrow> panic + (io_error + socket_addr)" where
  "sock_name call err sock =
     (let (r, addr, n) = call sock (of_nat repr_size)
      in case check_ret err r of
           Inl e \<Rightarrow> Inr (Inl e)
         | Inr _ \<Rightarrow> mapR Inr (from_raw_addr addr n))"

definition getsockname ::
    "(i32 \<Rightarrow> u32 \<Rightarrow> i32 \<times> addr_repr \<times> u32) \<Rightarrow> io_error \<Rightarrow> i32 \<Rightarrow> panic + (io_error + socket_addr)" where
  "getsockname libc_getsockname err sock = sock_name libc_getsockname err sock"

definition getpeername ::
    "(i32 \<Rightarrow> u32 \<Rightarrow> i32 \<times> addr_repr \<times> u32) \<Rightarrow> io_error \<Rightarrow> i32 \<Rightarrow> panic + (io_error + socket_addr)" where
  "getpeername libc_getpeername err sock = sock_name libc_getpeername err sock"

subsection \<open>Round trips\<close>

lemma swap16_swap16 [simp]: "swap16 (swap16 v) = v"
  by (rule bit_word_eqI)
    (auto simp: swap16_def bit_or_iff bit_push_bit_iff bit_drop_bit_eq)

lemma of_ne16_ne16 [simp]: "of_ne16 (ne16 v) = v"
  by (rule bit_word_eqI)
    (auto simp: of_ne16_def ne16_def bit_or_iff bit_push_bit_iff bit_drop_bit_eq bit_ucast_iff)

lemma of_ne32_ne32 [simp]: "of_ne32 (ne32 v) = v"
proof (rule bit_word_eqI)
  fix n assume n: "n < LENGTH(32)"
  consider "n < 8" | "8 \<le> n" "n < 16" | "16 \<le> n" "n < 24" | "24 \<le> n" by linarith
  then show "bit (of_ne32 (ne32 v)) n = bit v n"
    using n by cases (auto simp: of_ne32_def ne32_def bit_or_iff bit_push_bit_iff bit_drop_bit_eq bit_ucast_iff)
qed

lemma ne32_of_ne32:
  assumes "length os = 4"
  shows "ne32 (of_ne32 os) = os"
proof -
  obtain a b c d where os: "os = [a, b, c, d]"
    using assms by (auto simp: numeral_eq_Suc length_Suc_conv)
  show ?thesis
    unfolding os ne32_def of_ne32_def
    by (simp, intro conjI; rule bit_word_eqI)
      (auto simp: bit_or_iff bit_push_bit_iff bit_drop_bit_eq bit_ucast_iff dest: bit_imp_le_length)
qed

lemma length_ne [simp]: "length (ne16 v) = 2" "length (ne32 w) = 4"
  by (simp_all add: ne16_def ne32_def)

lemma raw_addr_roundtrip:
  assumes "addr_wf a"
  shows "from_raw_addr (fst (into_raw_addr a)) (snd (into_raw_addr a)) = Inr a"
proof (cases a)
  case (V4 os port)
  then have l: "length os = 4" using assms by (simp add: addr_wf_def)
  have f: "field 0 2 (fst (into_raw_addr a)) = ne16 AF_INET" "field 2 2 (fst (into_raw_addr a)) = ne16 (swap16 port)"
    "field 4 4 (fst (into_raw_addr a)) = ne32 (of_ne32 os)"
    by (simp_all add: V4 into_raw_addr_def field_def)
  show ?thesis
    unfolding from_raw_addr_def f using V4 l
    by (simp add: into_raw_addr_def ne32_of_ne32 sockaddr_in_size_def)
next
  case (V6 os port flow scope)
  then have l: "length os = 16" using assms by (simp add: addr_wf_def)
  have f: "field 0 2 (fst (into_raw_addr a)) = ne16 AF_INET6" "field 2 2 (fst (into_raw_addr a)) = ne16 (swap16 port)"
    "field 4 4 (fst (into_raw_addr a)) = ne32 flow" "field 8 16 (fst (into_raw_addr a)) = os"
    "field 24 4 (fst (into_raw_addr a)) = ne32 scope"
    using l by (simp_all add: V6 into_raw_addr_def field_def)
  show ?thesis
    unfolding from_raw_addr_def f using V6 l
    by (simp add: into_raw_addr_def sockaddr_in6_size_def AF_INET_def AF_INET6_def)
qed

lemma raw_addr_length: "addr_wf a \<Longrightarrow> length (fst (into_raw_addr a)) = repr_size \<and> unat (snd (into_raw_addr a)) \<le> repr_size"
  by (cases a) (simp_all add: addr_wf_def into_raw_addr_def repr_size_def sockaddr_in_size_def sockaddr_in6_size_def)

end
