(* ===== verification/OpsNet.thy ===== *)
theory OpsNet
  imports OpsFile Addr
begin

section \<open>Sockets (op/net.rs)\<close>

text \<open>
  \<open>Bind\<close> and \<open>Connect\<close> keep the address in the operation itself and pass a pointer to it.
  \<open>Accept\<close> boxes the address and its length for the kernel to fill; \<open>uninit\<close> is what the box
  holds before, and \<open>accept_result\<close> reads the operation as the kernel left it.
\<close>

definition SOCK_STREAM :: i32 where "SOCK_STREAM = 1"

record socket =
  so_domain :: i32
  so_typ :: i32
  so_proto :: i32

definition socket_new :: "i32 \<Rightarrow> i32 \<Rightarrow> socket" where
  "socket_new domain typ = \<lparr>so_domain = domain, so_typ = typ, so_proto = 0\<rparr>"

definition socket_stream_from_addr :: "socket_addr \<Rightarrow> socket" where
  "socket_stream_from_addr addr = socket_new (if is_ipv4 addr then ucast AF_INET else ucast AF_INET6) SOCK_STREAM"

definition socket_proto :: "i32 \<Rightarrow> socket \<Rightarrow> socket" where
  "socket_proto proto q = q\<lparr>so_proto := proto\<rparr>"

definition socket_entry_raw :: "socket \<Rightarrow> dest_slot option \<Rightarrow> opcode" where
  "socket_entry_raw q slot = OpSocket (so_domain q) (so_typ q) (so_proto q) slot"

definition socket_entry :: "ptr \<Rightarrow> socket \<Rightarrow> sqe \<times> socket" where
  "socket_entry _ q = (sqe_build (socket_entry_raw q None), q)"

definition socket_result :: "socket \<Rightarrow> ring_result \<Rightarrow> panic + (io_error + i32)" where
  "socket_result _ res = expect_fd res"

definition socket_op :: "(socket, io_error + i32, 'w) op_ops" where
  "socket_op = pure_op socket_entry socket_result (default_cancel no_drop) no_entry_cancel no_drop"

record socket_fixed =
  sof_inner :: socket
  sof_slot :: dest_slot

definition socket_fixed_from_raw :: "(u32 \<Rightarrow> bool) \<Rightarrow> socket \<Rightarrow> direct_slot \<Rightarrow> panic + socket_fixed" where
  "socket_fixed_from_raw try_slot q slot =
     mapR (\<lambda>d. \<lparr>sof_inner = q, sof_slot = d\<rparr>) (as_destination_slot try_slot slot)"

definition socket_fixed :: "(u32 \<Rightarrow> bool) \<Rightarrow> ('d \<Rightarrow> direct_slot) \<Rightarrow> socket \<Rightarrow> 'd \<Rightarrow> panic + socket_fixed" where
  "socket_fixed try_slot as_slot q direct = socket_fixed_from_raw try_slot q (as_slot direct)"

definition socket_fixed_entry :: "ptr \<Rightarrow> socket_fixed \<Rightarrow> sqe \<times> socket_fixed" where
  "socket_fixed_entry _ q = (sqe_build (socket_entry_raw (sof_inner q) (Some (sof_slot q))), q)"

definition socket_fixed_result :: "socket_fixed \<Rightarrow> ring_result \<Rightarrow> panic + (io_error + unit)" where
  "socket_fixed_result _ res = expect_zero res"

definition socket_fixed_op :: "(socket_fixed, io_error + unit, 'w) op_ops" where
  "socket_fixed_op = pure_op socket_fixed_entry socket_fixed_result (default_cancel no_drop) no_entry_cancel no_drop"

record socket_auto =
  soa_inner :: socket

definition socket_direct :: "socket \<Rightarrow> socket_auto" where
  "socket_direct q = \<lparr>soa_inner = q\<rparr>"

definition socket_auto_entry :: "ptr \<Rightarrow> socket_auto \<Rightarrow> sqe \<times> socket_auto" where
  "socket_auto_entry _ q = (sqe_build (socket_entry_raw (soa_inner q) (Some AutoTarget)), q)"

definition socket_auto_result :: "socket_auto \<Rightarrow> ring_result \<Rightarrow> panic + (io_error + direct_auto_fd)" where
  "socket_auto_result _ res = expect_direct res"

definition socket_auto_op :: "(socket_auto, io_error + direct_auto_fd, 'w) op_ops" where
  "socket_auto_op = pure_op socket_auto_entry socket_auto_result (default_cancel no_drop) no_entry_cancel no_drop"

subsection \<open>Bind, Listen and Connect\<close>

record bind_op =
  bi_src :: source
  bi_addr :: addr_repr
  bi_len :: u32

definition bind_new :: "('s \<Rightarrow> source) \<Rightarrow> 's \<Rightarrow> socket_addr \<Rightarrow> bind_op" where
  "bind_new as_src src addr =
     (let (raw, n) = into_raw_addr addr in \<lparr>bi_src = as_src src, bi_addr = raw, bi_len = n\<rparr>)"

definition bind_entry :: "ptr \<Rightarrow> bind_op \<Rightarrow> sqe \<times> bind_op" where
  "bind_entry this q = (sqe_build (OpBind (source_as_raw (bi_src q)) (FieldOf this ''addr'') (bi_len q)), q)"

definition bind_result :: "bind_op \<Rightarrow> ring_result \<Rightarrow> panic + (io_error + unit)" where
  "bind_result _ res = expect_zero res"

definition bind_ops :: "(bind_op, io_error + unit, 'w) op_ops" where
  "bind_ops = pure_op bind_entry bind_result (default_cancel no_drop) no_entry_cancel no_drop"

record listen_op =
  li_src :: source
  li_backlog :: u32

definition listen_new :: "('s \<Rightarrow> source) \<Rightarrow> 's \<Rightarrow> u32 \<Rightarrow> listen_op" where
  "listen_new as_src src backlog = \<lparr>li_src = as_src src, li_backlog = backlog\<rparr>"

definition listen_entry :: "ptr \<Rightarrow> listen_op \<Rightarrow> sqe \<times> listen_op" where
  "listen_entry _ q = (sqe_build (OpListen (source_as_raw (li_src q)) (li_backlog q)), q)"

definition listen_result :: "listen_op \<Rightarrow> ring_result \<Rightarrow> panic + (io_error + unit)" where
  "listen_result _ res = expect_zero res"

definition listen_ops :: "(listen_op, io_error + unit, 'w) op_ops" where
  "listen_ops = pure_op listen_entry listen_result (default_cancel no_drop) no_entry_cancel no_drop"

record connect_op =
  co_src :: source
  co_addr :: addr_repr
  co_len :: u32

definition connect_new :: "('s \<Rightarrow> source) \<Rightarrow> 's \<Rightarrow> socket_addr \<Rightarrow> connect_op" where
  "connect_new as_src src addr =
     (let (raw, n) = into_raw_addr addr in \<lparr>co_src = as_src src, co_addr = raw, co_len = n\<rparr>)"

definition connect_entry :: "ptr \<Rightarrow> connect_op \<Rightarrow> sqe \<times> connect_op" where
  "connect_entry this q = (sqe_build (OpConnect (source_as_raw (co_src q)) (FieldOf this ''addr'') (co_len q)), q)"

definition connect_result :: "connect_op \<Rightarrow> ring_result \<Rightarrow> panic + (io_error + unit)" where
  "connect_result _ res = expect_zero res"

definition connect_ops :: "(connect_op, io_error + unit, 'w) op_ops" where
  "connect_ops = pure_op connect_entry connect_result (default_cancel no_drop) default_entry_cancel no_drop"

subsection \<open>Accept\<close>

record accept =
  ac_src :: source
  ac_box :: ptr
  ac_repr :: addr_repr
  ac_len :: u32

definition accept_new :: "('s \<Rightarrow> source) \<Rightarrow> ptr \<Rightarrow> addr_repr \<times> u32 \<Rightarrow> 's \<Rightarrow> accept" where
  "accept_new as_src mem uninit src =
     \<lparr>ac_src = as_src src, ac_box = mem, ac_repr = fst uninit, ac_len = snd uninit\<rparr>"

definition accept_entry_raw :: "accept \<Rightarrow> (dest_slot option \<Rightarrow> opcode) \<times> accept" where
  "accept_entry_raw q =
     (OpAccept (source_as_raw (ac_src q)) (FieldOf (ac_box q) ''0'') (FieldOf (ac_box q) ''1''),
      q\<lparr>ac_len := of_nat repr_size\<rparr>)"

definition accept_entry :: "ptr \<Rightarrow> accept \<Rightarrow> sqe \<times> accept" where
  "accept_entry _ q = (let (b, q') = accept_entry_raw q in (sqe_build (b None), q'))"

definition accept_addr :: "'a \<Rightarrow> accept \<Rightarrow> panic + ('a \<times> socket_addr)" where
  "accept_addr x q = mapR (\<lambda>a. (x, a)) (from_raw_addr (ac_repr q) (ac_len q))"

definition accept_result :: "accept \<Rightarrow> ring_result \<Rightarrow> panic + (io_error + (i32 \<times> socket_addr))" where
  "accept_result q res =
     bindR (expect_fd res) (\<lambda>r. case r of Inl e \<Rightarrow> Inr (Inl e) | Inr fd \<Rightarrow> mapR Inr (accept_addr fd q))"

definition accept_cancel :: "accept \<Rightarrow> cancellation \<times> event list" where
  "accept_cancel q = (cancel_from_box (ac_box q), [])"

definition accept_op :: "(accept, io_error + (i32 \<times> socket_addr), 'w) op_ops" where
  "accept_op =
     pure_op accept_entry accept_result accept_cancel default_entry_cancel (\<lambda>q. [Freed (AllocBox (ac_box q))])"

record accept_fixed =
  acf_inner :: accept
  acf_slot :: dest_slot

definition accept_fixed_from_raw :: "(u32 \<Rightarrow> bool) \<Rightarrow> accept \<Rightarrow> direct_slot \<Rightarrow> panic + accept_fixed" where
  "accept_fixed_from_raw try_slot q slot =
     mapR (\<lambda>d. \<lparr>acf_inner = q, acf_slot = d\<rparr>) (as_destination_slot try_slot slot)"

definition accept_fixed :: "(u32 \<Rightarrow> bool) \<Rightarrow> ('d \<Rightarrow> direct_slot) \<Rightarrow> accept \<Rightarrow> 'd \<Rightarrow> panic + accept_fixed" where
  "accept_fixed try_slot as_slot q direct = accept_fixed_from_raw try_slot q (as_slot direct)"

definition accept_fixed_entry :: "ptr \<Rightarrow> accept_fixed \<Rightarrow> sqe \<times> accept_fixed" where
  "accept_fixed_entry _ q =
     (let (b, a) = accept_entry_raw (acf_inner q) in (sqe_build (b (Some (acf_slot q))), q\<lparr>acf_inner := a\<rparr>))"

definition accept_fixed_result :: "accept_fixed \<Rightarrow> ring_result \<Rightarrow> panic + (io_error + socket_addr)" where
  "accept_fixed_result q res =
     bindR (expect_zero res) (\<lambda>r. case r of
       Inl e \<Rightarrow> Inr (Inl e) | Inr u \<Rightarrow> mapR (\<lambda>p. Inr (snd p)) (accept_addr u (acf_inner q)))"

definition accept_fixed_cancel :: "accept_fixed \<Rightarrow> cancellation \<times> event list" where
  "accept_fixed_cancel q = accept_cancel (acf_inner q)"

definition accept_fixed_op :: "(accept_fixed, io_error + socket_addr, 'w) op_ops" where
  "accept_fixed_op =
     pure_op accept_fixed_entry accept_fixed_result accept_fixed_cancel default_entry_cancel
       (\<lambda>q. [Freed (AllocBox (ac_box (acf_inner q)))])"

record accept_auto =
  aca_inner :: accept

definition accept_direct :: "accept \<Rightarrow> accept_auto" where
  "accept_direct q = \<lparr>aca_inner = q\<rparr>"

definition accept_auto_entry :: "ptr \<Rightarrow> accept_auto \<Rightarrow> sqe \<times> accept_auto" where
  "accept_auto_entry _ q =
     (let (b, a) = accept_entry_raw (aca_inner q) in (sqe_build (b (Some AutoTarget)), q\<lparr>aca_inner := a\<rparr>))"

definition accept_auto_result :: "accept_auto \<Rightarrow> ring_result \<Rightarrow> panic + (io_error + (direct_auto_fd \<times> socket_addr))" where
  "accept_auto_result q res =
     bindR (expect_direct res) (\<lambda>r. case r of
       Inl e \<Rightarrow> Inr (Inl e) | Inr slot \<Rightarrow> mapR Inr (accept_addr slot (aca_inner q)))"

definition accept_auto_cancel :: "accept_auto \<Rightarrow> cancellation \<times> event list" where
  "accept_auto_cancel q = accept_cancel (aca_inner q)"

definition accept_auto_op :: "(accept_auto, io_error + (direct_auto_fd \<times> socket_addr), 'w) op_ops" where
  "accept_auto_op =
     pure_op accept_auto_entry accept_auto_result accept_auto_cancel default_entry_cancel
       (\<lambda>q. [Freed (AllocBox (ac_box (aca_inner q)))])"

subsection \<open>Shutdown and the multi-shot accepts\<close>

datatype how = ShutdownRead | ShutdownWrite | ShutdownBoth

record shutdown =
  sh_src :: source
  sh_how :: i32

definition shutdown_new :: "('s \<Rightarrow> source) \<Rightarrow> 's \<Rightarrow> how \<Rightarrow> shutdown" where
  "shutdown_new as_src src how =
     \<lparr>sh_src = as_src src,
      sh_how = (case how of ShutdownRead \<Rightarrow> 0 | ShutdownWrite \<Rightarrow> 1 | ShutdownBoth \<Rightarrow> 2)\<rparr>"

definition shutdown_entry :: "ptr \<Rightarrow> shutdown \<Rightarrow> sqe \<times> shutdown" where
  "shutdown_entry _ q = (sqe_build (OpShutdown (source_as_raw (sh_src q)) (sh_how q)), q)"

definition shutdown_result :: "shutdown \<Rightarrow> ring_result \<Rightarrow> panic + (io_error + unit)" where
  "shutdown_result _ res = expect_zero res"

definition shutdown_op :: "(shutdown, io_error + unit, 'w) op_ops" where
  "shutdown_op = pure_op shutdown_entry shutdown_result (default_cancel no_drop) no_entry_cancel no_drop"

record accept_multi =
  am_src :: source

definition accept_multi_new :: "('s \<Rightarrow> source) \<Rightarrow> 's \<Rightarrow> accept_multi" where
  "accept_multi_new as_src src = \<lparr>am_src = as_src src\<rparr>"

definition accept_multi_entry :: "ptr \<Rightarrow> accept_multi \<Rightarrow> sqe \<times> accept_multi" where
  "accept_multi_entry _ q = (sqe_build (OpAcceptMulti (source_as_raw (am_src q)) False), q)"

definition accept_multi_next :: "accept_multi \<Rightarrow> ring_result \<Rightarrow> panic + (io_error + i32)" where
  "accept_multi_next _ res = expect_fd res"

definition accept_multi_op :: "(accept_multi, io_error + i32, 'w) multi_ops" where
  "accept_multi_op = pure_multi accept_multi_entry accept_multi_next"

record accept_multi_auto =
  ama_src :: source

definition accept_multi_direct :: "accept_multi \<Rightarrow> accept_multi_auto" where
  "accept_multi_direct q = \<lparr>ama_src = am_src q\<rparr>"

definition accept_multi_auto_entry :: "ptr \<Rightarrow> accept_multi_auto \<Rightarrow> sqe \<times> accept_multi_auto" where
  "accept_multi_auto_entry _ q = (sqe_build (OpAcceptMulti (source_as_raw (ama_src q)) True), q)"

definition accept_multi_auto_next :: "accept_multi_auto \<Rightarrow> ring_result \<Rightarrow> panic + (io_error + direct_auto_fd)" where
  "accept_multi_auto_next _ res = expect_direct res"

definition accept_multi_auto_op :: "(accept_multi_auto, io_error + direct_auto_fd, 'w) multi_ops" where
  "accept_multi_auto_op = pure_multi accept_multi_auto_entry accept_multi_auto_next"

subsection \<open>The contract of socket operations\<close>

interpretation socket: safe_op socket_op "\<lambda>_ _. True"
  unfolding socket_op_def
  by (rule safe_pure_opI) (auto simp: socket_entry_def socket_entry_raw_def op_plain_simps dest: no_entry_cancel_plain)

interpretation socket_fixed: safe_op socket_fixed_op "\<lambda>_ _. True"
  unfolding socket_fixed_op_def
  by (rule safe_pure_opI)
    (auto simp: socket_fixed_entry_def socket_entry_raw_def op_plain_simps dest: no_entry_cancel_plain)

interpretation socket_auto: safe_op socket_auto_op "\<lambda>_ _. True"
  unfolding socket_auto_op_def
  by (rule safe_pure_opI)
    (auto simp: socket_auto_entry_def socket_entry_raw_def op_plain_simps dest: no_entry_cancel_plain)

interpretation listen: safe_op listen_ops "\<lambda>_ _. True"
  unfolding listen_ops_def
  by (rule safe_pure_opI) (auto simp: listen_entry_def op_plain_simps dest: no_entry_cancel_plain)

text \<open>The box of an accept is not where the submission is pinned.\<close>

interpretation accept: safe_op accept_op "\<lambda>this q. ac_box q \<noteq> this"
  unfolding accept_op_def
  by (rule safe_pure_opI)
    (auto simp: accept_entry_def accept_entry_raw_def accept_cancel_def op_plain_simps dest: default_entry_cancel_plain)

interpretation accept_fixed: safe_op accept_fixed_op "\<lambda>this q. ac_box (acf_inner q) \<noteq> this"
  unfolding accept_fixed_op_def
  by (rule safe_pure_opI)
    (auto simp: accept_fixed_entry_def accept_entry_raw_def accept_fixed_cancel_def accept_cancel_def op_plain_simps
      dest: default_entry_cancel_plain)

interpretation accept_auto: safe_op accept_auto_op "\<lambda>this q. ac_box (aca_inner q) \<noteq> this"
  unfolding accept_auto_op_def
  by (rule safe_pure_opI)
    (auto simp: accept_auto_entry_def accept_entry_raw_def accept_auto_cancel_def accept_cancel_def op_plain_simps
      dest: default_entry_cancel_plain)

interpretation shutdown: safe_op shutdown_op "\<lambda>_ _. True"
  unfolding shutdown_op_def
  by (rule safe_pure_opI) (auto simp: shutdown_entry_def op_plain_simps dest: no_entry_cancel_plain)

interpretation accept_multi: safe_op accept_multi_op "\<lambda>_ _. True"
  unfolding accept_multi_op_def
  by (rule safe_pure_multiI) (auto simp: accept_multi_entry_def op_plain_simps)

interpretation accept_multi_auto: safe_op accept_multi_auto_op "\<lambda>_ _. True"
  unfolding accept_multi_auto_op_def
  by (rule safe_pure_multiI) (auto simp: accept_multi_auto_entry_def op_plain_simps)

end
