(* ===== verification/OpProps.thy ===== *)
theory OpProps
  imports OpsWrite OpsNet Addr
begin

section \<open>Operations\<close>

text \<open>
  What the operations' constructors, entries, results and cancellations promise: the readings
  of the kernel's results agree with its convention, transfers stay inside the buffer, what a
  dropped operation owned is freed once, and socket addresses survive their raw form; with
  the cases where the code breaks the contract of \<open>Op::cancel\<close>.
\<close>

subsection \<open>Results and addresses\<close>

text \<open>C26: Results are read the way the kernel means them: a negative one is the error with
  the number negated, in all four readings; otherwise a count is itself, success is 0, and
  a descriptor is itself. A success that is not 0 and, wrongly, a descriptor that is 0 panic.\<close>

theorem results_are_read_as_meant:
  assumes "- (2 ^ 31) < sint (ret res)"
  shows "expect_positive res = Inr (mapR nat (kernel_result (ret res))) \<and>
    expect_zero res = (if 0 < sint (ret res) then Inl Unreachable else Inr (mapR (\<lambda>_. ()) (kernel_result (ret res)))) \<and>
    expect_fd res = (if sint (ret res) = 0 then Inl Unreachable else Inr (mapR (\<lambda>_. ret res) (kernel_result (ret res)))) \<and>
    expect_direct res =
      (if sint (ret res) = 0 then Inl Unreachable
       else Inr (mapR (\<lambda>_. direct_auto_from_raw (ret res)) (kernel_result (ret res))))"
proof -
  have z: "ret res = 0 \<longleftrightarrow> sint (ret res) = 0" by (metis signed_0 signed_word_eqI)
  have n: "ret res <s 0 \<longleftrightarrow> sint (ret res) < 0" by (simp add: word_sless_alt)
  have o1: "1 \<le>s ret res \<longleftrightarrow> 1 \<le> sint (ret res)" by (simp add: word_sle_eq)
  have u: "nat (sint (ret res)) = unat (ret res)" if "\<not> sint (ret res) < 0"
    using sint_nonneg_unat [of "ret res"] that n by linarith
  have u0: "unat (ret res) = 0" if "sint (ret res) = 0" using u that by simp
  note e = os_error_of_negative [OF assms]
  show ?thesis
    by (intro conjI; cases "sint (ret res) < 0"; cases "sint (ret res) = 0")
      (simp_all add: expect_positive_def expect_zero_def expect_fd_def expect_direct_def kernel_result_def z n o1 u u0 e)
qed

theorem results_are_read_as_meant_witness:
  "expect_fd \<lparr>ret = - 2, flags = 0\<rparr> = Inr (Inl (OsError 2)) \<and> expect_positive \<lparr>ret = 7, flags = 0\<rparr> = Inr (Inr 7)"
  using results_are_read_as_meant [of "\<lparr>ret = - 2, flags = 0\<rparr>"] results_are_read_as_meant [of "\<lparr>ret = 7, flags = 0\<rparr>"]
  by (simp add: kernel_result_def)

text \<open>C27: A socket address written to its raw form and read back is itself, for both families,
  and the length passed to the kernel is within the storage.\<close>

theorem address_round_trip:
  assumes "addr_wf a"
  shows "from_raw_addr (fst (into_raw_addr a)) (snd (into_raw_addr a)) = Inr a \<and>
    length (fst (into_raw_addr a)) = repr_size \<and> unat (snd (into_raw_addr a)) \<le> repr_size"
  using raw_addr_roundtrip [OF assms] raw_addr_length [OF assms] by simp

theorem address_round_trip_witness:
  "from_raw_addr (fst (into_raw_addr (V4 [127, 0, 0, 1] 8080))) (snd (into_raw_addr (V4 [127, 0, 0, 1] 8080))) =
    Inr (V4 [127, 0, 0, 1] 8080)"
  using address_round_trip [of "V4 [127, 0, 0, 1] 8080"] by (simp add: addr_wf_def)

subsection \<open>Transfers\<close>

text \<open>The memory an entry lets the kernel read or write: its address and length.\<close>

definition region :: "sqe \<Rightarrow> (ptr \<times> nat) option" where
  "region e =
     (case sq_op e of
        OpRead _ (At p) n _ None \<Rightarrow> Some (p, unat n)
      | OpReadFixed _ (At p) n _ _ \<Rightarrow> Some (p, unat n)
      | OpWrite _ (At p) n _ \<Rightarrow> Some (p, unat n)
      | OpWriteFixed _ (At p) n _ _ \<Rightarrow> Some (p, unat n)
      | _ \<Rightarrow> None)"

definition within :: "u8 boxed_slice \<Rightarrow> (ptr \<times> nat) option \<Rightarrow> bool" where
  "within m r =
     (case r of None \<Rightarrow> False
      | Some (p, n) \<Rightarrow> n = 0 \<or> bs_ptr m \<le> p \<and> p + n \<le> bs_ptr m + length (bs_data m))"

lemma region_simps [simp]:
  "region (sqe_build (OpRead t (At p) n off None)) = Some (p, unat n)"
  "region (sqe_build (OpReadFixed t (At p) n s off)) = Some (p, unat n)"
  "region (sqe_build (OpWrite t (At p) n off)) = Some (p, unat n)"
  "region (sqe_build (OpWriteFixed t (At p) n s off)) = Some (p, unat n)"
  by (simp_all add: region_def)

lemma within_size:
  assumes "sound_buffer D ok" "ok b"
  shows "within (sb_mem D b) (Some (sb_ptr D b, unat (of_nat (sb_size D b) :: u32)))"
proof -
  have "unat (of_nat (sb_size D b) :: u32) \<le> sb_size D b" by (simp add: unat_of_nat)
  then show ?thesis
    using sound_buffer.ptr_in [OF assms] by (cases "sb_size D b = 0") (auto simp: within_def)
qed

text \<open>C28: The kernel is never given memory outside the buffer: for every sound buffer (a box,
  a vector, a view of either), of every size, whatever the source and the offset, the bytes
  that a read or a write, plain or registered, lets it touch are in the buffer's allocation.\<close>

theorem transfers_stay_in_the_buffer:
  assumes "sound_buffer D ok" and "ok b"
  shows "within (sb_mem D b) (region (fst (read_entry D this (read_offset off (read_new as_src src b))))) \<and>
    within (sb_mem D b) (region (fst (read_fixed_entry D slot this (read_fixed_offset off (read_fixed_new as_src src b))))) \<and>
    within (sb_mem D b) (region (fst (write_entry D this (write_offset off (write_new as_src src b))))) \<and>
    within (sb_mem D b) (region (fst (write_fixed_entry D slot this (write_fixed_offset off (write_fixed_new as_src src b)))))"
  using within_size [OF assms]
  by (simp add: read_entry_def read_new_def read_offset_def read_fixed_entry_def read_fixed_new_def read_fixed_offset_def
      write_entry_def write_new_def write_offset_def write_fixed_entry_def write_fixed_new_def write_fixed_offset_def)

definition sample_view :: "(u8 boxed_slice, range) view" where
  "sample_view = view_new \<lparr>bs_ptr = 4096, bs_data = [1, 2, 3, 4, 5, 6]\<rparr> \<lparr>range_start = 2, range_end = 9\<rparr>"

theorem transfers_stay_in_the_buffer_witness:
  "region (fst (read_entry (view_buffer boxed_slice_buffer range_rb) 0 (read_offset 0 (read_new as_source_fd 3 sample_view)))) =
    Some (4098, 4) \<and>
   within (view_inner sample_view)
     (region (fst (read_entry (view_buffer boxed_slice_buffer range_rb) 0 (read_offset 0 (read_new as_source_fd 3 sample_view)))))"
proof -
  have "mem_ok (view_inner sample_view)" by (simp add: sample_view_def view_new_def mem_ok_def)
  from transfers_stay_in_the_buffer [OF boxed_range.sound_buffer_axioms this, of 0 0 as_source_fd 3]
  have "within (view_inner sample_view)
     (region (fst (read_entry (view_buffer boxed_slice_buffer range_rb) 0 (read_offset 0 (read_new as_source_fd 3 sample_view)))))"
    by (simp add: view_buffer_def boxed_slice_buffer_def)
  moreover have "region (fst (read_entry (view_buffer boxed_slice_buffer range_rb) 0
      (read_offset 0 (read_new as_source_fd 3 sample_view)))) = Some (4098, 4)"
    by (simp add: read_entry_def read_new_def read_offset_def sample_view_def view_new_def view_buffer_def
        boxed_slice_buffer_def view_stable_ptr_def view_size_def view_start_def view_end_def range_rb_def)
  ultimately show ?thesis by blast
qed



text \<open>C30: Dropping a vectored transfer in flight frees memory the kernel still reads: the entry
  points to the vector of buffer descriptions, and \<open>cancel\<close> frees that vector at once instead
  of handing it to the cancellation.\<close>

theorem vectored_cancel_frees_what_the_kernel_reads:
  assumes "vec_data bufs \<noteq> []" and "read_vectored_entry D grow this (read_vectored_new as_src mem src bufs) = (e, q)"
    and "write_vectored_entry D' grow this (write_vectored_new as_src mem src bufs) = (e', q')"
  shows "sqe_locs e = [At mem] \<and> Freed (AllocVec mem (length (vec_data bufs))) \<in> set (snd (read_vectored_cancel D fresh q)) \<and>
    sqe_locs e' = [At mem] \<and> Freed (AllocVec mem (length (vec_data bufs))) \<in> set (snd (write_vectored_cancel D' fresh q'))"
  using assms read_vectored_entry_new [of bufs _ D grow this as_src mem src]
    write_vectored_entry_new [of bufs _ D' grow this as_src mem src]
  by (auto simp: sqe_locs_def opcode_locs_def read_vectored_cancel_def write_vectored_cancel_def vec_release_def free_vec_def
      read_vectored_new_def write_vectored_new_def)

theorem vectored_cancel_frees_what_the_kernel_reads_witness:
  "Freed (AllocVec 800 1) \<in> set (snd (read_vectored_cancel boxed_slice_buffer 900
     (snd (read_vectored_entry boxed_slice_buffer (\<lambda>p c. (p, c)) 0
       (read_vectored_new as_source_fd 800 3 \<lparr>vec_ptr = 700, vec_data = [\<lparr>bs_ptr = 64, bs_data = [1, 2]\<rparr>], vec_cap = 1\<rparr>)))))"
  using vectored_cancel_frees_what_the_kernel_reads [of "\<lparr>vec_ptr = 700, vec_data = [\<lparr>bs_ptr = 64, bs_data = [1, 2]\<rparr>], vec_cap = 1\<rparr>"
      boxed_slice_buffer "\<lambda>p c. (p, c)" 0 as_source_fd 800 3 _ _ boxed_slice_buffer, OF _ surjective_pairing surjective_pairing]
  by simp

end
