(* ===== verification/OpsLink.thy ===== *)
theory OpsLink
  imports OpsFile
begin

section \<open>Links (op/link.rs)\<close>

text \<open>
  Hard links, symbolic links and unlinking. The combined cancellation of the two paths lives
  in a vector at \<open>fresh\<close>.
\<close>

record linkat =
  ln_from_fd :: i32
  ln_from :: cstring
  ln_to_fd :: i32
  ln_to :: cstring

definition linkat_from_raw :: "ptr \<Rightarrow> ptr \<Rightarrow> i32 \<Rightarrow> path \<Rightarrow> i32 \<Rightarrow> path \<Rightarrow> panic + linkat" where
  "linkat_from_raw mem1 mem2 from_fd from_path to_fd to_path =
     bindR (cstring_new mem1 from_path) (\<lambda>from.
     bindR (cstring_new mem2 to_path) (\<lambda>to.
     Inr \<lparr>ln_from_fd = from_fd, ln_from = from, ln_to_fd = to_fd, ln_to = to\<rparr>))"

definition linkat_absolute :: "ptr \<Rightarrow> ptr \<Rightarrow> path \<Rightarrow> path \<Rightarrow> panic + linkat" where
  "linkat_absolute mem1 mem2 from to = linkat_from_raw mem1 mem2 (- 1) from (- 1) to"

definition linkat_relative :: "ptr \<Rightarrow> ptr \<Rightarrow> path \<Rightarrow> path \<Rightarrow> panic + linkat" where
  "linkat_relative mem1 mem2 from to = linkat_from_raw mem1 mem2 AT_FDCWD from AT_FDCWD to"

definition linkat_entry :: "ptr \<Rightarrow> linkat \<Rightarrow> sqe \<times> linkat" where
  "linkat_entry _ q =
     (sqe_build (OpLinkAt (ln_from_fd q) (At (cstr_ptr (ln_from q))) (ln_to_fd q) (At (cstr_ptr (ln_to q)))), q)"

definition linkat_result :: "linkat \<Rightarrow> ring_result \<Rightarrow> panic + (io_error + unit)" where
  "linkat_result _ res = expect_zero res"

definition linkat_cancel :: "ptr \<Rightarrow> linkat \<Rightarrow> cancellation \<times> event list" where
  "linkat_cancel fresh q =
     (cancel_combine \<lparr>vec_ptr = fresh, vec_data = [cancel_from_cstring (ln_from q), cancel_from_cstring (ln_to q)],
        vec_cap = 2\<rparr>, [])"

definition linkat_op :: "ptr \<Rightarrow> (linkat, io_error + unit, 'w) op_ops" where
  "linkat_op fresh =
     (pure_op linkat_entry linkat_result (linkat_cancel fresh) default_entry_cancel
       (\<lambda>q. cstring_release (ln_from q) @ cstring_release (ln_to q)))\<lparr>op_scratch := (\<lambda>_. free_vec fresh 2)\<rparr>"

record symlinkat =
  sy_dir :: i32
  sy_path :: cstring
  sy_target :: cstring

definition symlinkat_from_raw :: "ptr \<Rightarrow> ptr \<Rightarrow> i32 \<Rightarrow> path \<Rightarrow> path \<Rightarrow> panic + symlinkat" where
  "symlinkat_from_raw mem1 mem2 dir path target =
     bindR (cstring_new mem1 path) (\<lambda>p.
     bindR (cstring_new mem2 target) (\<lambda>t.
     Inr \<lparr>sy_dir = dir, sy_path = p, sy_target = t\<rparr>))"

definition symlinkat_absolute :: "ptr \<Rightarrow> ptr \<Rightarrow> path \<Rightarrow> path \<Rightarrow> panic + symlinkat" where
  "symlinkat_absolute mem1 mem2 path target = symlinkat_from_raw mem1 mem2 (- 1) path target"

definition symlinkat_relative :: "ptr \<Rightarrow> ptr \<Rightarrow> path \<Rightarrow> path \<Rightarrow> panic + symlinkat" where
  "symlinkat_relative mem1 mem2 path target = symlinkat_from_raw mem1 mem2 AT_FDCWD path target"

definition symlinkat_new :: "ptr \<Rightarrow> ptr \<Rightarrow> path \<Rightarrow> path \<Rightarrow> panic + symlinkat" where
  "symlinkat_new mem1 mem2 path target =
     (if path_is_absolute path then symlinkat_absolute mem1 mem2 path target
      else symlinkat_relative mem1 mem2 path target)"

definition symlinkat_entry :: "ptr \<Rightarrow> symlinkat \<Rightarrow> sqe \<times> symlinkat" where
  "symlinkat_entry _ q =
     (sqe_build (OpSymlinkAt (sy_dir q) (At (cstr_ptr (sy_target q))) (At (cstr_ptr (sy_path q)))), q)"

definition symlinkat_result :: "symlinkat \<Rightarrow> ring_result \<Rightarrow> panic + (io_error + unit)" where
  "symlinkat_result _ res = expect_zero res"

definition symlinkat_cancel :: "ptr \<Rightarrow> symlinkat \<Rightarrow> cancellation \<times> event list" where
  "symlinkat_cancel fresh q =
     (cancel_combine \<lparr>vec_ptr = fresh, vec_data = [cancel_from_cstring (sy_path q), cancel_from_cstring (sy_target q)],
        vec_cap = 2\<rparr>, [])"

definition symlinkat_op :: "ptr \<Rightarrow> (symlinkat, io_error + unit, 'w) op_ops" where
  "symlinkat_op fresh =
     (pure_op symlinkat_entry symlinkat_result (symlinkat_cancel fresh) default_entry_cancel
       (\<lambda>q. cstring_release (sy_path q) @ cstring_release (sy_target q)))\<lparr>op_scratch := (\<lambda>_. free_vec fresh 2)\<rparr>"

record unlinkat =
  ul_dir :: i32
  ul_path :: cstring
  ul_flags :: i32

definition AT_REMOVEDIR :: i32 where "AT_REMOVEDIR = 0x200"

definition unlinkat_from_raw :: "ptr \<Rightarrow> i32 \<Rightarrow> path \<Rightarrow> panic + unlinkat" where
  "unlinkat_from_raw mem dir path = mapR (\<lambda>p. \<lparr>ul_dir = dir, ul_path = p, ul_flags = 0\<rparr>) (cstring_new mem path)"

definition unlinkat_absolute :: "ptr \<Rightarrow> path \<Rightarrow> panic + unlinkat" where
  "unlinkat_absolute mem path = unlinkat_from_raw mem (- 1) path"

definition unlinkat_relative :: "ptr \<Rightarrow> path \<Rightarrow> panic + unlinkat" where
  "unlinkat_relative mem path = unlinkat_from_raw mem AT_FDCWD path"

definition unlinkat_new :: "ptr \<Rightarrow> path \<Rightarrow> panic + unlinkat" where
  "unlinkat_new mem path = (if path_is_absolute path then unlinkat_absolute mem path else unlinkat_relative mem path)"

definition unlinkat_dir :: "unlinkat \<Rightarrow> unlinkat" where
  "unlinkat_dir q = q\<lparr>ul_flags := AT_REMOVEDIR\<rparr>"

definition unlinkat_entry :: "ptr \<Rightarrow> unlinkat \<Rightarrow> sqe \<times> unlinkat" where
  "unlinkat_entry _ q = (sqe_build (OpUnlinkAt (ul_dir q) (At (cstr_ptr (ul_path q))) (ul_flags q)), q)"

definition unlinkat_result :: "unlinkat \<Rightarrow> ring_result \<Rightarrow> panic + (io_error + unit)" where
  "unlinkat_result _ res = expect_zero res"

definition unlinkat_cancel :: "unlinkat \<Rightarrow> cancellation \<times> event list" where
  "unlinkat_cancel q = (cancel_from_cstring (ul_path q), [])"

definition unlinkat_op :: "(unlinkat, io_error + unit, 'w) op_ops" where
  "unlinkat_op = pure_op unlinkat_entry unlinkat_result unlinkat_cancel default_entry_cancel (\<lambda>q. cstring_release (ul_path q))"

lemma live_scratch: "live_op T ok \<Longrightarrow> live_op (T\<lparr>op_scratch := f\<rparr>) ok"
  by (simp add: live_op_def keeps_alive_def)

interpretation linkat: live_op "linkat_op fresh" "\<lambda>_ _. True"
  unfolding linkat_op_def
  by (rule live_scratch, rule live_pure_opI)
    (auto simp: linkat_entry_def linkat_cancel_def op_plain_simps dest: default_entry_cancel_plain)

interpretation symlinkat: live_op "symlinkat_op fresh" "\<lambda>_ _. True"
  unfolding symlinkat_op_def
  by (rule live_scratch, rule live_pure_opI)
    (auto simp: symlinkat_entry_def symlinkat_cancel_def op_plain_simps dest: default_entry_cancel_plain)

interpretation unlinkat: live_op unlinkat_op "\<lambda>_ _. True"
  unfolding unlinkat_op_def
  by (rule live_pure_opI)
    (auto simp: unlinkat_entry_def unlinkat_cancel_def op_plain_simps dest: default_entry_cancel_plain)

end
