(* ===== verification/OpsMisc.thy ===== *)
theory OpsMisc
  imports OpsFile
begin

section \<open>Timeouts and direct descriptors (op/time.rs, op/direct.rs)\<close>

text \<open>
  \<open>Timeout\<close> and \<open>RegisterFile\<close> pass the kernel a pointer to a field of their own. For
  \<open>RegisterFile\<close> the kernel writes the slot it allocated through that pointer; the write is
  outside the code, so \<open>register_file_result\<close> is given the operation as it is then.
\<close>

record duration =
  dur_secs :: u64
  dur_nanos :: u32

record timespec =
  ts_sec :: u64
  ts_nsec :: u32

record timeout =
  to_abs :: timespec

definition timeout_new :: "duration \<Rightarrow> timeout" where
  "timeout_new d = \<lparr>to_abs = \<lparr>ts_sec = dur_secs d, ts_nsec = dur_nanos d\<rparr>\<rparr>"

definition timeout_entry :: "ptr \<Rightarrow> timeout \<Rightarrow> sqe \<times> timeout" where
  "timeout_entry this q = (sqe_build (OpTimeout (FieldOf this ''abs'')), q)"

definition ETIME :: i32 where "ETIME = 62"

text \<open>The \<open>debug_assert!\<close> of \<open>result\<close> is checked when \<open>debug\<close> is on.\<close>

definition timeout_result :: "bool \<Rightarrow> timeout \<Rightarrow> ring_result \<Rightarrow> panic + unit" where
  "timeout_result debug _ res =
     (if debug \<and> \<not> (ret res = - ETIME \<or> ret res = - ECANCELED) then Inl AssertFailed else Inr ())"

definition timeout_op :: "bool \<Rightarrow> (timeout, unit, 'w) op_ops" where
  "timeout_op debug =
     pure_op timeout_entry (timeout_result debug) (default_cancel no_drop) default_entry_cancel no_drop"

record register_file =
  rf_fd :: i32

definition register_file_new :: "i32 \<Rightarrow> register_file" where
  "register_file_new fd = \<lparr>rf_fd = fd\<rparr>"

definition register_file_entry :: "ptr \<Rightarrow> register_file \<Rightarrow> sqe \<times> register_file" where
  "register_file_entry this q = (sqe_build (OpFilesUpdate (FieldOf this ''fd'') 1), q)"

definition register_file_result :: "register_file \<Rightarrow> ring_result \<Rightarrow> panic + (io_error + direct_auto_fd)" where
  "register_file_result q res =
     (if ret res = 1 then Inr (Inr (direct_auto_from_raw (rf_fd q)))
      else if ret res <s 0 then Inr (Inl (OsError (ret res)))
      else Inl Unreachable)"

definition register_file_op :: "(register_file, io_error + direct_auto_fd, 'w) op_ops" where
  "register_file_op =
     pure_op register_file_entry register_file_result (default_cancel no_drop) no_entry_cancel no_drop"

record install_slot =
  is_slot :: direct_slot

definition install_slot_new :: "('d \<Rightarrow> direct_slot) \<Rightarrow> 'd \<Rightarrow> install_slot" where
  "install_slot_new as_slot d = \<lparr>is_slot = as_slot d\<rparr>"

definition install_slot_entry :: "ptr \<Rightarrow> install_slot \<Rightarrow> sqe \<times> install_slot" where
  "install_slot_entry _ q = (sqe_build (OpFixedFdInstall (direct_slot_index (is_slot q)) 0), q)"

definition install_slot_result :: "install_slot \<Rightarrow> ring_result \<Rightarrow> panic + (io_error + i32)" where
  "install_slot_result _ res = expect_fd res"

definition install_slot_op :: "(install_slot, io_error + i32, 'w) op_ops" where
  "install_slot_op =
     pure_op install_slot_entry install_slot_result (default_cancel no_drop) no_entry_cancel no_drop"

interpretation install_slot: safe_op install_slot_op "\<lambda>_ _. True"
  unfolding install_slot_op_def
  by (rule safe_pure_opI) (auto simp: install_slot_entry_def op_plain_simps dest: no_entry_cancel_plain)

end
