(* ===== verification/Executor.thy ===== *)
theory Executor
  imports Cancel
begin

section \<open>The executor (crate inel-executor)\<close>

text \<open>
  A \<open>Task\<close> lives behind an \<open>Rc\<close>: \<open>ex_tasks\<close> holds the tasks by the order of their creation
  (\<open>None\<close> once freed) with the strong count \<open>t_refs\<close>, shared by the queue, the wakers and the
  loop that polls it. Every task owns a \<open>Sender\<close> of the queue, so the sender count is one
  more than the tasks alive; the \<open>TaskQueue\<close> keeps its receiver, so a send cannot fail.

  A future is opaque. \<open>ex_poll f i w\<close> is one move of its poll with the waker of task \<open>i\<close> on
  the state \<open>'w\<close> futures share (the reactor, channels): it acts on the state, calls on a waker or spawns and goes
  on, or the poll ends or panics. \<open>ex_parts f\<close> is what its destructor drops, in order, each a
  destructor that panics or calls on at most one waker: \<open>ex_act\<close> is what it does before that
  call and \<open>ex_after\<close> what it does after it. The \<open>oneshot\<close> channel of the
  \<open>futures\<close> crate is a parameter, and so is \<open>Reactor::wait\<close>, which returns the calls it makes on
  wakers. A panic ends the run. Using a waker of a freed task is undefined behaviour in Rust and \<open>UseAfterMove\<close>
  here. A future that calls \<open>block_on\<close> inside its poll is not modelled.
\<close>

type_synonym task_id = nat
type_synonym chan = nat

datatype waker_call =
    CloneWaker task_id
  | WakeTask task_id
  | WakeByRef task_id
  | DropWaker task_id

datatype effect = Quiet | Call waker_call

text \<open>A future that spawns goes on with the handle of the new task, which is its channel.\<close>

datatype ('f, 'v) move = Does effect 'f | Spawns 'f "chan \<Rightarrow> 'f" | Pends 'f | Ends 'v | Panics panic

text \<open>
  \<open>future.then(send).fuse()\<close>: the future with the sender it captured, or nothing once it is
  done. \<open>InPoll\<close> is the \<open>RefCell\<close> while the future is borrowed for its poll.
\<close>

datatype 'f fuse = Fused 'f chan | Terminated | InPoll

record 'f task =
  t_scheduled :: bool
  t_future :: "'f fuse"
  t_refs :: nat

record ('f, 'w) executor =
  ex_tasks :: "'f task option list"
  ex_queue :: "task_id list"
  ex_world :: 'w

record ('f, 'v, 'w, 'a) exec_env =
  ex_poll :: "'f \<Rightarrow> task_id \<Rightarrow> 'w \<Rightarrow> ('f, 'v) move \<times> 'w"
  ex_parts :: "'f \<Rightarrow> 'a list"
  ex_act :: "'a \<Rightarrow> 'w \<Rightarrow> panic + ('w \<times> waker_call option)"
  ex_after :: "'a \<Rightarrow> 'w \<Rightarrow> 'w"
  ch_new :: "'w \<Rightarrow> chan \<times> 'w"
  ch_send :: "chan \<Rightarrow> 'v \<Rightarrow> 'w \<Rightarrow> 'w \<times> waker_call option"
  ch_close :: "chan \<Rightarrow> 'w \<Rightarrow> 'w \<times> waker_call option"
  ch_forget :: "chan \<Rightarrow> 'w \<Rightarrow> 'w \<times> waker_call option"
  ch_try_recv :: "chan \<Rightarrow> 'w \<Rightarrow> (unit + 'v option) \<times> 'w"
  react_wait :: "'w \<Rightarrow> panic + ('w \<times> waker_call list)"

definition executor_new :: "'w \<Rightarrow> ('f, 'w) executor" where
  "executor_new w = \<lparr>ex_tasks = [], ex_queue = [], ex_world = w\<rparr>"

subsection \<open>Tasks (task.rs)\<close>

definition task_at :: "('f, 'w) executor \<Rightarrow> task_id \<Rightarrow> 'f task option" where
  "task_at s i = (if i < length (ex_tasks s) then ex_tasks s ! i else None)"

definition set_task :: "task_id \<Rightarrow> 'f task option \<Rightarrow> ('f, 'w) executor \<Rightarrow> ('f, 'w) executor" where
  "set_task i t s = s\<lparr>ex_tasks := (ex_tasks s)[i := t]\<rparr>"

definition alive :: "('f, 'w) executor \<Rightarrow> nat" where
  "alive s = length (filter (\<lambda>t. t \<noteq> None) (ex_tasks s))"

definition sender_count :: "('f, 'w) executor \<Rightarrow> nat" where
  "sender_count s = 1 + alive s"

definition queue_is_done :: "('f, 'w) executor \<Rightarrow> bool" where
  "queue_is_done s \<longleftrightarrow> sender_count s = 1"

text \<open>\<open>Task::schedule\<close> through a reference: the queue gets a clone of the \<open>Rc\<close>.\<close>

definition task_schedule :: "task_id \<Rightarrow> ('f, 'w) executor \<Rightarrow> panic + ('f, 'w) executor" where
  "task_schedule i s =
     (case task_at s i of
        None \<Rightarrow> Inl UseAfterMove
      | Some t \<Rightarrow>
          if t_scheduled t then Inr s
          else Inr ((set_task i (Some (t\<lparr>t_scheduled := True, t_refs := t_refs t + 1\<rparr>)) s)
                      \<lparr>ex_queue := ex_queue s @ [i]\<rparr>))"

definition rc_clone :: "task_id \<Rightarrow> ('f, 'w) executor \<Rightarrow> panic + ('f, 'w) executor" where
  "rc_clone i s =
     (case task_at s i of
        None \<Rightarrow> Inl UseAfterMove
      | Some t \<Rightarrow> Inr (set_task i (Some (t\<lparr>t_refs := t_refs t + 1\<rparr>)) s))"

text \<open>
  Dropping the last \<open>Rc\<close> frees the task: its future is dropped and the sender the future
  captured is closed. These destructors are returned as jobs, to be run next.
\<close>

datatype 'a job = Act 'a | After 'a | Close chan

definition fuse_jobs :: "('f, 'v, 'w, 'a) exec_env \<Rightarrow> 'f fuse \<Rightarrow> 'a job list" where
  "fuse_jobs E fu = (case fu of Fused f c \<Rightarrow> map Act (ex_parts E f) @ [Close c] | _ \<Rightarrow> [])"

definition rc_drop ::
    "('f, 'v, 'w, 'a) exec_env \<Rightarrow> task_id \<Rightarrow> ('f, 'w) executor \<Rightarrow> panic + (('f, 'w) executor \<times> 'a job list)" where
  "rc_drop E i s =
     (case task_at s i of
        None \<Rightarrow> Inl UseAfterMove
      | Some t \<Rightarrow>
          if 1 < t_refs t then Inr (set_task i (Some (t\<lparr>t_refs := t_refs t - 1\<rparr>)) s, [])
          else Inr (set_task i None s, fuse_jobs E (t_future t)))"

subsection \<open>Wakers (waker.rs)\<close>

definition waker_clone :: "task_id \<Rightarrow> ('f, 'w) executor \<Rightarrow> panic + ('f, 'w) executor" where
  "waker_clone i s = rc_clone i s"

definition waker_wake ::
    "('f, 'v, 'w, 'a) exec_env \<Rightarrow> task_id \<Rightarrow> ('f, 'w) executor \<Rightarrow> panic + (('f, 'w) executor \<times> 'a job list)" where
  "waker_wake E i s = bindR (task_schedule i s) (rc_drop E i)"

definition waker_wake_by_ref :: "task_id \<Rightarrow> ('f, 'w) executor \<Rightarrow> panic + ('f, 'w) executor" where
  "waker_wake_by_ref i s = task_schedule i s"

definition waker_drop ::
    "('f, 'v, 'w, 'a) exec_env \<Rightarrow> task_id \<Rightarrow> ('f, 'w) executor \<Rightarrow> panic + (('f, 'w) executor \<times> 'a job list)" where
  "waker_drop E i s = rc_drop E i s"

definition waker_vtable ::
    "('f, 'v, 'w, 'a) exec_env \<Rightarrow> waker_call \<Rightarrow> ('f, 'w) executor \<Rightarrow> panic + (('f, 'w) executor \<times> 'a job list)" where
  "waker_vtable E c s =
     (case c of
        CloneWaker i \<Rightarrow> mapR (\<lambda>s'. (s', [])) (waker_clone i s)
      | WakeTask i \<Rightarrow> waker_wake E i s
      | WakeByRef i \<Rightarrow> mapR (\<lambda>s'. (s', [])) (waker_wake_by_ref i s)
      | DropWaker i \<Rightarrow> waker_drop E i s)"

lemma filter_set_Some:
  "i < length xs \<Longrightarrow> xs ! i \<noteq> None \<Longrightarrow>
    length (filter (\<lambda>t. t \<noteq> None) (xs[i := Some t])) = length (filter (\<lambda>t. t \<noteq> None) xs)"
  by (induction xs arbitrary: i) (auto split: nat.splits)

lemma filter_set_None:
  "i < length xs \<Longrightarrow> xs ! i \<noteq> None \<Longrightarrow>
    length (filter (\<lambda>t. t \<noteq> None) xs) = Suc (length (filter (\<lambda>t. t \<noteq> None) (xs[i := None])))"
  by (induction xs arbitrary: i) (auto split: nat.splits)

lemma alive_set_Some: "task_at s i \<noteq> None \<Longrightarrow> alive (set_task i (Some t) s) = alive s"
  using filter_set_Some [of i "ex_tasks s" t] by (simp add: alive_def set_task_def task_at_def split: if_splits)

lemma alive_set_None: "task_at s i \<noteq> None \<Longrightarrow> alive s = Suc (alive (set_task i None s))"
  using filter_set_None [of i "ex_tasks s"] by (simp add: alive_def set_task_def task_at_def split: if_splits)

lemma alive_update [simp]: "alive (s\<lparr>ex_queue := q\<rparr>) = alive s" "alive (s\<lparr>ex_world := w\<rparr>) = alive s"
  by (simp_all add: alive_def)

lemma task_schedule_alive: "task_schedule i s = Inr s' \<Longrightarrow> alive s' = alive s"
  by (auto simp: task_schedule_def alive_set_Some split: option.splits if_splits)

lemma rc_drop_alive:
  "rc_drop E i s = Inr (s', cs) \<Longrightarrow> alive s' < alive s \<or> alive s' = alive s \<and> cs = []"
  using alive_set_None [of s i]
  by (auto simp: rc_drop_def alive_set_Some Let_def split: option.splits if_splits prod.splits)

lemma waker_wake_alive:
  "waker_wake E i s = Inr (s', cs) \<Longrightarrow> alive s' < alive s \<or> alive s' = alive s \<and> cs = []"
proof -
  assume "waker_wake E i s = Inr (s', cs)"
  then obtain s1 where a: "task_schedule i s = Inr s1" "rc_drop E i s1 = Inr (s', cs)"
    by (auto simp: waker_wake_def bindR_Inr_iff)
  show ?thesis using task_schedule_alive [OF a(1)] rc_drop_alive [OF a(2)] by simp
qed

lemma waker_vtable_alive:
  "waker_vtable E c s = Inr (s', cs) \<Longrightarrow> alive s' < alive s \<or> alive s' = alive s \<and> cs = []"
  by (cases c)
    (auto simp: waker_vtable_def waker_clone_def rc_clone_def waker_wake_by_ref_def waker_drop_def
      mapR_Inr_iff alive_set_Some split: option.splits dest: task_schedule_alive rc_drop_alive waker_wake_alive)

text \<open>Destructors, each with the drops it causes before the next.\<close>

definition world_call ::
    "('f, 'v, 'w, 'a) exec_env \<Rightarrow> 'w \<times> waker_call option \<Rightarrow> ('f, 'w) executor \<Rightarrow>
      panic + (('f, 'w) executor \<times> 'a job list)" where
  "world_call E wc s =
     (case snd wc of
        None \<Rightarrow> Inr (s\<lparr>ex_world := fst wc\<rparr>, [])
      | Some c \<Rightarrow> waker_vtable E c (s\<lparr>ex_world := fst wc\<rparr>))"

definition run_job ::
    "('f, 'v, 'w, 'a) exec_env \<Rightarrow> 'a job \<Rightarrow> ('f, 'w) executor \<Rightarrow> panic + (('f, 'w) executor \<times> 'a job list)" where
  "run_job E j s =
     (case j of
        Act a \<Rightarrow> bindR (ex_act E a (ex_world s)) (\<lambda>wc. mapR (\<lambda>(s', js). (s', js @ [After a])) (world_call E wc s))
      | After a \<Rightarrow> Inr (s\<lparr>ex_world := ex_after E a (ex_world s)\<rparr>, [])
      | Close c \<Rightarrow> world_call E (ch_close E c (ex_world s)) s)"

lemma world_call_alive:
  "world_call E wc s = Inr (s', js) \<Longrightarrow> alive s' < alive s \<or> alive s' = alive s \<and> js = []"
  by (auto simp: world_call_def split: option.splits dest: waker_vtable_alive)

definition job_halves :: "'a job \<Rightarrow> nat" where
  "job_halves j = (case j of Act _ \<Rightarrow> 2 | _ \<Rightarrow> 1)"

lemma run_job_alive:
  "run_job E j s = Inr (s', js) \<Longrightarrow> alive s' < alive s \<or> alive s' = alive s \<and> sum_list (map job_halves js) < job_halves j"
  by (cases j) (auto simp: run_job_def bindR_Inr_iff mapR_Inr_iff job_halves_def dest: world_call_alive)

function run_jobs ::
    "('f, 'v, 'w, 'a) exec_env \<Rightarrow> 'a job list \<Rightarrow> ('f, 'w) executor \<Rightarrow> panic + ('f, 'w) executor" where
  "run_jobs E [] s = Inr s"
| "run_jobs E (j # js) s =
     (case run_job E j s of Inl p \<Rightarrow> Inl p | Inr (s', ds) \<Rightarrow> run_jobs E (ds @ js) s')"
  by pat_completeness auto
termination
  by (relation "measures [\<lambda>(E, js, s). alive s, \<lambda>(E, js, s). sum_list (map job_halves js)]")
    (auto dest: run_job_alive)

definition call_waker ::
    "('f, 'v, 'w, 'a) exec_env \<Rightarrow> 'w \<times> waker_call option \<Rightarrow> ('f, 'w) executor \<Rightarrow> panic + ('f, 'w) executor" where
  "call_waker E wc s = bindR (world_call E wc s) (\<lambda>(s', js). run_jobs E js s')"

definition drop_rc ::
    "('f, 'v, 'w, 'a) exec_env \<Rightarrow> task_id \<Rightarrow> ('f, 'w) executor \<Rightarrow> panic + ('f, 'w) executor" where
  "drop_rc E i s = bindR (rc_drop E i s) (\<lambda>(s', js). run_jobs E js s')"

subsection \<open>Spawning and polling (executor.rs)\<close>

text \<open>\<open>TaskQueue::schedule\<close>: the queue gets a clone of the new \<open>Rc\<close>, and the local one is dropped.\<close>

definition queue_schedule :: "'f fuse \<Rightarrow> ('f, 'w) executor \<Rightarrow> ('f, 'w) executor" where
  "queue_schedule fu s =
     s\<lparr>ex_tasks := ex_tasks s @ [Some \<lparr>t_scheduled = True, t_future = fu, t_refs = 1\<rparr>],
       ex_queue := ex_queue s @ [length (ex_tasks s)]\<rparr>"

definition executor_spawn ::
    "('f, 'v, 'w, 'a) exec_env \<Rightarrow> 'f \<Rightarrow> ('f, 'w) executor \<Rightarrow> chan \<times> ('f, 'w) executor" where
  "executor_spawn E f s =
     (let (c, w) = ch_new E (ex_world s) in (c, queue_schedule (Fused f c) (s\<lparr>ex_world := w\<rparr>)))"

definition run_effect ::
    "('f, 'v, 'w, 'a) exec_env \<Rightarrow> effect \<Rightarrow> 'w \<Rightarrow> ('f, 'w) executor \<Rightarrow> panic + ('f, 'w) executor" where
  "run_effect E e w s =
     (case e of
        Quiet \<Rightarrow> Inr (s\<lparr>ex_world := w\<rparr>)
      | Call c \<Rightarrow> call_waker E (w, Some c) s)"

text \<open>
  The moves of one poll, up to its end; \<open>fuel\<close> bounds them, and in \<open>executor_drain\<close> and
  \<open>executor_run\<close> the polls of a drain and the rounds: a future may loop, or wake itself for
  ever, and then the code does not return. \<open>None\<close> is running out of fuel.
\<close>

fun poll_moves ::
    "('f, 'v, 'w, 'a) exec_env \<Rightarrow> nat \<Rightarrow> task_id \<Rightarrow> 'f \<Rightarrow> ('f, 'w) executor \<Rightarrow>
      (panic + (('f + 'v) \<times> ('f, 'w) executor)) option" where
  "poll_moves E 0 i f s = None"
| "poll_moves E (Suc n) i f s =
     (case ex_poll E f i (ex_world s) of
        (Does e f', w) \<Rightarrow>
          (case run_effect E e w s of Inl p \<Rightarrow> Some (Inl p) | Inr s' \<Rightarrow> poll_moves E n i f' s')
      | (Spawns g k, w) \<Rightarrow>
          (let (c, s') = executor_spawn E g (s\<lparr>ex_world := w\<rparr>) in poll_moves E n i (k c) s')
      | (Pends f', w) \<Rightarrow> Some (Inr (Inl f', s\<lparr>ex_world := w\<rparr>))
      | (Ends v, w) \<Rightarrow> Some (Inr (Inr v, s\<lparr>ex_world := w\<rparr>))
      | (Panics p, w) \<Rightarrow> Some (Inl p))"

text \<open>The end of a poll: the future is put back, or its output is sent and it is fused.\<close>

definition set_future :: "task_id \<Rightarrow> 'f fuse \<Rightarrow> ('f, 'w) executor \<Rightarrow> ('f, 'w) executor" where
  "set_future i fu s = set_task i (map_option (\<lambda>t. t\<lparr>t_future := fu\<rparr>) (task_at s i)) s"

definition finish_poll ::
    "('f, 'v, 'w, 'a) exec_env \<Rightarrow> task_id \<Rightarrow> chan \<Rightarrow> ('f + 'v) \<times> ('f, 'w) executor \<Rightarrow> panic + ('f, 'w) executor" where
  "finish_poll E i c r =
     (case fst r of
        Inl f \<Rightarrow> Inr (set_future i (Fused f c) (snd r))
      | Inr v \<Rightarrow> mapR (set_future i Terminated) (call_waker E (ch_send E c v (ex_world (snd r))) (snd r)))"

definition task_poll ::
    "('f, 'v, 'w, 'a) exec_env \<Rightarrow> nat \<Rightarrow> task_id \<Rightarrow> ('f, 'w) executor \<Rightarrow> (panic + ('f, 'w) executor) option" where
  "task_poll E n i s =
     (case task_at s i of
        None \<Rightarrow> Some (Inl UseAfterMove)
      | Some t \<Rightarrow>
          (let s' = set_task i (Some (t\<lparr>t_scheduled := False\<rparr>)) s
           in case t_future t of
                InPoll \<Rightarrow> Some (Inl ReactorBusy)
              | Terminated \<Rightarrow> Some (Inr s')
              | Fused f c \<Rightarrow>
                  map_option (\<lambda>r. bindR r (finish_poll E i c)) (poll_moves E n i f (set_future i InPoll s'))))"

text \<open>The body of the loop over \<open>drain\<close>: the waker, then the task are dropped at its end.\<close>

definition executor_step ::
    "('f, 'v, 'w, 'a) exec_env \<Rightarrow> nat \<Rightarrow> task_id \<Rightarrow> ('f, 'w) executor \<Rightarrow> (panic + ('f, 'w) executor) option" where
  "executor_step E n i s =
     (case rc_clone i s of
        Inl p \<Rightarrow> Some (Inl p)
      | Inr s1 \<Rightarrow> map_option (\<lambda>r. bindR r (\<lambda>s2. bindR (drop_rc E i s2) (drop_rc E i))) (task_poll E n i s1))"

fun executor_drain ::
    "('f, 'v, 'w, 'a) exec_env \<Rightarrow> nat \<Rightarrow> ('f, 'w) executor \<Rightarrow> (panic + ('f, 'w) executor) option" where
  "executor_drain E 0 s = None"
| "executor_drain E (Suc n) s =
     (case ex_queue s of
        [] \<Rightarrow> Some (Inr s)
      | i # q \<Rightarrow>
          (case executor_step E (Suc n) i (s\<lparr>ex_queue := q\<rparr>) of
             None \<Rightarrow> None
           | Some (Inl p) \<Rightarrow> Some (Inl p)
           | Some (Inr s') \<Rightarrow> executor_drain E n s'))"

fun call_all ::
    "('f, 'v, 'w, 'a) exec_env \<Rightarrow> waker_call list \<Rightarrow> ('f, 'w) executor \<Rightarrow> panic + ('f, 'w) executor" where
  "call_all E [] s = Inr s"
| "call_all E (c # cs) s = bindR (call_waker E (ex_world s, Some c) s) (call_all E cs)"

definition reactor_turn ::
    "('f, 'v, 'w, 'a) exec_env \<Rightarrow> ('f, 'w) executor \<Rightarrow> panic + ('f, 'w) executor" where
  "reactor_turn E s = bindR (react_wait E (ex_world s)) (\<lambda>(w, cs). call_all E cs (s\<lparr>ex_world := w\<rparr>))"

fun executor_run ::
    "('f, 'v, 'w, 'a) exec_env \<Rightarrow> nat \<Rightarrow> ('f, 'w) executor \<Rightarrow> (panic + ('f, 'w) executor) option" where
  "executor_run E 0 s = None"
| "executor_run E (Suc n) s =
     (if queue_is_done s then Some (Inr s)
      else case executor_drain E (Suc n) s of
             None \<Rightarrow> None
           | Some (Inl p) \<Rightarrow> Some (Inl p)
           | Some (Inr s1) \<Rightarrow>
               (case reactor_turn E s1 of Inl p \<Rightarrow> Some (Inl p) | Inr s2 \<Rightarrow> executor_run E n s2))"

subsection \<open>Join handles (join.rs)\<close>

text \<open>A handle is the receiver of its channel: these functions take those of the channel they use.\<close>

definition join_try_join :: "(chan \<Rightarrow> 'w \<Rightarrow> (unit + 'v option) \<times> 'w) \<Rightarrow> chan \<Rightarrow> 'w \<Rightarrow> 'v option \<times> 'w" where
  "join_try_join try_recv c w = (case try_recv c w of (Inr v, w') \<Rightarrow> (v, w') | (Inl _, w') \<Rightarrow> (None, w'))"

text \<open>
  One poll of the future \<open>join\<close> returns, by task \<open>i\<close>. \<open>recv\<close> polls the receiver: it is ready with a
  value or without one, or keeps a clone of the waker and returns the waker it kept before. The
  receiver is dropped with the future once it is ready. The result is followed by the call on a
  waker and the waker that is dropped next.
\<close>

definition join_poll ::
    "(chan \<Rightarrow> task_id \<Rightarrow> 'w \<Rightarrow> ((unit + 'v) + task_id option) \<times> 'w) \<Rightarrow> (chan \<Rightarrow> 'w \<Rightarrow> 'w \<times> waker_call option) \<Rightarrow>
      chan \<Rightarrow> task_id \<Rightarrow> 'w \<Rightarrow> 'v option option \<times> 'w \<times> waker_call option \<times> task_id option" where
  "join_poll recv forget c i w =
     (case recv c i w of
        (Inr old, w') \<Rightarrow> (None, w', Some (CloneWaker i), old)
      | (Inl r, w') \<Rightarrow>
          (let (w'', cl) = forget c w'
           in (Some (case r of Inr v \<Rightarrow> Some v | Inl _ \<Rightarrow> None), w'', cl, None)))"

definition join_detach ::
    "('f, 'v, 'w, 'a) exec_env \<Rightarrow> chan \<Rightarrow> ('f, 'w) executor \<Rightarrow> panic + ('f, 'w) executor" where
  "join_detach E c s = call_waker E (ch_forget E c (ex_world s)) s"

definition block_on ::
    "('f, 'v, 'w, 'a) exec_env \<Rightarrow> nat \<Rightarrow> 'f \<Rightarrow> ('f, 'w) executor \<Rightarrow> (panic + ('v \<times> ('f, 'w) executor)) option" where
  "block_on E n f s =
     (let (c, s1) = executor_spawn E f s
      in case executor_run E n s1 of
           None \<Rightarrow> None
         | Some (Inl p) \<Rightarrow> Some (Inl p)
         | Some (Inr s2) \<Rightarrow>
             Some (let (v, w) = join_try_join (ch_try_recv E) c (ex_world s2)
                   in case v of None \<Rightarrow> Inl UnwrapNone | Some x \<Rightarrow> Inr (x, s2\<lparr>ex_world := w\<rparr>)))"

end
