(* ===== verification/ExecutorSafe.thy ===== *)
theory ExecutorSafe
  imports Executor
begin

section \<open>Reference counts and scheduling of the executor\<close>

text \<open>
  The wakers are raw pointers with hand-written reference counting. The locale \<open>owning\<close> says
  what Rust's types say of the code around them: every future, destructor and channel owns a
  multiset of wakers, and a call consumes, clones or borrows one that is owned. Futures also
  hold parts \<open>res_f\<close> of the shared state, such as operations in flight; \<open>wok R w\<close> says that the
  state \<open>w\<close> is sound and what is held of it is \<open>R\<close>. Panics of futures, destructors and the
  reactor are of the kind \<open>okp\<close>.

  Under it the invariant \<open>exec_inv\<close> holds through every operation: the strong count of each
  task is the number of its owners, a task is scheduled exactly when it is in the queue, once,
  nothing uses a freed task, and the shared state is sound for what the tasks hold. \<open>X\<close> and \<open>R\<close>
  are what is owned outside the executor, by code on the stack.
\<close>

definition pays :: "task_id multiset \<Rightarrow> waker_call option \<Rightarrow> task_id multiset \<Rightarrow> bool" where
  "pays X c Y \<longleftrightarrow>
     (case c of
        None \<Rightarrow> Y = X
      | Some (CloneWaker i) \<Rightarrow> i \<in># X \<and> Y = add_mset i X
      | Some (WakeTask i) \<Rightarrow> i \<in># X \<and> Y = X - {#i#}
      | Some (WakeByRef i) \<Rightarrow> i \<in># X \<and> Y = X
      | Some (DropWaker i) \<Rightarrow> i \<in># X \<and> Y = X - {#i#})"

lemma pays_frame: "pays X c Y \<Longrightarrow> pays (X + Z) c (Y + Z)"
  by (auto simp: pays_def split: option.splits waker_call.splits)

definition refs_of :: "('f, 'w) executor \<Rightarrow> task_id \<Rightarrow> nat" where
  "refs_of s i = (case task_at s i of None \<Rightarrow> 0 | Some t \<Rightarrow> t_refs t)"

definition counted_refs :: "task_id multiset \<Rightarrow> ('f, 'w) executor \<Rightarrow> bool" where
  "counted_refs T s \<longleftrightarrow>
     distinct (ex_queue s) \<and>
     (\<forall>i. i \<in> set (ex_queue s) \<longleftrightarrow> (\<exists>t. task_at s i = Some t \<and> t_scheduled t)) \<and>
     (\<forall>i. refs_of s i = count T i + (if i \<in> set (ex_queue s) then 1 else 0)) \<and>
     (\<forall>i t. task_at s i = Some t \<longrightarrow> 0 < t_refs t)"

text \<open>The futures of the tasks that were there stay what they were.\<close>

definition fut_at :: "('f, 'w) executor \<Rightarrow> task_id \<Rightarrow> 'f fuse option" where
  "fut_at s i = map_option t_future (task_at s i)"

definition futures_kept :: "('f, 'w) executor \<Rightarrow> ('f, 'w) executor \<Rightarrow> bool" where
  "futures_kept s s' \<longleftrightarrow>
     length (ex_tasks s) \<le> length (ex_tasks s') \<and>
     (\<forall>j. fut_at s' j = None \<or> fut_at s' j = fut_at s j \<or>
          length (ex_tasks s) \<le> j \<and> fut_at s' j \<noteq> Some InPoll)"

text \<open>No future is borrowed for a poll.\<close>

definition idle :: "('f, 'w) executor \<Rightarrow> bool" where
  "idle s \<longleftrightarrow> (\<forall>j. fut_at s j \<noteq> Some InPoll)"

lemma futures_kept_refl [simp]: "futures_kept s s"
  by (simp add: futures_kept_def)

lemma futures_kept_trans:
  assumes "futures_kept s t" "futures_kept t u"
  shows "futures_kept s u"
proof -
  have "fut_at u j = None \<or> fut_at u j = fut_at s j \<or> length (ex_tasks s) \<le> j \<and> fut_at u j \<noteq> Some InPoll" for j
  proof -
    have "length (ex_tasks s) \<le> length (ex_tasks t)"
      and t: "fut_at t j = None \<or> fut_at t j = fut_at s j \<or> length (ex_tasks s) \<le> j \<and> fut_at t j \<noteq> Some InPoll"
      and u: "fut_at u j = None \<or> fut_at u j = fut_at t j \<or> length (ex_tasks t) \<le> j \<and> fut_at u j \<noteq> Some InPoll"
      using assms unfolding futures_kept_def by blast+
    from u show ?thesis
    proof (elim disjE)
      assume "fut_at u j = fut_at t j"
      then show ?thesis using t by (elim disjE) simp_all
    qed (use \<open>length (ex_tasks s) \<le> length (ex_tasks t)\<close> in auto)
  qed
  then show ?thesis using assms by (auto simp: futures_kept_def)
qed

lemma task_at_set [simp]:
  "task_at (set_task i t s) j = (if j = i \<and> i < length (ex_tasks s) then t else task_at s j)"
  by (auto simp: task_at_def set_task_def)

lemma task_at_update [simp]:
  "task_at (s\<lparr>ex_queue := q\<rparr>) = task_at s" "task_at (s\<lparr>ex_world := w\<rparr>) = task_at s"
  by (rule ext, simp add: task_at_def)+

lemma set_task_fields [simp]:
  "ex_queue (set_task i t s) = ex_queue s" "ex_world (set_task i t s) = ex_world s"
  "length (ex_tasks (set_task i t s)) = length (ex_tasks s)"
  by (simp_all add: set_task_def)

lemma task_at_length: "task_at s i = Some t \<Longrightarrow> i < length (ex_tasks s)"
  by (simp add: task_at_def split: if_splits)

lemma counted_task:
  "counted_refs T s \<Longrightarrow> i \<in># T \<Longrightarrow> \<exists>t. task_at s i = Some t \<and> t_refs t = count T i + (if t_scheduled t then 1 else 0)"
proof -
  assume a: "counted_refs T s" "i \<in># T"
  then have r: "refs_of s i = count T i + (if i \<in> set (ex_queue s) then 1 else 0)"
    by (simp add: counted_refs_def)
  moreover have "0 < count T i" using a(2) by simp
  ultimately obtain t where t: "task_at s i = Some t" by (cases "task_at s i") (auto simp: refs_of_def)
  moreover have "i \<in> set (ex_queue s) \<longleftrightarrow> t_scheduled t" using a(1) t by (auto simp: counted_refs_def)
  ultimately show ?thesis using r by (simp add: refs_of_def)
qed

lemma counted_some:
  assumes "counted_refs T s" "task_at s i = Some t"
  shows "t_refs t = count T i + (if t_scheduled t then 1 else 0)" "0 < t_refs t"
proof -
  have "refs_of s i = count T i + (if i \<in> set (ex_queue s) then 1 else 0)"
    and q: "i \<in> set (ex_queue s) \<longleftrightarrow> (\<exists>t. task_at s i = Some t \<and> t_scheduled t)"
    using assms(1) by (simp_all only: counted_refs_def)
  then show "t_refs t = count T i + (if t_scheduled t then 1 else 0)" using assms(2) by (simp add: refs_of_def)
  show "0 < t_refs t" using assms by (simp add: counted_refs_def)
qed

lemma counted_world [simp]: "counted_refs T (s\<lparr>ex_world := w\<rparr>) = counted_refs T s"
  by (simp add: counted_refs_def refs_of_def)

text \<open>The effect of a change to one task and the queue on the count.\<close>

lemma counted_setI:
  assumes c: "counted_refs T s" and t: "task_at s i = Some t"
    and q: "q = (if t_scheduled t' \<and> \<not> t_scheduled t then ex_queue s @ [i] else ex_queue s)"
    and k: "t_scheduled t \<longrightarrow> t_scheduled t'"
    and r: "t_refs t' = count T' i + (if t_scheduled t' then 1 else 0)" "0 < t_refs t'"
    and o': "\<And>j. j \<noteq> i \<Longrightarrow> count T' j = count T j"
  shows "counted_refs T' ((set_task i (Some t') s)\<lparr>ex_queue := q\<rparr>)"
proof -
  note l = task_at_length [OF t]
  have iq: "i \<in> set (ex_queue s) \<longleftrightarrow> t_scheduled t" using c t by (auto simp: counted_refs_def)
  have d: "distinct q" using c q iq by (auto simp: counted_refs_def)
  have mi: "i \<in> set q \<longleftrightarrow> t_scheduled t'" using q iq k by auto
  have mj: "j \<in> set q \<longleftrightarrow> j \<in> set (ex_queue s)" if "j \<noteq> i" for j using q that by auto
  let ?s = "(set_task i (Some t') s)\<lparr>ex_queue := q\<rparr>"
  have ti: "task_at ?s i = Some t'" using l by simp
  have tj: "task_at ?s j = task_at s j" if "j \<noteq> i" for j using that by simp
  have "j \<in> set q \<longleftrightarrow> (\<exists>t. task_at ?s j = Some t \<and> t_scheduled t)" for j
    using c mi mj [of j] ti tj [of j] by (cases "j = i") (auto simp: counted_refs_def)
  moreover have "refs_of ?s j = count T' j + (if j \<in> set q then 1 else 0)" for j
  proof (cases "j = i")
    case True
    then show ?thesis using ti mi r(1) by (simp add: refs_of_def)
  next
    case False
    then show ?thesis using c tj [OF False] mj [OF False] o' [OF False] by (simp add: counted_refs_def refs_of_def)
  qed
  moreover have "task_at ?s j = Some u \<longrightarrow> 0 < t_refs u" for j u
    using c ti tj [of j] r(2) by (cases "j = i") (auto simp: counted_refs_def)
  ultimately show ?thesis using d by (simp add: counted_refs_def)
qed

lemma counted_freeI:
  assumes c: "counted_refs T s" and t: "task_at s i = Some t" "t_refs t = 1" and i: "i \<in># T"
  shows "counted_refs (T - {#i#}) (set_task i None s)"
proof -
  note l = task_at_length [OF t(1)]
  obtain u where u: "task_at s i = Some u" "t_refs u = count T i + (if t_scheduled u then 1 else 0)"
    using counted_task [OF c i] by blast
  have ut: "u = t" using u(1) t(1) by simp
  have pos: "0 < count T i" using i by (simp only: count_greater_zero_iff)
  have n: "\<not> t_scheduled t" 
  proof
    assume "t_scheduled t"
    then have "t_refs t = count T i + 1" using u(2) unfolding ut by (simp only: if_True)
    then show False using t(2) pos by linarith
  qed
  then have ci: "count T i = 1" using u(2) t(2) unfolding ut by simp
  have iq: "i \<notin> set (ex_queue s)" using n c t(1) by (auto simp: counted_refs_def)
  let ?s = "set_task i None s"
  have ti: "task_at ?s i = None" using l by simp
  have tj: "task_at ?s j = task_at s j" if "j \<noteq> i" for j using that by simp
  have "j \<in> set (ex_queue s) \<longleftrightarrow> (\<exists>t. task_at ?s j = Some t \<and> t_scheduled t)" for j
    using c iq ti tj [of j] by (cases "j = i") (auto simp: counted_refs_def)
  moreover have "refs_of ?s j = count (T - {#i#}) j + (if j \<in> set (ex_queue s) then 1 else 0)" for j
    using c iq ci ti tj [of j] by (cases "j = i") (auto simp: counted_refs_def refs_of_def)
  moreover have "task_at ?s j = Some u \<longrightarrow> 0 < t_refs u" for j u
    using c ti tj [of j] by (cases "j = i") (auto simp: counted_refs_def)
  ultimately show ?thesis using c by (simp add: counted_refs_def)
qed

lemma fut_at_set:
  "fut_at (set_task i t s) j = (if j = i \<and> i < length (ex_tasks s) then map_option t_future t else fut_at s j)"
  by (simp add: fut_at_def)

lemma fut_at_update [simp]:
  "fut_at (s\<lparr>ex_queue := q\<rparr>) = fut_at s" "fut_at (s\<lparr>ex_world := w\<rparr>) = fut_at s"
  by (rule ext, simp add: fut_at_def)+

lemma schedule_counted:
  assumes "counted_refs T s" "i \<in># T"
  shows "\<exists>s'. task_schedule i s = Inr s' \<and> counted_refs T s' \<and> ex_world s' = ex_world s \<and>
    length (ex_tasks s') = length (ex_tasks s) \<and> fut_at s' = fut_at s \<and> i \<in> set (ex_queue s')"
proof -
  obtain t where t: "task_at s i = Some t" "t_refs t = count T i + (if t_scheduled t then 1 else 0)"
    using counted_task [OF assms] by blast
  show ?thesis
  proof (cases "t_scheduled t")
    case True
    then have "i \<in> set (ex_queue s)" using assms(1) t(1) by (auto simp: counted_refs_def)
    then show ?thesis using assms(1) t True by (simp add: task_schedule_def)
  next
    case False
    have "counted_refs T ((set_task i (Some (t\<lparr>t_scheduled := True, t_refs := t_refs t + 1\<rparr>)) s)\<lparr>ex_queue := ex_queue s @ [i]\<rparr>)"
      by (rule counted_setI [OF assms(1) t(1)]) (use False t in auto)
    then show ?thesis
      using t False task_at_length [OF t(1)]
      by (auto simp: task_schedule_def fut_at_set fun_eq_iff) (simp add: fut_at_def)
  qed
qed

subsection \<open>Owners\<close>

definition own_fuse :: "('f \<Rightarrow> 'x multiset) \<Rightarrow> 'f fuse \<Rightarrow> 'x multiset" where
  "own_fuse own_f fu = (case fu of Fused f c \<Rightarrow> own_f f | _ \<Rightarrow> {#})"

definition own_task :: "('f \<Rightarrow> 'x multiset) \<Rightarrow> 'f task option \<Rightarrow> 'x multiset" where
  "own_task own_f t = (case t of None \<Rightarrow> {#} | Some t \<Rightarrow> own_fuse own_f (t_future t))"

definition held_futures :: "('f \<Rightarrow> 'x multiset) \<Rightarrow> ('f, 'w) executor \<Rightarrow> 'x multiset" where
  "held_futures own_f s = (\<Sum>t\<leftarrow>ex_tasks s. own_task own_f t)"

definition own_job :: "('a \<Rightarrow> 'x multiset) \<Rightarrow> ('a \<Rightarrow> 'x multiset) \<Rightarrow> 'a job \<Rightarrow> 'x multiset" where
  "own_job own_a own_b j = (case j of Act a \<Rightarrow> own_a a | After a \<Rightarrow> own_b a | Close _ \<Rightarrow> {#})"

definition own_jobs :: "('a \<Rightarrow> 'x multiset) \<Rightarrow> ('a \<Rightarrow> 'x multiset) \<Rightarrow> 'a job list \<Rightarrow> 'x multiset" where
  "own_jobs own_a own_b js = (\<Sum>j\<leftarrow>js. own_job own_a own_b j)"

text \<open>\<open>R\<close> is what code on the stack holds of the shared state.\<close>

definition exec_inv ::
    "('f \<Rightarrow> task_id multiset) \<Rightarrow> ('w \<Rightarrow> task_id multiset) \<Rightarrow> ('f \<Rightarrow> 'r multiset) \<Rightarrow> ('r multiset \<Rightarrow> 'w \<Rightarrow> bool) \<Rightarrow>
      task_id multiset \<Rightarrow> 'r multiset \<Rightarrow> ('f, 'w) executor \<Rightarrow> bool" where
  "exec_inv own_f own_w res_f wok X R s \<longleftrightarrow>
     counted_refs (X + own_w (ex_world s) + held_futures own_f s) s \<and>
     wok (R + held_futures res_f s) (ex_world s)"

text \<open>A list of calls that uses up the wakers \<open>D\<close>.\<close>

fun settles :: "task_id multiset \<Rightarrow> waker_call list \<Rightarrow> bool" where
  "settles D [] \<longleftrightarrow> D = {#}"
| "settles D (c # cs) \<longleftrightarrow> (\<exists>D'. pays D (Some c) D' \<and> settles D' cs)"

lemma settles_wakes: "settles (mset is) (map WakeTask is)"
  by (induction "is") (auto simp: pays_def)

text \<open>A result that either is a panic of the kind \<open>P\<close> or satisfies \<open>Q\<close>.\<close>

definition yields :: "(panic \<Rightarrow> bool) \<Rightarrow> ('x \<Rightarrow> bool) \<Rightarrow> panic + 'x \<Rightarrow> bool" where
  "yields P Q m \<longleftrightarrow> (case m of Inl p \<Rightarrow> P p | Inr x \<Rightarrow> Q x)"

lemma yields_simps [simp]:
  "yields P Q (Inl p) = P p"
  "yields P Q (Inr x) = Q x"
  "yields P Q (bindR m f) = yields P (\<lambda>x. yields P Q (f x)) m"
  "yields P Q (mapR g m) = yields P (\<lambda>x. Q (g x)) m"
  by (simp_all add: yields_def bindR_def mapR_def split: sum.splits)

lemma yields_mono: "yields P Q m \<Longrightarrow> (\<And>x. Q x \<Longrightarrow> Q' x) \<Longrightarrow> yields P Q' m"
  by (auto simp: yields_def split: sum.splits)

lemma sum_list_update_add:
  fixes g :: "'x \<Rightarrow> 'y multiset"
  shows "i < length xs \<Longrightarrow> sum_list (map g (xs[i := v])) + g (xs ! i) = sum_list (map g xs) + g v"
  by (induction xs arbitrary: i) (auto split: nat.splits simp: ac_simps)

lemma held_futures_set:
  "i < length (ex_tasks s) \<Longrightarrow>
    held_futures own_f (set_task i t s) + own_task own_f (task_at s i) = held_futures own_f s + own_task own_f t"
  using sum_list_update_add [of i "ex_tasks s" "own_task own_f" t]
  by (simp add: held_futures_def set_task_def task_at_def)

lemma held_futures_update [simp]:
  "held_futures own_f (s\<lparr>ex_queue := q\<rparr>) = held_futures own_f s" "held_futures own_f (s\<lparr>ex_world := w\<rparr>) = held_futures own_f s"
  by (simp_all add: held_futures_def)

lemma own_task_fut: "own_task own_f (task_at s i) = (case fut_at s i of None \<Rightarrow> {#} | Some fu \<Rightarrow> own_fuse own_f fu)"
  by (simp add: own_task_def fut_at_def split: option.splits)

lemma held_futures_cong:
  assumes "length (ex_tasks s') = length (ex_tasks s)" "fut_at s' = fut_at s"
  shows "held_futures own_f s' = held_futures own_f s"
proof -
  have "own_task own_f (ex_tasks s' ! i) = own_task own_f (ex_tasks s ! i)" if "i < length (ex_tasks s)" for i
    using own_task_fut [of own_f s' i] own_task_fut [of own_f s i] assms that by (simp add: task_at_def)
  then show ?thesis
    unfolding held_futures_def using assms(1) by (intro arg_cong [where f = sum_list] nth_equalityI) simp_all
qed

lemma own_jobs_simps [simp]:
  "own_jobs own_a own_b [] = {#}" "own_jobs own_a own_b (j # js) = own_job own_a own_b j + own_jobs own_a own_b js"
  "own_jobs own_a own_b (js @ ks) = own_jobs own_a own_b js + own_jobs own_a own_b ks"
  by (simp_all add: own_jobs_def)

definition own_end :: "('f \<Rightarrow> 'x multiset) \<Rightarrow> 'f + 'v \<Rightarrow> 'x multiset" where
  "own_end own_f r = (case r of Inl f \<Rightarrow> own_f f | Inr _ \<Rightarrow> {#})"

lemma own_end_simps [simp]: "own_end own_f (Inl f) = own_f f" "own_end own_f (Inr v) = {#}"
  by (simp_all add: own_end_def)

text \<open>What a freed task owned is what its destructors own, for any owner that agrees with them.\<close>

lemma fuse_jobs_own:
  assumes "\<And>f. own_f f = (\<Sum>a\<leftarrow>ex_parts E f. own_a a)"
  shows "own_jobs own_a own_b (fuse_jobs E fu) = own_fuse own_f fu"
  using assms by (cases fu) (simp_all add: fuse_jobs_def own_fuse_def own_jobs_def own_job_def o_def)

lemma held_update_task:
  assumes "task_at s i = Some t" "t_future t' = t_future t"
  shows "held_futures own_f (set_task i (Some t') s) = held_futures own_f s"
proof (rule held_futures_cong)
  show "fut_at (set_task i (Some t') s) = fut_at s"
    using assms by (auto simp: fut_at_set fun_eq_iff) (simp add: fut_at_def)
qed simp

lemma schedule_held: "task_schedule i s = Inr s' \<Longrightarrow> held_futures own_f s' = held_futures own_f s"
  by (auto simp: task_schedule_def held_update_task split: option.splits if_splits)

lemma drop_held:
  assumes "\<And>f. own_f f = (\<Sum>a\<leftarrow>ex_parts E f. own_a a)" and "rc_drop E i s = Inr (s', js)"
  shows "held_futures own_f s = held_futures own_f s' + own_jobs own_a own_b js"
proof -
  obtain t where t: "task_at s i = Some t" using assms(2) by (auto simp: rc_drop_def split: option.splits)
  show ?thesis
  proof (cases "1 < t_refs t")
    case True
    then show ?thesis using assms(2) t held_update_task [OF t, where own_f = own_f and t' = "t\<lparr>t_refs := t_refs t - 1\<rparr>"] by (auto simp: rc_drop_def)
  next
    case False
    then have "s' = set_task i None s" "js = fuse_jobs E (t_future t)" using assms(2) t by (simp_all add: rc_drop_def)
    then show ?thesis
      using held_futures_set [OF task_at_length [OF t], of own_f None] t fuse_jobs_own [OF assms(1), where fu = "t_future t"]
      by (simp add: own_task_def)
  qed
qed

lemma vtable_held:
  assumes "\<And>f. own_f f = (\<Sum>a\<leftarrow>ex_parts E f. own_a a)" and "waker_vtable E c s = Inr (s', js)"
  shows "held_futures own_f s = held_futures own_f s' + own_jobs own_a own_b js"
proof (cases c)
  case (CloneWaker i)
  then show ?thesis
    using assms(2) by (auto simp: waker_vtable_def waker_clone_def rc_clone_def held_update_task mapR_Inr_iff split: option.splits)
next
  case (WakeTask i)
  then show ?thesis
    using assms(2) drop_held [OF assms(1)] schedule_held [of i s, where own_f = own_f]
    by (fastforce simp: waker_vtable_def waker_wake_def bindR_Inr_iff)
next
  case (WakeByRef i)
  then show ?thesis
    using assms(2) schedule_held [of i s, where own_f = own_f]
    by (auto simp: waker_vtable_def waker_wake_by_ref_def mapR_Inr_iff)
next
  case (DropWaker i)
  then show ?thesis using assms(2) drop_held [OF assms(1)] by (simp add: waker_vtable_def waker_drop_def)
qed

locale owning =
  fixes E :: "('f, 'v, 'w, 'a) exec_env"
    and own_f :: "'f \<Rightarrow> task_id multiset"
    and own_w :: "'w \<Rightarrow> task_id multiset"
    and own_a :: "'a \<Rightarrow> task_id multiset"
    and own_b :: "'a \<Rightarrow> task_id multiset"
    and res_f :: "'f \<Rightarrow> 'r multiset"
    and res_a :: "'a \<Rightarrow> 'r multiset"
    and res_b :: "'a \<Rightarrow> 'r multiset"
    and wok :: "'r multiset \<Rightarrow> 'w \<Rightarrow> bool"
    and okp :: "panic \<Rightarrow> bool"
  assumes poll_call: "ex_poll E f i w = (Does (Call cl) f', w') \<Longrightarrow> wok (res_f f + R) w \<Longrightarrow>
      pays (own_f f + own_w w + {#i#}) (Some cl) (own_f f' + own_w w' + {#i#}) \<and> wok (res_f f' + R) w'"
    and poll_quiet: "ex_poll E f i w = (Does Quiet f', w') \<Longrightarrow> wok (res_f f + R) w \<Longrightarrow>
      own_f f + own_w w = own_f f' + own_w w' \<and> wok (res_f f' + R) w'"
    and poll_spawn: "ex_poll E f i w = (Spawns g k, w') \<Longrightarrow> wok (res_f f + R) w \<Longrightarrow>
      own_f f + own_w w = own_f g + own_f (k ch) + own_w w' \<and> wok (res_f g + res_f (k ch) + R) w'"
    and poll_pends: "ex_poll E f i w = (Pends f', w') \<Longrightarrow> wok (res_f f + R) w \<Longrightarrow>
      own_f f + own_w w = own_f f' + own_w w' \<and> wok (res_f f' + R) w'"
    and poll_ends: "ex_poll E f i w = (Ends v, w') \<Longrightarrow> wok (res_f f + R) w \<Longrightarrow>
      own_f f + own_w w = own_w w' \<and> wok R w'"
    and poll_panics: "ex_poll E f i w = (Panics p, w') \<Longrightarrow> wok (res_f f + R) w \<Longrightarrow> okp p"
    and parts: "own_f f = (\<Sum>a\<leftarrow>ex_parts E f. own_a a)" "res_f f = (\<Sum>a\<leftarrow>ex_parts E f. res_a a)"
    and act: "ex_act E a w = Inr (w', c) \<Longrightarrow> wok (res_a a + R) w \<Longrightarrow>
      pays (own_a a + own_w w) c (own_b a + own_w w') \<and> wok (res_b a + R) w'"
    and after: "wok (res_b a + R) w \<Longrightarrow> own_b a + own_w w = own_w (ex_after E a w) \<and> wok R (ex_after E a w)"
    and act_panics: "ex_act E a w = Inl p \<Longrightarrow> wok (res_a a + R) w \<Longrightarrow> okp p"
    and new: "ch_new E w = (ch, w') \<Longrightarrow> own_w w' = own_w w \<and> (wok R w \<longrightarrow> wok R w')"
    and send: "ch_send E ch v w = (w', c) \<Longrightarrow> wok R w \<Longrightarrow> pays (own_w w) c (own_w w') \<and> wok R w'"
    and close: "ch_close E ch w = (w', c) \<Longrightarrow> wok R w \<Longrightarrow> pays (own_w w) c (own_w w') \<and> wok R w'"
    and forget: "ch_forget E ch w = (w', c) \<Longrightarrow> wok R w \<Longrightarrow> pays (own_w w) c (own_w w') \<and> wok R w'"
    and wait: "react_wait E w = Inr (w', cs) \<Longrightarrow> wok R w \<Longrightarrow> \<exists>D. own_w w = own_w w' + D \<and> settles D cs \<and> wok R w'"
    and wait_panics: "react_wait E w = Inl p \<Longrightarrow> wok R w \<Longrightarrow> okp p"
begin

abbreviation inv :: "task_id multiset \<Rightarrow> 'r multiset \<Rightarrow> ('f, 'w) executor \<Rightarrow> bool" where
  "inv X R s \<equiv> exec_inv own_f own_w res_f wok X R s"

lemma drop_counted:
  assumes "counted_refs T s" "i \<in># T"
  shows "\<exists>s' js. rc_drop E i s = Inr (s', js) \<and> counted_refs (T - {#i#}) s' \<and> ex_world s' = ex_world s \<and>
    futures_kept s s' \<and> held_futures own_f s = held_futures own_f s' + own_jobs own_a own_b js"
proof -
  obtain t where t: "task_at s i = Some t" "t_refs t = count T i + (if t_scheduled t then 1 else 0)"
    using counted_task [OF assms] by blast
  note l = task_at_length [OF t(1)]
  have pos: "0 < count T i" using assms(2) by (simp only: count_greater_zero_iff)
  show ?thesis
  proof (cases "1 < t_refs t")
    case True
    let ?t = "t\<lparr>t_refs := t_refs t - 1\<rparr>"
    have q: "set_task i (Some ?t) s\<lparr>ex_queue := ex_queue s\<rparr> = set_task i (Some ?t) s"
      by (simp add: set_task_def)
    have "counted_refs (T - {#i#}) (set_task i (Some ?t) s\<lparr>ex_queue := ex_queue s\<rparr>)"
      by (rule counted_setI [OF assms(1) t(1)]) (use True t(2) pos in \<open>auto split: if_splits\<close>)
    moreover have "held_futures own_f (set_task i (Some ?t) s) = held_futures own_f s"
      by (rule held_futures_cong) (use t(1) in \<open>simp_all add: fut_at_set fun_eq_iff fut_at_def\<close>)
    ultimately show ?thesis
      using True t(1) l unfolding q
      by (simp add: rc_drop_def futures_kept_def fut_at_set) (simp add: fut_at_def)
  next
    case False
    then have "t_refs t = 1" using t(2) pos by linarith
    then have "counted_refs (T - {#i#}) (set_task i None s)" by (rule counted_freeI [OF assms(1) t(1) _ assms(2)])
    moreover have "held_futures own_f (set_task i None s) + own_fuse own_f (t_future t) = held_futures own_f s"
      using held_futures_set [OF l, of own_f None] t(1) by (simp add: own_task_def)
    ultimately show ?thesis
      using False t(1) by (simp add: rc_drop_def fuse_jobs_own [OF parts(1)] futures_kept_def fut_at_set)
  qed
qed

lemma vtable_counted:
  assumes "counted_refs T s" "pays T (Some c) T'"
  shows "\<exists>s' js. waker_vtable E c s = Inr (s', js) \<and> counted_refs T' s' \<and> ex_world s' = ex_world s \<and>
    futures_kept s s' \<and> held_futures own_f s = held_futures own_f s' + own_jobs own_a own_b js"
proof (cases c)
  case (CloneWaker i)
  then have p: "i \<in># T" "T' = add_mset i T" using assms(2) by (simp_all add: pays_def)
  obtain t where t: "task_at s i = Some t" "t_refs t = count T i + (if t_scheduled t then 1 else 0)"
    using counted_task [OF assms(1) p(1)] by blast
  let ?t = "t\<lparr>t_refs := t_refs t + 1\<rparr>"
  have q: "set_task i (Some ?t) s\<lparr>ex_queue := ex_queue s\<rparr> = set_task i (Some ?t) s"
    by (simp add: set_task_def)
  have "counted_refs T' (set_task i (Some ?t) s\<lparr>ex_queue := ex_queue s\<rparr>)"
    by (rule counted_setI [OF assms(1) t(1)]) (use t(2) p in auto)
  moreover have "fut_at (set_task i (Some ?t) s) = fut_at s"
    using t(1) by (simp add: fut_at_set fun_eq_iff) (simp add: fut_at_def)
  moreover then have "held_futures own_f (set_task i (Some ?t) s) = held_futures own_f s" by (intro held_futures_cong) simp_all
  ultimately show ?thesis
    using t(1) CloneWaker unfolding q
    by (simp add: waker_vtable_def waker_clone_def rc_clone_def futures_kept_def)
next
  case (WakeTask i)
  then have p: "i \<in># T" "T' = T - {#i#}" using assms(2) by (simp_all add: pays_def)
  obtain s1 where s1: "task_schedule i s = Inr s1" "counted_refs T s1" "ex_world s1 = ex_world s"
      "length (ex_tasks s1) = length (ex_tasks s)" "fut_at s1 = fut_at s"
    using schedule_counted [OF assms(1) p(1)] by blast
  obtain s2 js where s2: "rc_drop E i s1 = Inr (s2, js)" "counted_refs T' s2" "ex_world s2 = ex_world s1"
      "futures_kept s1 s2" "held_futures own_f s1 = held_futures own_f s2 + own_jobs own_a own_b js"
    using drop_counted [OF s1(2) p(1)] p(2) by blast
  have "futures_kept s s2" using s2(4) s1(4,5) by (simp add: futures_kept_def)
  then show ?thesis
    using WakeTask s1 s2 held_futures_cong [OF s1(4,5), of own_f] by (simp add: waker_vtable_def waker_wake_def)
next
  case (WakeByRef i)
  then have p: "i \<in># T" "T' = T" using assms(2) by (simp_all add: pays_def)
  obtain s1 where s1: "task_schedule i s = Inr s1" "counted_refs T s1" "ex_world s1 = ex_world s"
      "length (ex_tasks s1) = length (ex_tasks s)" "fut_at s1 = fut_at s"
    using schedule_counted [OF assms(1) p(1)] by blast
  then show ?thesis
    using WakeByRef p held_futures_cong [OF s1(4,5), of own_f]
    by (simp add: waker_vtable_def waker_wake_by_ref_def futures_kept_def)
next
  case (DropWaker i)
  then have p: "i \<in># T" "T' = T - {#i#}" using assms(2) by (simp_all add: pays_def)
  show ?thesis using drop_counted [OF assms(1) p(1)] p(2) DropWaker by (simp add: waker_vtable_def waker_drop_def)
qed

lemma world_call_inv:
  assumes "counted_refs (A + X + held_futures own_f s) s" "pays A c (B + own_w w')"
    and w: "wok (R + held_futures res_f s) w'"
  shows "\<exists>s' js. world_call E (w', c) s = Inr (s', js) \<and>
    inv (B + own_jobs own_a own_b js + X) (own_jobs res_a res_b js + R) s' \<and> futures_kept s s'"
proof -
  let ?s = "s\<lparr>ex_world := w'\<rparr>"
  have c0: "counted_refs (A + (X + held_futures own_f ?s)) ?s"
    using assms(1) by (simp add: counted_refs_def refs_of_def ac_simps)
  have p: "pays (A + (X + held_futures own_f ?s)) c (B + own_w w' + (X + held_futures own_f ?s))"
    by (rule pays_frame [OF assms(2)])
  show ?thesis
  proof (cases c)
    case None
    then have "A + (X + held_futures own_f ?s) = B + own_w w' + (X + held_futures own_f ?s)"
      using p by (simp only: pays_def option.case)
    then have "counted_refs (B + own_w w' + (X + held_futures own_f ?s)) ?s" using c0 by (simp only:)
    then show ?thesis using None w by (simp add: world_call_def exec_inv_def futures_kept_def ac_simps)
  next
    case (Some cl)
    obtain s' js where v: "waker_vtable E cl ?s = Inr (s', js)"
        "counted_refs (B + own_w w' + (X + held_futures own_f ?s)) s'" "ex_world s' = ex_world ?s"
        "futures_kept ?s s'" "held_futures own_f ?s = held_futures own_f s' + own_jobs own_a own_b js"
      using vtable_counted [OF c0 p [unfolded Some]] by blast
    have "held_futures res_f s = held_futures res_f s' + own_jobs res_a res_b js"
      using vtable_held [OF parts(2) v(1)] by simp
    then have "wok (own_jobs res_a res_b js + R + held_futures res_f s') (ex_world s')" using w v(3) by (simp add: ac_simps)
    then have "inv (B + own_jobs own_a own_b js + X) (own_jobs res_a res_b js + R) s'"
      using v(2) v(3) unfolding exec_inv_def v(5) by (simp add: ac_simps)
    moreover have "futures_kept s s'" using v(4) by (simp add: futures_kept_def)
    ultimately show ?thesis using Some v(1) by (simp add: world_call_def)
  qed
qed

definition jobs_left ::
    "task_id multiset \<Rightarrow> 'r multiset \<Rightarrow> ('f, 'w) executor \<Rightarrow> ('f, 'w) executor \<times> 'a job list \<Rightarrow> bool" where
  "jobs_left X R s = (\<lambda>(s', js). inv (own_jobs own_a own_b js + X) (own_jobs res_a res_b js + R) s' \<and> futures_kept s s')"

lemma run_job_inv:
  assumes "inv (own_job own_a own_b j + X) (own_job res_a res_b j + R) s"
  shows "yields okp (jobs_left X R s) (run_job E j s)"
proof -
  have c: "counted_refs (own_job own_a own_b j + own_w (ex_world s) + X + held_futures own_f s) s"
    and w: "wok (own_job res_a res_b j + (R + held_futures res_f s)) (ex_world s)"
    using assms by (simp_all add: exec_inv_def ac_simps)
  show ?thesis
  proof (cases j)
    case (Act a)
    show ?thesis
    proof (cases "ex_act E a (ex_world s)")
      case (Inl p)
      then show ?thesis using act_panics w Act by (auto simp: run_job_def own_job_def)
    next
      case (Inr y)
      obtain w' cl where y: "y = (w', cl)" by (cases y)
      have p: "pays (own_job own_a own_b j + own_w (ex_world s)) cl (own_b a + own_w w')"
        and w': "wok (res_b a + R + held_futures res_f s) w'"
        using act [OF Inr [unfolded y], of "R + held_futures res_f s"] w Act by (simp_all add: own_job_def ac_simps)
      show ?thesis
        using world_call_inv [OF c p w'] Inr y Act
        by (auto simp: run_job_def jobs_left_def own_job_def ac_simps)
    qed
  next
    case (After a)
    have a: "own_b a + own_w (ex_world s) = own_w (ex_after E a (ex_world s))"
        "wok (R + held_futures res_f s) (ex_after E a (ex_world s))"
      using after [of a "R + held_futures res_f s" "ex_world s"] w After by (simp_all add: own_job_def ac_simps)
    have e: "own_job own_a own_b j + own_w (ex_world s) + X + held_futures own_f s =
        X + own_w (ex_after E a (ex_world s)) + held_futures own_f s"
      unfolding a(1) [symmetric] using After by (simp add: own_job_def ac_simps)
    show ?thesis
      using c [unfolded e] a(2) After by (simp add: run_job_def jobs_left_def exec_inv_def futures_kept_def)
  next
    case (Close ch)
    obtain w' cl where y: "ch_close E ch (ex_world s) = (w', cl)" by fastforce
    show ?thesis
      using world_call_inv [OF c, of cl "{#}" w' R] close [OF y, of "R + held_futures res_f s"] w Close y
      by (auto simp: run_job_def own_job_def jobs_left_def)
  qed
qed

definition kept :: "task_id multiset \<Rightarrow> 'r multiset \<Rightarrow> ('f, 'w) executor \<Rightarrow> ('f, 'w) executor \<Rightarrow> bool" where
  "kept X R s s' \<longleftrightarrow> inv X R s' \<and> futures_kept s s'"

lemma kept_after: "futures_kept s s1 \<Longrightarrow> kept X R s1 s' \<Longrightarrow> kept X R s s'"
  using futures_kept_trans by (auto simp: kept_def)

lemma run_jobs_same:
  "F = E \<Longrightarrow> inv (own_jobs own_a own_b js + X) (own_jobs res_a res_b js + R) s \<Longrightarrow> yields okp (kept X R s) (run_jobs F js s)"
proof (induction F js s arbitrary: X R rule: run_jobs.induct [case_names Nil Cons])
  case (Cons F j js s)
  have "inv (own_job own_a own_b j + (own_jobs own_a own_b js + X)) (own_job res_a res_b j + (own_jobs res_a res_b js + R)) s"
    using Cons.prems(2) by (simp add: ac_simps)
  note 1 = run_job_inv [OF this]
  show ?case
  proof (cases "run_job E j s")
    case (Inl p)
    then show ?thesis using 1 Cons.prems(1) by simp
  next
    case (Inr y)
    obtain s1 ds where y: "y = (s1, ds)" by (cases y)
    have "inv (own_jobs own_a own_b (ds @ js) + X) (own_jobs res_a res_b (ds @ js) + R) s1" "futures_kept s s1"
      using 1 Inr y by (simp_all add: jobs_left_def ac_simps)
    then show ?thesis
      using Cons.IH [of "(s1, ds)" s1 ds X R] Cons.prems(1) Inr y
      by (auto intro: yields_mono [where Q = "kept X R s1"] kept_after)
  qed
qed (simp add: kept_def)

lemmas run_jobs_inv = run_jobs_same [OF refl]

lemma jobs_done: "jobs_left X R s (s1, js) \<Longrightarrow> yields okp (kept X R s) (run_jobs E js s1)"
  using run_jobs_inv [of js X R s1] by (auto simp: jobs_left_def elim: yields_mono kept_after)

lemma call_waker_inv:
  assumes "inv (A + X) R0 s" "pays (A + own_w (ex_world s)) c (B + own_w w')" "wok (R + held_futures res_f s) w'"
  shows "yields okp (kept (B + X) R s) (call_waker E (w', c) s)"
proof -
  have c: "counted_refs ((A + own_w (ex_world s)) + X + held_futures own_f s) s"
    using assms(1) by (simp add: exec_inv_def ac_simps)
  obtain s1 js where 1: "world_call E (w', c) s = Inr (s1, js)"
      "inv (B + own_jobs own_a own_b js + X) (own_jobs res_a res_b js + R) s1" "futures_kept s s1"
    using world_call_inv [OF c assms(2,3)] by blast
  then have "jobs_left (B + X) R s (s1, js)" by (simp add: jobs_left_def ac_simps)
  from jobs_done [OF this] show ?thesis using 1(1) by (simp add: call_waker_def)
qed

lemma drop_rc_inv:
  assumes "inv (add_mset i X) R s"
  shows "yields okp (kept X R s) (drop_rc E i s)"
proof -
  have c: "counted_refs (add_mset i X + own_w (ex_world s) + held_futures own_f s) s" using assms by (simp add: exec_inv_def)
  obtain s1 js where 1: "rc_drop E i s = Inr (s1, js)" "counted_refs (X + own_w (ex_world s) + held_futures own_f s) s1"
      "ex_world s1 = ex_world s" "futures_kept s s1" "held_futures own_f s = held_futures own_f s1 + own_jobs own_a own_b js"
    using drop_counted [OF c, of i] by auto
  have h: "held_futures res_f s = held_futures res_f s1 + own_jobs res_a res_b js"
    by (rule drop_held [OF parts(2) 1(1)])
  have w: "wok (own_jobs res_a res_b js + R + held_futures res_f s1) (ex_world s1)"
    using assms unfolding exec_inv_def h 1(3) by (simp add: ac_simps)
  have "inv (own_jobs own_a own_b js + X) (own_jobs res_a res_b js + R) s1"
    using 1(2) w unfolding exec_inv_def 1(3) 1(5) by (simp add: ac_simps)
  then have "jobs_left X R s (s1, js)" using 1(4) by (simp add: jobs_left_def)
  from jobs_done [OF this] show ?thesis using 1(1) by (simp add: drop_rc_def)
qed

lemma spawn_inv:
  assumes "inv (own_f g + X) (res_f g + R) s"
  shows "kept X R s (snd (executor_spawn E g s))"
proof -
  obtain ch w' where n: "ch_new E (ex_world s) = (ch, w')" by fastforce
  let ?n = "length (ex_tasks s)"
  let ?s = "queue_schedule (Fused g ch) (s\<lparr>ex_world := w'\<rparr>)"
  have t: "task_at ?s j = (if j = ?n then Some \<lparr>t_scheduled = True, t_future = Fused g ch, t_refs = 1\<rparr> else task_at s j)" for j
    by (auto simp: task_at_def queue_schedule_def nth_append)
  have c: "counted_refs (own_f g + X + own_w (ex_world s) + held_futures own_f s) s" using assms by (simp add: exec_inv_def)
  have hr: "R + held_futures res_f ?s = res_f g + R + held_futures res_f s"
    by (simp add: held_futures_def queue_schedule_def own_task_def own_fuse_def ac_simps)
  have w: "wok (R + held_futures res_f ?s) w'"
    unfolding hr using assms new [OF n] by (simp add: exec_inv_def)
  have none: "task_at s ?n = None" by (simp add: task_at_def)
  then have nq: "?n \<notin> set (ex_queue s)" and nc: "count (own_f g + X + own_w (ex_world s) + held_futures own_f s) ?n = 0"
    using c by (auto simp: counted_refs_def refs_of_def dest!: spec [where x = ?n])
  have h: "X + own_w w' + held_futures own_f ?s = own_f g + X + own_w (ex_world s) + held_futures own_f s"
    using new [OF n] by (simp add: held_futures_def queue_schedule_def own_task_def own_fuse_def ac_simps)
  have "counted_refs (own_f g + X + own_w (ex_world s) + held_futures own_f s) ?s"
    unfolding counted_refs_def
  proof (intro conjI allI)
    show "distinct (ex_queue ?s)" using c nq by (simp add: counted_refs_def queue_schedule_def)
    fix j
    show "j \<in> set (ex_queue ?s) \<longleftrightarrow> (\<exists>t. task_at ?s j = Some t \<and> t_scheduled t)"
      using c t [of j] none by (cases "j = ?n") (auto simp: counted_refs_def queue_schedule_def)
    show "refs_of ?s j = count (own_f g + X + own_w (ex_world s) + held_futures own_f s) j + (if j \<in> set (ex_queue ?s) then 1 else 0)"
      using c t [of j] nc by (cases "j = ?n") (simp_all add: counted_refs_def queue_schedule_def refs_of_def)
    show "task_at ?s j = Some u \<longrightarrow> 0 < t_refs u" for u
      using c t [of j] by (cases "j = ?n") (auto simp: counted_refs_def)
  qed
  moreover have "ex_world ?s = w'" by (simp add: queue_schedule_def)
  ultimately have "inv X R ?s" unfolding exec_inv_def using h w by (simp only: simp_thms)
  moreover have "futures_kept s ?s" using t by (simp add: futures_kept_def fut_at_def) (simp add: queue_schedule_def)
  ultimately show ?thesis using n by (simp add: executor_spawn_def kept_def)
qed

lemma world_inv:
  assumes "inv (A + X) R0 s" "A + own_w (ex_world s) = B + own_w w'" "wok (R + held_futures res_f s) w'"
  shows "inv (B + X) R (s\<lparr>ex_world := w'\<rparr>)"
proof -
  have "A + X + own_w (ex_world s) + held_futures own_f s = (A + own_w (ex_world s)) + (X + held_futures own_f s)"
    by (simp only: ac_simps)
  also have "\<dots> = B + X + own_w w' + held_futures own_f s" unfolding assms(2) by (simp only: ac_simps)
  finally have e: "A + X + own_w (ex_world s) + held_futures own_f s = B + X + own_w w' + held_futures own_f s" .
  show ?thesis using assms(1,3) unfolding exec_inv_def e by simp
qed

lemma inv_wok: "inv X (A + R) s \<Longrightarrow> wok (A + (R + held_futures res_f s)) (ex_world s)"
  by (simp add: exec_inv_def ac_simps)

lemma run_effect_inv:
  assumes "inv (own_f f + X) (res_f f + R) s" "i \<in># X" "ex_poll E f i (ex_world s) = (Does e f', w')"
  shows "yields okp (kept (own_f f' + X) (res_f f' + R) s) (run_effect E e w' s)"
proof (cases e)
  case Quiet
  note p = poll_quiet [OF assms(3) [unfolded Quiet] inv_wok [OF assms(1)]]
  have "inv (own_f f' + X) (res_f f' + R) (s\<lparr>ex_world := w'\<rparr>)"
    by (rule world_inv [OF assms(1)]) (use p in \<open>simp_all add: ac_simps\<close>)
  then show ?thesis using Quiet by (simp add: run_effect_def kept_def futures_kept_def)
next
  case (Call c)
  obtain Z where Z: "X = add_mset i Z" using multi_member_split [OF assms(2)] by blast
  have "inv ((own_f f + {#i#}) + Z) (res_f f + R) s" using assms(1) Z by (simp add: ac_simps)
  moreover have "pays ((own_f f + {#i#}) + own_w (ex_world s)) (Some c) ((own_f f' + {#i#}) + own_w w')"
      "wok (res_f f' + R + held_futures res_f s) w'"
    using poll_call [OF assms(3) [unfolded Call] inv_wok [OF assms(1)]] by (simp_all add: ac_simps)
  ultimately have "yields okp (kept ((own_f f' + {#i#}) + Z) (res_f f' + R) s) (call_waker E (w', Some c) s)"
    by (rule call_waker_inv)
  then show ?thesis using Call Z by (simp add: run_effect_def)
qed

lemma poll_spawn_inv:
  assumes "inv (own_f f + X) (res_f f + R) s" "ex_poll E f i (ex_world s) = (Spawns g k, w')"
  shows "kept (own_f (k c) + X) (res_f (k c) + R) s (snd (executor_spawn E g (s\<lparr>ex_world := w'\<rparr>)))"
proof -
  note p = poll_spawn [OF assms(2) inv_wok [OF assms(1)], of c]
  have "inv ((own_f g + own_f (k c)) + X) (res_f g + res_f (k c) + R) (s\<lparr>ex_world := w'\<rparr>)"
    by (rule world_inv [OF assms(1)]) (use p in \<open>simp_all add: ac_simps\<close>)
  then have "inv (own_f g + (own_f (k c) + X)) (res_f g + (res_f (k c) + R)) (s\<lparr>ex_world := w'\<rparr>)" by (simp add: ac_simps)
  from spawn_inv [OF this] show ?thesis by (simp add: kept_def futures_kept_def)
qed

lemma poll_moves_inv:
  assumes "inv (own_f f + X) (res_f f + R) s" "i \<in># X" "poll_moves E n i f s = Some r"
  shows "yields okp (\<lambda>(x, s'). kept (own_end own_f x + X) (own_end res_f x + R) s s') r"
  using assms
proof (induction n arbitrary: f s)
  case (Suc n)
  obtain m w' where m: "ex_poll E f i (ex_world s) = (m, w')" by fastforce
  note w = inv_wok [OF Suc.prems(1)]
  show ?case
  proof (cases m)
    case (Does e f')
    note 1 = run_effect_inv [OF Suc.prems(1,2) m [unfolded Does]]
    show ?thesis
    proof (cases "run_effect E e w' s")
      case (Inl p)
      then show ?thesis using 1 Suc.prems(3) m Does by auto
    next
      case (Inr s1)
      then have k: "inv (own_f f' + X) (res_f f' + R) s1" "futures_kept s s1" using 1 by (simp_all add: kept_def)
      have "yields okp (\<lambda>(x, s'). kept (own_end own_f x + X) (own_end res_f x + R) s1 s') r"
        by (rule Suc.IH [OF k(1) Suc.prems(2)]) (use Suc.prems(3) m Does Inr in simp)
      then show ?thesis by (rule yields_mono) (use kept_after [OF k(2)] in auto)
    qed
  next
    case (Spawns g k)
    obtain c s1 where sp: "executor_spawn E g (s\<lparr>ex_world := w'\<rparr>) = (c, s1)" by fastforce
    have k: "inv (own_f (k c) + X) (res_f (k c) + R) s1" "futures_kept s s1"
      using poll_spawn_inv [OF Suc.prems(1) m [unfolded Spawns], of c] sp by (simp_all add: kept_def)
    have "yields okp (\<lambda>(x, s'). kept (own_end own_f x + X) (own_end res_f x + R) s1 s') r"
      by (rule Suc.IH [OF k(1) Suc.prems(2)]) (use Suc.prems(3) m Spawns sp in simp)
    then show ?thesis by (rule yields_mono) (use kept_after [OF k(2)] in auto)
  next
    case (Pends f')
    note p = poll_pends [OF m [unfolded Pends] w]
    have "inv (own_f f' + X) (res_f f' + R) (s\<lparr>ex_world := w'\<rparr>)"
      by (rule world_inv [OF Suc.prems(1)]) (use p in \<open>simp_all add: ac_simps\<close>)
    then show ?thesis using Suc.prems(3) m Pends by (auto simp: kept_def futures_kept_def)
  next
    case (Ends v)
    note p = poll_ends [OF m [unfolded Ends] w]
    have "inv ({#} + X) R (s\<lparr>ex_world := w'\<rparr>)"
      by (rule world_inv [OF Suc.prems(1)]) (use p in \<open>simp_all add: ac_simps\<close>)
    then show ?thesis using Suc.prems(3) m Ends by (auto simp: kept_def futures_kept_def)
  next
    case (Panics p)
    then show ?thesis using Suc.prems(3) m poll_panics [OF m [unfolded Panics] w] by auto
  qed
qed simp

lemma set_future_inv:
  assumes "inv (own_fuse own_f fu + X) (own_fuse res_f fu + R) s" "fut_at s i = Some fu0"
  shows "inv (own_fuse own_f fu0 + X) (own_fuse res_f fu0 + R) (set_future i fu s)"
proof -
  obtain t where t: "task_at s i = Some t" "t_future t = fu0" using assms(2) by (auto simp: fut_at_def)
  note l = task_at_length [OF t(1)]
  have e: "set_future i fu s = (set_task i (Some (t\<lparr>t_future := fu\<rparr>)) s)\<lparr>ex_queue := ex_queue s\<rparr>"
    using t(1) by (simp add: set_future_def set_task_def)
  have h: "held_futures own_f (set_future i fu s) + own_fuse own_f fu0 = held_futures own_f s + own_fuse own_f fu"
    using held_futures_set [OF l, of own_f "Some (t\<lparr>t_future := fu\<rparr>)"] t unfolding e by (simp add: own_task_def)
  have hr: "held_futures res_f (set_future i fu s) + own_fuse res_f fu0 = held_futures res_f s + own_fuse res_f fu"
    using held_futures_set [OF l, of res_f "Some (t\<lparr>t_future := fu\<rparr>)"] t unfolding e by (simp add: own_task_def)
  have w: "ex_world (set_future i fu s) = ex_world s" by (simp add: set_future_def)
  have c: "counted_refs (own_fuse own_f fu + X + own_w (ex_world s) + held_futures own_f s) s"
    and wr: "wok (own_fuse res_f fu + R + held_futures res_f s) (ex_world s)"
    using assms(1) by (simp_all add: exec_inv_def)
  note r = counted_some [OF c t(1)]
  have "counted_refs (own_fuse own_f fu + X + own_w (ex_world s) + held_futures own_f s) (set_future i fu s)"
    unfolding e by (intro counted_setI [OF c t(1)]) (use r in \<open>auto split: if_splits\<close>)
  moreover have "own_fuse own_f fu + X + own_w (ex_world s) + held_futures own_f s =
      own_fuse own_f fu0 + X + own_w (ex_world s) + held_futures own_f (set_future i fu s)"
    using h by (simp add: ac_simps)
  moreover have "own_fuse res_f fu + R + held_futures res_f s =
      own_fuse res_f fu0 + R + held_futures res_f (set_future i fu s)"
    using hr by (simp add: ac_simps)
  ultimately show ?thesis using wr unfolding exec_inv_def w by (simp only: simp_thms)
qed

lemma fut_set_future:
  "fut_at s i = Some fu0 \<Longrightarrow> fut_at (set_future i fu s) j = (if j = i then Some fu else fut_at s j)"
  using task_at_length [of s i] by (auto simp: fut_at_def set_future_def)

lemma inv_fut:
  assumes "inv X R s" "i \<in># X" "futures_kept s0 s" "i < length (ex_tasks s0)"
  shows "fut_at s i = fut_at s0 i \<and> (\<exists>fu. fut_at s i = Some fu)"
proof -
  have "i \<in># X + own_w (ex_world s) + held_futures own_f s" using assms(2) by simp
  then obtain t where "task_at s i = Some t" using counted_task assms(1) by (metis exec_inv_def)
  then have t: "fut_at s i = Some (t_future t)" by (simp add: fut_at_def)
  have "fut_at s i = None \<or> fut_at s i = fut_at s0 i \<or> length (ex_tasks s0) \<le> i"
    using assms(3) unfolding futures_kept_def by blast
  then have "fut_at s i = fut_at s0 i" using assms(4) t by (metis linorder_not_le option.distinct(1))
  then show ?thesis using t by blast
qed

lemma kept_InPoll: "futures_kept s s' \<Longrightarrow> fut_at s' j = Some InPoll \<Longrightarrow> fut_at s j = Some InPoll"
  unfolding futures_kept_def by (metis option.distinct(1))

lemma kept_idle: "futures_kept s s' \<Longrightarrow> idle s \<Longrightarrow> idle s'"
  unfolding idle_def using kept_InPoll by blast

definition poll_over ::
    "task_id \<Rightarrow> task_id multiset \<Rightarrow> 'r multiset \<Rightarrow> ('f, 'w) executor \<Rightarrow> ('f, 'w) executor \<Rightarrow> bool" where
  "poll_over i X R s s' \<longleftrightarrow> inv X R s' \<and> (\<forall>j. fut_at s' j = Some InPoll \<longrightarrow> j \<noteq> i \<and> fut_at s j = Some InPoll)"

lemma finish_poll_inv:
  assumes "inv (own_end own_f x + X) (own_end res_f x + R) s" "i \<in># X" "fut_at s i = Some InPoll"
  shows "yields okp (poll_over i X R s) (finish_poll E i c (x, s))"
proof (cases x)
  case (Inl f)
  then have "inv (own_fuse own_f (Fused f c) + X) (own_fuse res_f (Fused f c) + R) s"
    using assms(1) by (simp add: own_fuse_def)
  from set_future_inv [OF this assms(3)] show ?thesis
    using Inl fut_set_future [OF assms(3)] by (simp add: finish_poll_def own_fuse_def poll_over_def)
next
  case (Inr v)
  obtain w' cl where sd: "ch_send E c v (ex_world s) = (w', cl)" by fastforce
  have s: "inv ({#} + X) R s" using assms(1) Inr by simp
  then have w: "wok (R + held_futures res_f s) (ex_world s)" by (simp add: exec_inv_def)
  have l: "i < length (ex_tasks s)" using assms(3) task_at_length by (auto simp: fut_at_def)
  have fin: "poll_over i X R s (set_future i Terminated s1)" if k: "kept ({#} + X) R s s1" for s1
  proof -
    have "fut_at s1 i = Some InPoll" using inv_fut [of X R s1 i s] k l assms(2,3) by (simp add: kept_def)
    note f = this
    then have "inv X R (set_future i Terminated s1)"
      using set_future_inv [of Terminated X R s1 i InPoll] k by (simp add: own_fuse_def kept_def)
    then show ?thesis
      using fut_set_future [OF f] kept_InPoll [of s s1] k by (auto simp: poll_over_def kept_def)
  qed
  have "yields okp (kept ({#} + X) R s) (call_waker E (w', cl) s)"
    by (rule call_waker_inv [OF s]) (use send [OF sd w] in simp_all)
  then show ?thesis using Inr sd fin by (auto simp: finish_poll_def elim: yields_mono)
qed

text \<open>The next task of the queue: it leaves the queue with a reference of the loop's.\<close>

lemma pop_inv:
  assumes "inv X R s" "ex_queue s = i # q"
  shows "\<exists>t. task_at s i = Some t \<and> t_scheduled t \<and>
    inv (add_mset i (add_mset i X)) R ((set_task i (Some (t\<lparr>t_scheduled := False, t_refs := t_refs t + 1\<rparr>)) s)\<lparr>ex_queue := q\<rparr>)"
proof -
  let ?T = "X + own_w (ex_world s) + held_futures own_f s"
  have c: "counted_refs ?T s" using assms(1) by (simp add: exec_inv_def)
  then have "\<exists>t. task_at s i = Some t \<and> t_scheduled t"
    unfolding counted_refs_def using assms(2) by (metis list.set_intros(1))
  then obtain t where t: "task_at s i = Some t" "t_scheduled t" by blast
  note l = task_at_length [OF t(1)] and r = counted_some [OF c t(1)]
  let ?t = "t\<lparr>t_scheduled := False, t_refs := t_refs t + 1\<rparr>"
  let ?s = "(set_task i (Some ?t) s)\<lparr>ex_queue := q\<rparr>"
  have d: "i \<notin> set q" "distinct q" using c assms(2) by (auto simp: counted_refs_def)
  have q: "j \<in> set (ex_queue s) \<longleftrightarrow> j = i \<or> j \<in> set q" for j using assms(2) by auto
  have ti: "task_at ?s i = Some ?t" using l by simp
  have tj: "task_at ?s j = task_at s j" if "j \<noteq> i" for j using that by simp
  have "counted_refs (add_mset i (add_mset i ?T)) ?s"
    unfolding counted_refs_def
  proof (intro conjI allI)
    fix j
    show "j \<in> set (ex_queue ?s) \<longleftrightarrow> (\<exists>t. task_at ?s j = Some t \<and> t_scheduled t)"
      using c q [of j] ti tj [of j] d by (cases "j = i") (auto simp: counted_refs_def)
    show "refs_of ?s j = count (add_mset i (add_mset i ?T)) j + (if j \<in> set (ex_queue ?s) then 1 else 0)"
    proof (cases "j = i")
      case True
      then show ?thesis using ti r t(2) d by (simp add: refs_of_def)
    next
      case False
      then show ?thesis using c tj [OF False] q [of j] by (simp add: counted_refs_def refs_of_def)
    qed
    show "task_at ?s j = Some u \<longrightarrow> 0 < t_refs u" for u
      using c ti tj [of j] by (cases "j = i") (auto simp: counted_refs_def)
  qed (use d in simp)
  moreover have "held_futures own_f ?s = held_futures own_f s" "held_futures res_f ?s = held_futures res_f s"
    by (simp_all add: held_update_task [OF t(1)])
  ultimately show ?thesis using t assms(1) by (simp add: exec_inv_def)
qed

lemma drops_inv:
  assumes "inv (add_mset i (add_mset i X)) R s"
  shows "yields okp (kept X R s) (bindR (drop_rc E i s) (drop_rc E i))"
proof -
  have "yields okp (kept X R s) (drop_rc E i s1)" if "kept (add_mset i X) R s s1" for s1
    using that drop_rc_inv [of i X R s1] by (auto simp: kept_def elim!: yields_mono intro: futures_kept_trans)
  then show ?thesis using drop_rc_inv [OF assms] by (auto elim: yields_mono)
qed

definition rested :: "task_id multiset \<Rightarrow> 'r multiset \<Rightarrow> ('f, 'w) executor \<Rightarrow> bool" where
  "rested X R s \<longleftrightarrow> inv X R s \<and> idle s"

lemma step_inv:
  assumes "inv X R s" "idle s" "ex_queue s = i # q" "executor_step E n i (s\<lparr>ex_queue := q\<rparr>) = Some r"
  shows "yields okp (rested X R) r"
proof -
  obtain t where t: "task_at s i = Some t" "t_scheduled t"
      "inv (add_mset i (add_mset i X)) R ((set_task i (Some (t\<lparr>t_scheduled := False, t_refs := t_refs t + 1\<rparr>)) s)\<lparr>ex_queue := q\<rparr>)"
      (is "inv ?X R ?s")
    using pop_inv [OF assms(1,3)] by blast
  note l = task_at_length [OF t(1)]
  have e: "task_poll E n i (set_task i (Some (t\<lparr>t_refs := t_refs t + 1\<rparr>)) (s\<lparr>ex_queue := q\<rparr>)) =
    (case t_future t of
       InPoll \<Rightarrow> Some (Inl ReactorBusy)
     | Terminated \<Rightarrow> Some (Inr ?s)
     | Fused f c \<Rightarrow> map_option (\<lambda>r. bindR r (finish_poll E i c)) (poll_moves E n i f (set_future i InPoll ?s)))"
    using l by (cases "t_future t"; cases s; cases t; simp add: task_poll_def Let_def set_task_def task_at_def)
  have r: "map_option (\<lambda>p. bindR p (\<lambda>s2. bindR (drop_rc E i s2) (drop_rc E i)))
      (task_poll E n i (set_task i (Some (t\<lparr>t_refs := t_refs t + 1\<rparr>)) (s\<lparr>ex_queue := q\<rparr>))) = Some r"
    using assms(4) t(1) by (simp add: executor_step_def rc_clone_def)
  have fs: "fut_at ?s j = fut_at s j" for j using t(1) l by (simp add: fut_at_def)
  then have ids: "idle ?s" using assms(2) by (simp add: idle_def)
  have last: "yields okp (rested X R) (bindR (drop_rc E i s3) (drop_rc E i))" if "inv ?X R s3" "idle s3" for s3
    using drops_inv [OF that(1)] kept_idle that(2) by (auto simp: rested_def kept_def elim!: yields_mono)
  show ?thesis
  proof (cases "t_future t")
    case (Fused f c)
    let ?s1 = "set_future i InPoll ?s"
    have f0: "fut_at ?s i = Some (Fused f c)" using l Fused by (simp add: fut_at_def)
    have "inv (own_fuse own_f InPoll + ?X) (own_fuse res_f InPoll + R) ?s" using t(3) by (simp add: own_fuse_def)
    from set_future_inv [OF this f0] have 1: "inv (own_f f + ?X) (res_f f + R) ?s1" by (simp add: own_fuse_def)
    note f1 = fut_set_future [OF f0, of InPoll]
    have l1: "i < length (ex_tasks ?s1)" using l by (simp add: set_future_def)
    obtain p where p: "poll_moves E n i f ?s1 = Some p" "r = bindR (bindR p (finish_poll E i c)) (\<lambda>s2. bindR (drop_rc E i s2) (drop_rc E i))"
      using r e Fused by auto
    have over: "yields okp (\<lambda>s3. inv ?X R s3 \<and> idle s3) (finish_poll E i c (x, s2))"
      if k: "kept (own_end own_f x + ?X) (own_end res_f x + R) ?s1 s2" for x s2
    proof -
      have k1: "inv (own_end own_f x + ?X) (own_end res_f x + R) s2" "futures_kept ?s1 s2" using k by (simp_all add: kept_def)
      have "i \<in># own_end own_f x + ?X" by simp
      then have f2: "fut_at s2 i = Some InPoll" using inv_fut [OF k1(1) _ k1(2) l1] f1 by simp
      have id3: "idle s3" if o3: "poll_over i ?X R s2 s3" for s3
        unfolding idle_def
      proof (intro allI notI)
        fix j assume "fut_at s3 j = Some InPoll"
        then have "j \<noteq> i" "fut_at ?s1 j = Some InPoll" using o3 kept_InPoll [OF k1(2)] by (auto simp: poll_over_def)
        then have "fut_at ?s j = Some InPoll" by (simp only: f1 if_False)
        then show False using ids unfolding idle_def by blast
      qed
      have "yields okp (poll_over i ?X R s2) (finish_poll E i c (x, s2))"
        by (rule finish_poll_inv [OF k1(1) _ f2]) simp
      then show ?thesis by (rule yields_mono) (use id3 in \<open>auto simp: poll_over_def\<close>)
    qed
    have "yields okp (\<lambda>(x, s'). kept (own_end own_f x + ?X) (own_end res_f x + R) ?s1 s') p"
      by (rule poll_moves_inv [OF 1 _ p(1)]) simp
    then have "yields okp (\<lambda>y. yields okp (\<lambda>s3. inv ?X R s3 \<and> idle s3) (finish_poll E i c y)) p"
      by (rule yields_mono) (use over in auto)
    then show ?thesis
      unfolding p(2) yields_simps by (rule yields_mono) (auto elim!: yields_mono simp: last [unfolded yields_simps])
  next
    case Terminated
    then show ?thesis using r e last [OF t(3) ids] by auto
  next
    case InPoll
    then show ?thesis using assms(2) t(1) by (auto simp: idle_def fut_at_def)
  qed
qed

lemma drain_inv:
  "inv X R s \<Longrightarrow> idle s \<Longrightarrow> executor_drain E n s = Some r \<Longrightarrow>
    yields okp (\<lambda>s'. rested X R s' \<and> ex_queue s' = []) r"
proof (induction n arbitrary: s)
  case (Suc n)
  show ?case
  proof (cases "ex_queue s")
    case (Cons i q)
    then obtain p where p: "executor_step E (Suc n) i (s\<lparr>ex_queue := q\<rparr>) = Some p"
      using Suc.prems(3) by (auto split: option.splits)
    have 1: "yields okp (rested X R) p" using step_inv [OF Suc.prems(1,2) Cons p] .
    show ?thesis
    proof (cases p)
      case (Inr s1)
      then show ?thesis using 1 Suc.IH [of s1] Suc.prems(3) Cons p by (simp add: rested_def)
    qed (use 1 Suc.prems(3) Cons p in auto)
  qed (use Suc.prems in \<open>auto simp: rested_def\<close>)
qed simp

lemma call_all_inv: "settles D cs \<Longrightarrow> inv (D + X) R s \<Longrightarrow> yields okp (kept X R s) (call_all E cs s)"
proof (induction cs arbitrary: D s)
  case (Cons c cs)
  obtain D' where D': "pays D (Some c) D'" "settles D' cs" using Cons.prems(1) by auto
  have "yields okp (kept (D' + X) R s) (call_waker E (ex_world s, Some c) s)"
    by (rule call_waker_inv [OF Cons.prems(2) pays_frame [OF D'(1)]])
      (use Cons.prems(2) in \<open>simp add: exec_inv_def\<close>)
  moreover have "yields okp (kept X R s) (call_all E cs s1)" if "kept (D' + X) R s s1" for s1
    using Cons.IH [OF D'(2), of s1] that kept_after [of s s1] by (auto simp: kept_def elim: yields_mono)
  ultimately show ?case by (auto elim: yields_mono)
qed (simp add: kept_def)

lemma reactor_turn_inv:
  assumes "inv X R s" "idle s"
  shows "yields okp (rested X R) (reactor_turn E s)"
proof -
  have w: "wok (R + held_futures res_f s) (ex_world s)" using assms(1) by (simp add: exec_inv_def)
  show ?thesis
  proof (cases "react_wait E (ex_world s)")
    case (Inl p)
    then show ?thesis using wait_panics [OF Inl w] by (simp add: reactor_turn_def)
  next
    case (Inr y)
    obtain w' cs where y: "y = (w', cs)" by (cases y)
    obtain D where D: "own_w (ex_world s) = own_w w' + D" "settles D cs" "wok (R + held_futures res_f s) w'"
      using wait [OF Inr [unfolded y] w] by blast
    have "inv (D + X) R (s\<lparr>ex_world := w'\<rparr>)"
      using world_inv [of "{#}" X R s D w' R] assms(1) D(1,3) by (simp add: ac_simps)
    from call_all_inv [OF D(2) this] show ?thesis
      using Inr y assms(2) kept_idle [of "s\<lparr>ex_world := w'\<rparr>"]
      by (auto simp: reactor_turn_def rested_def kept_def idle_def elim!: yields_mono)
  qed
qed

theorem run_sound:
  "inv X R s \<Longrightarrow> idle s \<Longrightarrow> executor_run E n s = Some r \<Longrightarrow>
    yields okp (\<lambda>s'. rested X R s' \<and> alive s' = 0) r"
proof (induction n arbitrary: s)
  case (Suc n)
  show ?case
  proof (cases "queue_is_done s")
    case False
    then obtain p where p: "executor_drain E (Suc n) s = Some p"
      using Suc.prems(3) by (auto split: option.splits)
    note d = drain_inv [OF Suc.prems(1,2) p]
    show ?thesis
    proof (cases p)
      case (Inl q)
      then show ?thesis using d Suc.prems(3) False p by (auto simp del: executor_drain.simps)
    next
      case (Inr s1)
      then have s1: "inv X R s1" "idle s1" using d by (simp_all add: rested_def)
      note t = reactor_turn_inv [OF s1]
      show ?thesis
      proof (cases "reactor_turn E s1")
        case (Inl q)
        then have "r = Inl q" using Suc.prems(3) False p \<open>p = Inr s1\<close> by (simp del: executor_drain.simps)
        then show ?thesis using t Inl by simp
      next
        case (Inr s2)
        then show ?thesis
          using t Suc.IH [of s2] Suc.prems(3) False p \<open>p = Inr s1\<close> by (simp add: rested_def del: executor_drain.simps)
      qed
    qed
  qed (use Suc.prems in \<open>auto simp: queue_is_done_def sender_count_def rested_def\<close>)
qed simp

end

end
