(* ===== verification/ExecutorJoin.thy ===== *)
theory ExecutorJoin
  imports ExecutorSafe
begin

section \<open>Tasks that wait for each other\<close>

text \<open>
  A task may wait for another through a channel: its waker is kept there until the sender, which
  the other task owns, is used or dropped. The locale \<open>handing\<close> says how receivers get about. A
  future comes to know a channel only when it spawns the task of its sender, and it may pass
  on what it knows only to a task it spawns. So the channels can be ranked, each task above all
  that it knows, and a new task just below its parent: no tasks wait for each other in a circle.
  When nothing is queued and a task is alive, the reactor has a waker.

  \<open>waits w\<close> are the wakers in channels, \<open>opened w\<close> the channels whose sender is not used up,
  \<open>used w\<close> those there were, and \<open>own_r w\<close> the wakers of the reactor.
\<close>

definition fused_at :: "('f, 'w) executor \<Rightarrow> task_id \<Rightarrow> ('f \<times> chan) option" where
  "fused_at s j = (case fut_at s j of Some (Fused f c) \<Rightarrow> Some (f, c) | _ \<Rightarrow> None)"

text \<open>The futures and their channels; the task \<open>P\<close> is being polled.\<close>

definition fut_view :: "(task_id \<times> ('f \<times> chan) option) option \<Rightarrow> ('f, 'w) executor \<Rightarrow> task_id \<Rightarrow> ('f \<times> chan) option" where
  "fut_view P s j = (case P of None \<Rightarrow> fused_at s j | Some (i, x) \<Rightarrow> if j = i then x else fused_at s j)"

definition closes :: "'a job list \<Rightarrow> chan set" where
  "closes js = {c. Close c \<in> set js}"

lemma closes_simps [simp]:
  "closes [] = {}" "closes (Act a # js) = closes js" "closes (After a # js) = closes js"
  "closes (Close c # js) = insert c (closes js)" "closes (js @ ks) = closes js \<union> closes ks"
  by (auto simp: closes_def)

lemma closes_fuse [simp]: "closes (fuse_jobs E fu) = (case fu of Fused f c \<Rightarrow> {c} | _ \<Rightarrow> {})"
  by (auto simp: closes_def fuse_jobs_def split: fuse.splits)

lemma fused_at_update [simp]:
  "fused_at (s\<lparr>ex_queue := q\<rparr>) = fused_at s" "fused_at (s\<lparr>ex_world := w\<rparr>) = fused_at s"
  by (simp_all add: fused_at_def fun_eq_iff)

lemma fut_view_update [simp]:
  "fut_view P (s\<lparr>ex_queue := q\<rparr>) = fut_view P s" "fut_view P (s\<lparr>ex_world := w\<rparr>) = fut_view P s"
  by (simp_all add: fut_view_def fun_eq_iff split: option.splits)

lemma fused_at_set:
  "i < length (ex_tasks s) \<Longrightarrow> fused_at (set_task i t s) j =
    (if j = i then (case t of Some u \<Rightarrow> (case t_future u of Fused f c \<Rightarrow> Some (f, c) | _ \<Rightarrow> None) | None \<Rightarrow> None)
     else fused_at s j)"
  by (simp add: fused_at_def fut_at_set split: option.splits)

lemma fused_at_same: "task_at s i = Some t \<Longrightarrow> t_future t' = t_future t \<Longrightarrow> fused_at (set_task i (Some t') s) = fused_at s"
  using task_at_length [of s i t] by (auto simp: fused_at_set fun_eq_iff) (simp add: fused_at_def fut_at_def)

lemma fut_view_cong: "fused_at s' = fused_at s \<Longrightarrow> fut_view P s' = fut_view P s"
  by (simp add: fut_view_def fun_eq_iff split: option.splits)

lemma schedule_fused:
  "task_schedule i s = Inr s' \<Longrightarrow>
    fused_at s' = fused_at s \<and> ex_world s' = ex_world s \<and> length (ex_tasks s') = length (ex_tasks s)"
  by (auto simp: task_schedule_def fused_at_same split: option.splits if_splits)

text \<open>What a step takes from the tasks: only futures whose channel is to be closed.\<close>

definition frees :: "chan set \<Rightarrow> ('f, 'w) executor \<Rightarrow> ('f, 'w) executor \<Rightarrow> bool" where
  "frees D s s' \<longleftrightarrow>
     ex_world s' = ex_world s \<and> length (ex_tasks s') = length (ex_tasks s) \<and>
     (\<forall>j. fused_at s' j = fused_at s j \<or>
          fused_at s' j = None \<and> (\<forall>f c. fused_at s j = Some (f, c) \<longrightarrow> c \<in> D))"

lemma frees_same: "fused_at s' = fused_at s \<Longrightarrow> ex_world s' = ex_world s \<Longrightarrow> length (ex_tasks s') = length (ex_tasks s) \<Longrightarrow> frees D s s'"
  by (simp add: frees_def)

lemma rc_drop_frees:
  assumes "rc_drop E i s = Inr (s', js)"
  shows "frees (closes js) s s'"
proof (cases "task_at s i")
  case (Some t)
  then have f: "fused_at s i = (case t_future t of Fused f c \<Rightarrow> Some (f, c) | _ \<Rightarrow> None)"
    by (simp add: fused_at_def fut_at_def)
  show ?thesis
  proof (cases "1 < t_refs t")
    case True
    then show ?thesis using assms Some by (auto simp: rc_drop_def fused_at_same intro!: frees_same)
  next
    case False
    then have "s' = set_task i None s" "js = fuse_jobs E (t_future t)" using assms Some by (simp_all add: rc_drop_def)
    then show ?thesis
      using f task_at_length [OF Some] by (auto simp: frees_def fused_at_set split: fuse.splits)
  qed
qed (use assms in \<open>simp add: rc_drop_def\<close>)

lemma vtable_frees:
  assumes "waker_vtable E c s = Inr (s', js)"
  shows "frees (closes js) s s'"
proof (cases c)
  case (CloneWaker i)
  then show ?thesis
    using assms
    by (auto simp: waker_vtable_def waker_clone_def rc_clone_def mapR_Inr_iff fused_at_same intro!: frees_same split: option.splits)
next
  case (WakeTask i)
  then obtain s1 where s1: "task_schedule i s = Inr s1" "rc_drop E i s1 = Inr (s', js)"
    using assms by (auto simp: waker_vtable_def waker_wake_def bindR_Inr_iff)
  show ?thesis using rc_drop_frees [OF s1(2)] schedule_fused [OF s1(1)] by (simp add: frees_def)
next
  case (WakeByRef i)
  then show ?thesis
    using assms schedule_fused [of i s s']
    by (auto simp: waker_vtable_def waker_wake_by_ref_def mapR_Inr_iff intro!: frees_same)
next
  case (DropWaker i)
  then show ?thesis using assms rc_drop_frees [of E i s s' js] by (simp add: waker_vtable_def waker_drop_def)
qed

lemma set_future_same:
  assumes "task_at s i = None"
  shows "set_future i fu s = s"
proof (cases "i < length (ex_tasks s)")
  case True
  then have "ex_tasks s ! i = None" using assms by (simp add: task_at_def)
  then have "(ex_tasks s)[i := None] = ex_tasks s" by (metis list_update_id)
  then show ?thesis using assms by (simp add: set_future_def set_task_def)
qed (simp add: assms set_future_def set_task_def list_update_beyond)

definition still ::
    "('w \<Rightarrow> (chan \<times> task_id) set) \<Rightarrow> ('w \<Rightarrow> chan set) \<Rightarrow> ('w \<Rightarrow> chan set) \<Rightarrow> 'w \<Rightarrow> 'w \<Rightarrow> bool" where
  "still waits opened used w w' \<longleftrightarrow> waits w' \<subseteq> waits w \<and> opened w' \<subseteq> opened w \<and> used w \<subseteq> used w'"

lemma still_refl [simp]: "still waits opened used w w"
  by (simp add: still_def)

locale handing = owning E own_f own_w own_a own_b res_f res_a res_b wok okp
  for E :: "('f, 'v, 'w, 'a) exec_env" and own_f own_w own_a own_b
    and res_f :: "'f \<Rightarrow> 'r multiset" and res_a res_b wok okp +
  fixes own_r :: "'w \<Rightarrow> task_id multiset" and knows :: "'f \<Rightarrow> chan set"
    and waits :: "'w \<Rightarrow> (chan \<times> task_id) set" and opened used :: "'w \<Rightarrow> chan set"
  assumes waker_kept: "i \<in># own_w w \<Longrightarrow> i \<in># own_r w \<or> (\<exists>d. (d, i) \<in> waits w)"
    and waits_opened: "(d, i) \<in> waits w \<Longrightarrow> d \<in> opened w"
    and opened_used: "opened w \<subseteq> used w"
    and hand_does: "ex_poll E f i w = (Does e f', w') \<Longrightarrow>
      knows f' \<subseteq> knows f \<and> waits w' \<subseteq> waits w \<union> knows f \<times> {i} \<and> opened w' \<subseteq> opened w \<and> used w \<subseteq> used w'"
    and hand_spawn: "ex_poll E f i w = (Spawns g k, w') \<Longrightarrow>
      knows g \<subseteq> knows f \<and> knows (k ch) \<subseteq> insert ch (knows f) \<and> own_f g = {#} \<and> still waits opened used w w'"
    and hand_pends: "ex_poll E f i w = (Pends f', w') \<Longrightarrow> knows f' \<subseteq> knows f \<and> own_f f' = {#} \<and> still waits opened used w w'"
    and hand_ends: "ex_poll E f i w = (Ends v, w') \<Longrightarrow> still waits opened used w w'"
    and hand_act: "ex_act E a w = Inr (w', cl) \<Longrightarrow> still waits opened used w w'"
    and hand_after: "still waits opened used w (ex_after E a w)"
    and hand_new: "ch_new E w = (ch, w') \<Longrightarrow>
      ch \<notin> used w \<and> insert ch (used w) \<subseteq> used w' \<and> opened w' \<subseteq> insert ch (opened w) \<and> waits w' \<subseteq> waits w"
    and hand_send: "ch_send E ch v w = (w', cl) \<Longrightarrow> still waits opened used w w' \<and> ch \<notin> opened w'"
    and hand_close: "ch_close E ch w = (w', cl) \<Longrightarrow> still waits opened used w w' \<and> ch \<notin> opened w'"
    and hand_wait: "react_wait E w = Inr (w', cs) \<Longrightarrow> still waits opened used w w'"
begin

definition placed :: "(chan \<Rightarrow> nat) \<Rightarrow> 'w \<Rightarrow> task_id \<Rightarrow> 'f \<Rightarrow> chan \<Rightarrow> bool" where
  "placed rank w j f c \<longleftrightarrow>
     c \<in> used w \<and> knows f \<subseteq> used w \<and> (\<forall>d\<in>knows f. rank d < rank c) \<and> (\<forall>d. (d, j) \<in> waits w \<longrightarrow> rank d < rank c)"

text \<open>
  Every task is above what it knows, every open channel is some task's or among the \<open>D\<close> about to
  be closed, and futures own no waker between their polls.
\<close>

definition ranks :: "(chan \<Rightarrow> nat) \<Rightarrow> (task_id \<times> ('f \<times> chan) option) option \<Rightarrow> ('f, 'w) executor \<Rightarrow> bool" where
  "ranks rank P s \<longleftrightarrow> (\<forall>j f c. fut_view P s j = Some (f, c) \<longrightarrow> placed rank (ex_world s) j f c)"

definition ordered :: "(task_id \<times> ('f \<times> chan) option) option \<Rightarrow> chan set \<Rightarrow> ('f, 'w) executor \<Rightarrow> bool" where
  "ordered P D s \<longleftrightarrow>
     (\<exists>rank. ranks rank P s) \<and>
     (\<forall>d\<in>opened (ex_world s). d \<in> D \<or> (\<exists>j f. fut_view P s j = Some (f, d))) \<and>
     (\<forall>j f c. fused_at s j = Some (f, c) \<longrightarrow> own_f f = {#}) \<and>
     (\<forall>d j. (d, j) \<in> waits (ex_world s) \<longrightarrow> j < length (ex_tasks s)) \<and>
     (case P of None \<Rightarrow> True | Some (i, x) \<Rightarrow> i < length (ex_tasks s) \<and> fused_at s i = None)"

abbreviation calm_step :: "'w \<Rightarrow> 'w \<Rightarrow> bool" where
  "calm_step w w' \<equiv> still waits opened used w w'"

lemma orderedI:
  assumes "\<And>j f c. fut_view P s j = Some (f, c) \<Longrightarrow> placed rank (ex_world s) j f c"
    and "\<And>d. d \<in> opened (ex_world s) \<Longrightarrow> d \<in> D \<or> (\<exists>j f. fut_view P s j = Some (f, d))"
    and "\<And>j f c. fused_at s j = Some (f, c) \<Longrightarrow> own_f f = {#}"
    and "\<And>d j. (d, j) \<in> waits (ex_world s) \<Longrightarrow> j < length (ex_tasks s)"
    and "\<And>i x. P = Some (i, x) \<Longrightarrow> i < length (ex_tasks s) \<and> fused_at s i = None"
  shows "ordered P D s"
  using assms by (auto simp: ordered_def ranks_def split: option.splits)

lemma ordered_rank: "ordered P D s \<Longrightarrow> \<exists>rank. ranks rank P s"
  unfolding ordered_def by (rule conjunct1)

lemma ordered_open:
  "ordered P D s \<Longrightarrow> d \<in> opened (ex_world s) \<Longrightarrow> d \<in> D \<or> (\<exists>j f. fut_view P s j = Some (f, d))"
  unfolding ordered_def by blast

lemma ordered_own: "ordered P D s \<Longrightarrow> fused_at s j = Some (f, c) \<Longrightarrow> own_f f = {#}"
  unfolding ordered_def by blast

lemma ordered_waits: "ordered P D s \<Longrightarrow> (d, j) \<in> waits (ex_world s) \<Longrightarrow> j < length (ex_tasks s)"
  unfolding ordered_def by blast

lemma ordered_polled: "ordered (Some (i, x)) D s \<Longrightarrow> i < length (ex_tasks s) \<and> fused_at s i = None"
  unfolding ordered_def option.case prod.case by (elim conjE) (rule conjI)

lemma placed_still: "placed rank w j f c \<Longrightarrow> calm_step w w' \<Longrightarrow> placed rank w' j f c"
  unfolding placed_def still_def by (meson subset_iff)

lemma ordered_world:
  assumes o1: "ordered P D s" and c: "calm_step (ex_world s) w'"
  shows "ordered P D (s\<lparr>ex_world := w'\<rparr>)"
proof -
  obtain rank where "ranks rank P s" using ordered_rank [OF o1] ..
  note r = this [unfolded ranks_def, rule_format]
  have st: "waits w' \<subseteq> waits (ex_world s)" "opened w' \<subseteq> opened (ex_world s)" using c by (simp_all add: still_def)
  show ?thesis
  proof (rule orderedI [where rank = rank])
    fix d assume "d \<in> opened (ex_world (s\<lparr>ex_world := w'\<rparr>))"
    then have "d \<in> opened (ex_world s)" using st(2) by auto
    from ordered_open [OF o1 this] show "d \<in> D \<or> (\<exists>j f. fut_view P (s\<lparr>ex_world := w'\<rparr>) j = Some (f, d))" by simp
  next
    fix d j assume "(d, j) \<in> waits (ex_world (s\<lparr>ex_world := w'\<rparr>))"
    then have "(d, j) \<in> waits (ex_world s)" using st(1) by auto
    from ordered_waits [OF o1 this] show "j < length (ex_tasks (s\<lparr>ex_world := w'\<rparr>))" by simp
  qed (use r placed_still [OF _ c] ordered_own [OF o1] ordered_polled o1 in auto)
qed

lemma ordered_frees:
  assumes o1: "ordered P D s" and f: "frees D' s s'"
  shows "ordered P (D \<union> D') s'"
proof -
  obtain rank where "ranks rank P s" using ordered_rank [OF o1] ..
  note r = this [unfolded ranks_def, rule_format]
  have w: "ex_world s' = ex_world s" "length (ex_tasks s') = length (ex_tasks s)" using f by (simp_all add: frees_def)
  have f1: "fused_at s' j = fused_at s j \<or> fused_at s' j = None \<and> (\<forall>f c. fused_at s j = Some (f, c) \<longrightarrow> c \<in> D')" for j
    using f by (simp add: frees_def)
  have v: "fut_view P s' j = fut_view P s j \<or> fut_view P s' j = None \<and> (\<forall>f c. fut_view P s j = Some (f, c) \<longrightarrow> c \<in> D')" for j
    using f1 [of j] by (simp add: fut_view_def split: option.splits)
  show ?thesis
  proof (rule orderedI [where rank = rank])
    fix j g c assume "fut_view P s' j = Some (g, c)"
    then have "fut_view P s j = Some (g, c)" using v [of j] by auto
    then show "placed rank (ex_world s') j g c" using r w by simp
  next
    fix d assume "d \<in> opened (ex_world s')"
    then have d: "d \<in> opened (ex_world s)" using w by simp
    show "d \<in> D \<union> D' \<or> (\<exists>j f. fut_view P s' j = Some (f, d))" using ordered_open [OF o1 d] v by (metis UnI1 UnI2)
  next
    fix j g c assume "fused_at s' j = Some (g, c)"
    then have "fused_at s j = Some (g, c)" using f1 [of j] by auto
    then show "own_f g = {#}" by (rule ordered_own [OF o1])
  next
    fix i x assume "P = Some (i, x)"
    then show "i < length (ex_tasks s') \<and> fused_at s' i = None"
      using ordered_polled [of i x D s] o1 f1 [of i] w by auto
  next
    fix d j assume "(d, j) \<in> waits (ex_world s')"
    then show "j < length (ex_tasks s')" using ordered_waits [OF o1] w by simp
  qed
qed

lemma ordered_closed: "ordered P (insert c D) s \<Longrightarrow> c \<notin> opened (ex_world s) \<Longrightarrow> ordered P D s"
  unfolding ordered_def by (elim conjE, intro conjI) auto

lemma world_call_ordered:
  assumes "ordered P D (s\<lparr>ex_world := fst wc\<rparr>)" "world_call E wc s = Inr (s', js)"
  shows "ordered P (D \<union> closes js) s'"
proof (cases "snd wc")
  case None
  then show ?thesis using assms by (auto simp: world_call_def)
next
  case (Some c)
  then have "frees (closes js) (s\<lparr>ex_world := fst wc\<rparr>) s'" using assms(2) by (auto simp: world_call_def intro: vtable_frees)
  from ordered_frees [OF assms(1) this] show ?thesis .
qed

lemma run_job_ordered:
  assumes o1: "ordered P (closes [j] \<union> D) s" and r: "run_job E j s = Inr (s', js)"
  shows "ordered P (D \<union> closes js) s'"
proof (cases j)
  case (Act a)
  then obtain w' cl ds where a: "ex_act E a (ex_world s) = Inr (w', cl)" "world_call E (w', cl) s = Inr (s', ds)" "js = ds @ [After a]"
    using r by (auto simp: run_job_def bindR_Inr_iff mapR_Inr_iff)
  have "ordered P D (s\<lparr>ex_world := w'\<rparr>)" using ordered_world [OF o1 hand_act [OF a(1)]] Act by simp
  then show ?thesis using world_call_ordered [where wc = "(w', cl)" and P = P and D = D] a by simp
next
  case (After a)
  then show ?thesis using ordered_world [OF o1 hand_after] r by (auto simp: run_job_def)
next
  case (Close c)
  obtain w' cl where c: "ch_close E c (ex_world s) = (w', cl)" by fastforce
  note h = hand_close [OF c]
  have "ordered P (insert c D) (s\<lparr>ex_world := w'\<rparr>)" using ordered_world [OF o1, of w'] h Close by simp
  then have "ordered P D (s\<lparr>ex_world := w'\<rparr>)" by (rule ordered_closed) (use h in simp)
  then show ?thesis using world_call_ordered [where wc = "(w', cl)" and P = P and D = D] r Close c by (simp add: run_job_def)
qed

lemma run_jobs_same_ordered:
  "F = E \<Longrightarrow> run_jobs F js s = Inr s' \<Longrightarrow> ordered P (D \<union> closes js) s \<Longrightarrow> ordered P D s'"
proof (induction F js s arbitrary: D rule: run_jobs.induct [case_names Nil Cons])
  case (Cons F j js s)
  obtain s1 ds where 1: "run_job E j s = Inr (s1, ds)" using Cons.prems by (auto split: sum.splits)
  have "closes (j # js) = closes [j] \<union> closes js" by (cases j) simp_all
  then have "ordered P (closes [j] \<union> (D \<union> closes js)) s" using Cons.prems(3) by (simp add: Un_ac)
  from run_job_ordered [OF this 1] have "ordered P (D \<union> closes (ds @ js)) s1" by (simp add: Un_ac)
  then show ?case using Cons.IH [of "(s1, ds)" s1 ds D] Cons.prems 1 by auto
qed simp

lemmas run_jobs_ordered = run_jobs_same_ordered [OF refl]

lemma call_waker_ordered:
  assumes "ordered P D (s\<lparr>ex_world := fst wc\<rparr>)" "call_waker E wc s = Inr s'"
  shows "ordered P D s'"
proof -
  obtain s1 js where 1: "world_call E wc s = Inr (s1, js)" "run_jobs E js s1 = Inr s'"
    using assms(2) by (auto simp: call_waker_def bindR_Inr_iff)
  show ?thesis by (rule run_jobs_ordered [OF 1(2) world_call_ordered [OF assms(1) 1(1)]])
qed

lemma drop_rc_ordered:
  assumes "ordered P D s" "drop_rc E i s = Inr s'"
  shows "ordered P D s'"
proof -
  obtain s1 js where 1: "rc_drop E i s = Inr (s1, js)" "run_jobs E js s1 = Inr s'"
    using assms(2) by (auto simp: drop_rc_def bindR_Inr_iff)
  show ?thesis by (rule run_jobs_ordered [OF 1(2) ordered_frees [OF assms(1) rc_drop_frees [OF 1(1)]]])
qed

subsection \<open>A task that is polled\<close>

lemma view_polled [simp]: "fut_view (Some (i, x)) s j = (if j = i then x else fused_at s j)"
  by (simp add: fut_view_def)

lemma view_none [simp]: "fut_view None s = fused_at s"
  by (simp add: fut_view_def fun_eq_iff)

text \<open>The future comes to wait for channels it knows.\<close>

lemma ordered_move:
  assumes o1: "ordered (Some (i, Some (f, c))) D s"
    and f': "knows f' \<subseteq> knows f" "waits w' \<subseteq> waits (ex_world s) \<union> knows f \<times> {i}"
      "opened w' \<subseteq> opened (ex_world s)" "used (ex_world s) \<subseteq> used w'"
  shows "ordered (Some (i, Some (f', c))) D (s\<lparr>ex_world := w'\<rparr>)"
proof -
  obtain rank where "ranks rank (Some (i, Some (f, c))) s" using ordered_rank [OF o1] ..
  note r = this [unfolded ranks_def, rule_format]
  have ri: "placed rank (ex_world s) i f c" using r [of i f c] by simp
  note pol = ordered_polled [OF o1]
  show ?thesis
  proof (rule orderedI [where rank = rank])
    fix j g e assume v: "fut_view (Some (i, Some (f', c))) (s\<lparr>ex_world := w'\<rparr>) j = Some (g, e)"
    show "placed rank (ex_world (s\<lparr>ex_world := w'\<rparr>)) j g e"
    proof (cases "j = i")
      case True
      then show ?thesis using v ri f' by (auto simp: placed_def)
    next
      case False
      then have "placed rank (ex_world s) j g e" using v r [of j g e] by simp
      then show ?thesis using f' False by (auto simp: placed_def)
    qed
  next
    fix d assume "d \<in> opened (ex_world (s\<lparr>ex_world := w'\<rparr>))"
    then have "d \<in> opened (ex_world s)" using f'(3) by auto
    from ordered_open [OF o1 this]
    show "d \<in> D \<or> (\<exists>j g. fut_view (Some (i, Some (f', c))) (s\<lparr>ex_world := w'\<rparr>) j = Some (g, d))"
      by (auto split: if_splits)
  next
    fix d j assume "(d, j) \<in> waits (ex_world (s\<lparr>ex_world := w'\<rparr>))"
    then have "(d, j) \<in> waits (ex_world s) \<or> j = i" using f'(2) by auto
    then show "j < length (ex_tasks (s\<lparr>ex_world := w'\<rparr>))" using ordered_waits [OF o1] pol by auto
  qed (use pol ordered_own [OF o1] in auto)
qed

text \<open>A new task: it is put just below the task that spawns it, and knows no more than that.\<close>

lemma spawn_shape:
  assumes "executor_spawn E g s = (ch, s')" "ch_new E (ex_world s) = (ch', w')"
  shows "ch' = ch" "ex_world s' = w'" "length (ex_tasks s') = Suc (length (ex_tasks s))"
    "fused_at s' j = (if j = length (ex_tasks s) then Some (g, ch) else fused_at s j)"
  using assms
  by (auto simp: executor_spawn_def queue_schedule_def fused_at_def fut_at_def task_at_def nth_append)

definition insert_below :: "chan \<Rightarrow> nat \<Rightarrow> (chan \<Rightarrow> nat) \<Rightarrow> chan \<Rightarrow> nat" where
  "insert_below ch n rank d = (if d = ch then n else if n \<le> rank d then Suc (rank d) else rank d)"

lemma insert_below_mono: "d \<noteq> ch \<Longrightarrow> e \<noteq> ch \<Longrightarrow> rank d < rank e \<Longrightarrow> insert_below ch n rank d < insert_below ch n rank e"
  by (simp add: insert_below_def)

lemma spawn_ordered:
  assumes o1: "ordered (Some (i, Some (f, c))) D s" and sp: "executor_spawn E g s = (ch, s')"
    and g: "knows g \<subseteq> knows f" "knows f' \<subseteq> insert ch (knows f)" "own_f g = {#}"
  shows "ordered (Some (i, Some (f', c))) D s'"
proof -
  obtain ch' w' where n: "ch_new E (ex_world s) = (ch', w')" by fastforce
  note sh = spawn_shape [OF sp n]
  have h: "ch \<notin> used (ex_world s)" "insert ch (used (ex_world s)) \<subseteq> used w'"
      "opened w' \<subseteq> insert ch (opened (ex_world s))" "waits w' \<subseteq> waits (ex_world s)"
    using hand_new [OF n] sh(1) by auto
  obtain rank where "ranks rank (Some (i, Some (f, c))) s" using ordered_rank [OF o1] ..
  note r = this [unfolded ranks_def, rule_format]
  have ri: "placed rank (ex_world s) i f c" using r [of i f c] by simp
  note pol = ordered_polled [OF o1]
  let ?n = "length (ex_tasks s)" and ?r = "insert_below ch (rank c) rank"
  have used: "d \<noteq> ch" if "d \<in> used (ex_world s)" for d using h(1) that by auto
  have wu: "d \<noteq> ch" if "(d, j) \<in> waits w'" for d j
  proof -
    have "(d, j) \<in> waits (ex_world s)" using that h(4) by blast
    then have "d \<in> used (ex_world s)" using waits_opened opened_used by blast
    then show ?thesis by (rule used)
  qed
  have c: "c \<noteq> ch" "c \<in> used w'" "knows f \<subseteq> used (ex_world s)" using ri used h(2) by (auto simp: placed_def)
  have rc: "?r c = Suc (rank c)" "?r ch = rank c" using c(1) by (simp_all add: insert_below_def)
  have low: "?r d = rank d" if "d \<in> knows f" for d using ri that used by (auto simp: placed_def insert_below_def)
  show ?thesis
  proof (rule orderedI [where rank = ?r])
    fix j g0 e assume v: "fut_view (Some (i, Some (f', c))) s' j = Some (g0, e)"
    consider "j = i" "g0 = f'" "e = c" | "j \<noteq> i" "j = ?n" "g0 = g" "e = ch" | "j \<noteq> i" "j \<noteq> ?n" "fused_at s j = Some (g0, e)"
      using v sh(4) [of j] by (auto split: if_splits)
    then show "placed ?r (ex_world s') j g0 e"
    proof cases
      case 1
      have "?r d < ?r c" if "d \<in> knows f'" for d
        using that g(2) rc low ri by (cases "d = ch") (auto simp: placed_def less_Suc_eq)
      moreover have "?r d < ?r c" if "(d, i) \<in> waits w'" for d
        using insert_below_mono [OF wu [OF that] c(1)] ri that h(4) by (auto simp: placed_def)
      ultimately show ?thesis using 1 sh(2) c g(2) h(2) by (auto simp: placed_def)
    next
      case 2
      have "?r d < ?r ch" if "d \<in> knows g" for d using that g(1) rc low ri by (auto simp: placed_def)
      moreover have "(d, ?n) \<notin> waits w'" for d using ordered_waits [OF o1, of d ?n] h(4) by auto
      ultimately show ?thesis using 2 sh(2) c g(1) h(2) by (auto simp: placed_def)
    next
      case 3
      then have p: "placed rank (ex_world s) j g0 e" using r [of j g0 e] by simp
      then have e: "e \<noteq> ch" "knows g0 \<subseteq> used (ex_world s)" using used by (auto simp: placed_def)
      have "?r d < ?r e" if "d \<in> knows g0" for d
        by (rule insert_below_mono [OF _ e(1)]) (use that p e(2) used in \<open>auto simp: placed_def\<close>)
      moreover have "?r d < ?r e" if "(d, j) \<in> waits w'" for d
        by (rule insert_below_mono [OF wu [OF that] e(1)]) (use that p h(4) in \<open>auto simp: placed_def\<close>)
      ultimately show ?thesis using p h(2) sh(2) by (auto simp: placed_def)
    qed
  next
    fix d assume "d \<in> opened (ex_world s')"
    then consider "d = ch" | "d \<in> opened (ex_world s)" using h(3) sh(2) by auto
    then show "d \<in> D \<or> (\<exists>j g0. fut_view (Some (i, Some (f', c))) s' j = Some (g0, d))"
    proof cases
      case 1
      then have "fut_view (Some (i, Some (f', c))) s' ?n = Some (g, d)" using pol sh(4) by simp
      then show ?thesis by blast
    next
      case 2
      from ordered_open [OF o1 2] show ?thesis
      proof (elim disjE exE)
        fix j g0 assume v: "fut_view (Some (i, Some (f, c))) s j = Some (g0, d)"
        have "j \<noteq> ?n" if "fused_at s j = Some (g0, d)"
          using that task_at_length [of s j] by (auto simp: fused_at_def fut_at_def split: option.splits)
        then have "fut_view (Some (i, Some (f', c))) s' j = Some (if j = i then f' else g0, d)"
          using v sh(4) [of j] by (auto split: if_splits)
        then show ?thesis by blast
      qed simp
    qed
  next
    fix j g0 e assume "fused_at s' j = Some (g0, e)"
    then show "own_f g0 = {#}" using sh(4) [of j] ordered_own [OF o1, of j g0 e] g(3) by (auto split: if_splits)
  next
    fix d j assume "(d, j) \<in> waits (ex_world s')"
    then show "j < length (ex_tasks s')" using ordered_waits [OF o1, of d j] h(4) sh(2,3) by fastforce
  next
    fix i0 x assume "Some (i, Some (f', c)) = Some (i0, x)"
    then show "i0 < length (ex_tasks s') \<and> fused_at s' i0 = None" using pol sh(3,4) by auto
  qed
qed

text \<open>A task spawned from outside, which knows nothing.\<close>

lemma spawn_top_ordered:
  assumes o1: "ordered None {} s" and sp: "executor_spawn E g s = (ch, s')" and g: "knows g = {}" "own_f g = {#}"
  shows "ordered None {} s'"
proof -
  obtain ch' w' where n: "ch_new E (ex_world s) = (ch', w')" by fastforce
  note sh = spawn_shape [OF sp n]
  have h: "insert ch (used (ex_world s)) \<subseteq> used w'"
      "opened w' \<subseteq> insert ch (opened (ex_world s))" "waits w' \<subseteq> waits (ex_world s)"
    using hand_new [OF n] sh(1) by auto
  obtain rank where "ranks rank None s" using ordered_rank [OF o1] ..
  note r = this [unfolded ranks_def, rule_format]
  let ?n = "length (ex_tasks s)"
  show ?thesis
  proof (rule orderedI [where rank = rank])
    fix j g0 e assume v: "fut_view None s' j = Some (g0, e)"
    show "placed rank (ex_world s') j g0 e"
    proof (cases "j = ?n")
      case True
      then have "(d, j) \<notin> waits w'" for d using ordered_waits [OF o1, of d j] h(3) by auto
      then show ?thesis using True v sh(2,4) g h(1) by (auto simp: placed_def)
    next
      case False
      then have "placed rank (ex_world s) j g0 e" using v sh(4) [of j] r [of j g0 e] by simp
      then show ?thesis using sh(2) h by (auto simp: placed_def)
    qed
  next
    fix d assume "d \<in> opened (ex_world s')"
    then consider "d = ch" | "d \<in> opened (ex_world s)" using h(2) sh(2) by auto
    then show "d \<in> {} \<or> (\<exists>j g0. fut_view None s' j = Some (g0, d))"
    proof cases
      case 2
      then obtain j g0 where "fused_at s j = Some (g0, d)" using ordered_open [OF o1, of d] by auto
      then have "fused_at s' j = Some (g0, d)"
        using sh(4) [of j] task_at_length [of s j] by (auto simp: fused_at_def fut_at_def split: option.splits)
      then show ?thesis by auto
    qed (use sh(4) [of ?n] in auto)
  next
    fix j g0 e assume "fused_at s' j = Some (g0, e)"
    then show "own_f g0 = {#}" using sh(4) [of j] ordered_own [OF o1, of j g0 e] g(2) by (auto split: if_splits)
  next
    fix d j assume "(d, j) \<in> waits (ex_world s')"
    then show "j < length (ex_tasks s')" using ordered_waits [OF o1, of d j] h(3) sh(2,3) by fastforce
  qed simp
qed

lemma run_effect_ordered:
  assumes o1: "ordered (Some (i, Some (f, c))) D s" and m: "ex_poll E f i (ex_world s) = (Does e f', w')"
    and r: "run_effect E e w' s = Inr s'"
  shows "ordered (Some (i, Some (f', c))) D s'"
proof -
  have "ordered (Some (i, Some (f', c))) D (s\<lparr>ex_world := w'\<rparr>)"
    by (rule ordered_move [OF o1]) (use hand_does [OF m] in auto)
  then show ?thesis
    using r call_waker_ordered [where wc = "(w', Some cl)" for cl]
    by (cases e) (auto simp: run_effect_def)
qed

definition end_view :: "'f + 'v \<Rightarrow> chan \<Rightarrow> ('f \<times> chan) option" where
  "end_view x c = (case x of Inl f \<Rightarrow> Some (f, c) | Inr _ \<Rightarrow> None)"

definition end_closes :: "'f + 'v \<Rightarrow> chan \<Rightarrow> chan set" where
  "end_closes x c = (case x of Inl f \<Rightarrow> {} | Inr _ \<Rightarrow> {c})"

definition end_free :: "'f + 'v \<Rightarrow> bool" where
  "end_free x \<longleftrightarrow> (case x of Inl f \<Rightarrow> own_f f = {#} | Inr _ \<Rightarrow> True)"

lemma ordered_ends:
  assumes o1: "ordered (Some (i, Some (f, c))) D s"
  shows "ordered (Some (i, None)) (insert c D) s"
proof -
  obtain rank where "ranks rank (Some (i, Some (f, c))) s" using ordered_rank [OF o1] ..
  note r = this [unfolded ranks_def, rule_format]
  show ?thesis
  proof (rule orderedI [where rank = rank])
    fix j g e assume "fut_view (Some (i, None)) s j = Some (g, e)"
    then show "placed rank (ex_world s) j g e" using r [of j g e] by (auto split: if_splits)
  next
    fix d assume "d \<in> opened (ex_world s)"
    from ordered_open [OF o1 this] show "d \<in> insert c D \<or> (\<exists>j g. fut_view (Some (i, None)) s j = Some (g, d))"
      by (auto split: if_splits)
  qed (use ordered_own [OF o1] ordered_waits [OF o1] ordered_polled [OF o1] in auto)
qed

lemma poll_moves_ordered:
  "poll_moves E n i f s = Some (Inr (x, s')) \<Longrightarrow> ordered (Some (i, Some (f, c))) {} s \<Longrightarrow>
    ordered (Some (i, end_view x c)) (end_closes x c) s' \<and> end_free x"
proof (induction n arbitrary: f s)
  case (Suc n)
  obtain m w' where m: "ex_poll E f i (ex_world s) = (m, w')" by fastforce
  show ?case
  proof (cases m)
    case (Does e f')
    then obtain s1 where s1: "run_effect E e w' s = Inr s1" "poll_moves E n i f' s1 = Some (Inr (x, s'))"
      using Suc.prems(1) m by (auto split: sum.splits)
    show ?thesis by (rule Suc.IH [OF s1(2) run_effect_ordered [OF Suc.prems(2) m [unfolded Does] s1(1)]])
  next
    case (Spawns g k)
    obtain ch s1 where sp: "executor_spawn E g (s\<lparr>ex_world := w'\<rparr>) = (ch, s1)" by fastforce
    note h = hand_spawn [OF m [unfolded Spawns], of ch]
    have "ordered (Some (i, Some (f, c))) {} (s\<lparr>ex_world := w'\<rparr>)" by (rule ordered_world [OF Suc.prems(2)]) (use h in simp)
    then have "ordered (Some (i, Some (k ch, c))) {} s1" by (rule spawn_ordered [OF _ sp]) (use h in auto)
    then show ?thesis using Suc.IH Suc.prems(1) m Spawns sp by simp
  next
    case (Pends f')
    note h = hand_pends [OF m [unfolded Pends]]
    have "ordered (Some (i, Some (f', c))) {} (s\<lparr>ex_world := w'\<rparr>)"
      by (rule ordered_move [OF Suc.prems(2)]) (use h in \<open>auto simp: still_def\<close>)
    then show ?thesis
      using Suc.prems(1) m Pends h by (auto simp: end_view_def end_closes_def end_free_def)
  next
    case (Ends v)
    have "ordered (Some (i, Some (f, c))) {} (s\<lparr>ex_world := w'\<rparr>)"
      by (rule ordered_world [OF Suc.prems(2) hand_ends [OF m [unfolded Ends]]])
    from ordered_ends [OF this] show ?thesis
      using Suc.prems(1) m Ends by (auto simp: end_view_def end_closes_def end_free_def)
  next
    case (Panics p)
    then show ?thesis using Suc.prems(1) m by simp
  qed
qed simp

text \<open>The end of a poll. A task that is polled is alive.\<close>

lemma fused_set_future:
  "fut_at s i \<noteq> None \<Longrightarrow>
    fused_at (set_future i fu s) j = (if j = i then (case fu of Fused f c \<Rightarrow> Some (f, c) | _ \<Rightarrow> None) else fused_at s j)"
  using fut_set_future [of s i _ fu j] by (auto simp: fused_at_def)

lemma ordered_rest:
  assumes o1: "ordered (Some (i, x)) D s" and v: "fused_at s' = (fused_at s)(i := x)"
    and s': "ex_world s' = ex_world s" "length (ex_tasks s') = length (ex_tasks s)"
    and own: "\<And>f c. x = Some (f, c) \<Longrightarrow> own_f f = {#}"
  shows "ordered None D s'"
proof -
  obtain rank where "ranks rank (Some (i, x)) s" using ordered_rank [OF o1] ..
  note r = this [unfolded ranks_def, rule_format]
  show ?thesis
  proof (rule orderedI [where rank = rank])
    fix j g e assume "fused_at s' j = Some (g, e)"
    then show "own_f g = {#}" using v own ordered_own [OF o1] by (auto split: if_splits)
  qed (use r ordered_open [OF o1] ordered_waits [OF o1] in \<open>simp_all add: v s'\<close>)
qed

lemma set_future_length [simp]: "length (ex_tasks (set_future i fu s)) = length (ex_tasks s)"
  by (simp add: set_future_def)

lemma set_future_world [simp]: "ex_world (set_future i fu s) = ex_world s"
  by (simp add: set_future_def)

lemma finish_poll_ordered:
  assumes o1: "ordered (Some (i, end_view x c)) (end_closes x c) s" "end_free x"
    and i: "fut_at s i = Some InPoll" and f: "finish_poll E i c (x, s) = Inr s'"
  shows "ordered None {} s'"
proof (cases x)
  case (Inl g)
  then have s': "s' = set_future i (Fused g c) s" using f by (simp add: finish_poll_def)
  have "fused_at s' = (fused_at s)(i := Some (g, c))" using fused_set_future [of s i "Fused g c"] i s' by (auto simp: fun_eq_iff)
  then show ?thesis
    using ordered_rest [of i "Some (g, c)" "{}" s s'] o1 Inl s' by (simp add: end_view_def end_closes_def end_free_def)
next
  case (Inr v)
  obtain w' cl where sd: "ch_send E c v (ex_world s) = (w', cl)" by fastforce
  then obtain s1 where s1: "call_waker E (w', cl) s = Inr s1" "s' = set_future i Terminated s1"
    using f Inr by (auto simp: finish_poll_def mapR_Inr_iff)
  have "ordered (Some (i, None)) {c} s" using o1 Inr by (simp add: end_view_def end_closes_def)
  then have "ordered (Some (i, None)) {c} (s\<lparr>ex_world := w'\<rparr>)" by (rule ordered_world) (use hand_send [OF sd] in simp)
  then have "ordered (Some (i, None)) {} (s\<lparr>ex_world := w'\<rparr>)" by (rule ordered_closed) (use hand_send [OF sd] in simp)
  then have o2: "ordered (Some (i, None)) {} s1" using call_waker_ordered [OF _ s1(1)] by simp
  have n: "fused_at s1 i = None" using ordered_polled [OF o2] by simp
  have "fused_at s' j = fused_at s1 j" for j
  proof (cases "fut_at s1 i")
    case None
    then have "s' = s1" unfolding s1(2) by (intro set_future_same) (simp add: fut_at_def)
    then show ?thesis by simp
  next
    case (Some fu)
    then show ?thesis using fused_set_future [of s1 i Terminated j] n s1(2) by simp
  qed
  then have "fused_at s' = (fused_at s1)(i := None)" using n by (auto simp: fun_eq_iff)
  from ordered_rest [OF o2 this] show ?thesis using s1(2) by simp
qed

lemma polled_ordered:
  assumes o1: "ordered None {} s" and t: "fut_at s i = Some (Fused f c)"
  shows "ordered (Some (i, Some (f, c))) {} (set_future i InPoll s)"
proof -
  obtain rank where "ranks rank None s" using ordered_rank [OF o1] ..
  note r = this [unfolded ranks_def, rule_format]
  have l: "i < length (ex_tasks s)" using t task_at_length by (auto simp: fut_at_def)
  have fa: "fused_at s i = Some (f, c)" using t by (simp add: fused_at_def)
  have v: "fused_at (set_future i InPoll s) j = (if j = i then None else fused_at s j)" for j
    using fused_set_future [of s i InPoll j] t by simp
  then have same: "fut_view (Some (i, Some (f, c))) (set_future i InPoll s) = fut_view None s" using fa by (auto simp: fun_eq_iff)
  show ?thesis
  proof (rule orderedI [where rank = rank])
    fix j g e assume "fused_at (set_future i InPoll s) j = Some (g, e)"
    then show "own_f g = {#}" using v ordered_own [OF o1] by (auto split: if_splits)
  qed (use r ordered_open [OF o1] ordered_waits [OF o1] l v in \<open>simp_all add: same\<close>)
qed

subsection \<open>The run\<close>

lemma drops_ordered: "ordered None {} s \<Longrightarrow> bindR (drop_rc E i s) (drop_rc E i) = Inr s' \<Longrightarrow> ordered None {} s'"
  by (auto simp: bindR_Inr_iff intro: drop_rc_ordered)

lemma ordered_same:
  assumes "ordered None {} s" "fused_at s' = fused_at s" "ex_world s' = ex_world s" "length (ex_tasks s') = length (ex_tasks s)"
  shows "ordered None {} s'"
  using ordered_frees [OF assms(1) frees_same [OF assms(2-4), of "{}"]] by simp

lemma step_ordered:
  assumes i0: "inv X R s" "idle s" and q: "ex_queue s = i # q" and o1: "ordered None {} s"
    and st: "executor_step E n i (s\<lparr>ex_queue := q\<rparr>) = Some (Inr s')"
  shows "ordered None {} s'"
proof -
  obtain t where t: "task_at s i = Some t" "t_scheduled t"
      "inv (add_mset i (add_mset i X)) R ((set_task i (Some (t\<lparr>t_scheduled := False, t_refs := t_refs t + 1\<rparr>)) s)\<lparr>ex_queue := q\<rparr>)"
      (is "inv ?X R ?s")
    using pop_inv [OF i0(1) q] by blast
  note l = task_at_length [OF t(1)]
  have o2: "ordered None {} ?s" by (rule ordered_same [OF o1]) (simp_all add: fused_at_same [OF t(1)])
  have e: "task_poll E n i (set_task i (Some (t\<lparr>t_refs := t_refs t + 1\<rparr>)) (s\<lparr>ex_queue := q\<rparr>)) =
    (case t_future t of
       InPoll \<Rightarrow> Some (Inl ReactorBusy)
     | Terminated \<Rightarrow> Some (Inr ?s)
     | Fused f c \<Rightarrow> map_option (\<lambda>r. bindR r (finish_poll E i c)) (poll_moves E n i f (set_future i InPoll ?s)))"
    using l by (cases "t_future t"; cases s; cases t; simp add: task_poll_def Let_def set_task_def task_at_def)
  obtain s3 where s3: "task_poll E n i (set_task i (Some (t\<lparr>t_refs := t_refs t + 1\<rparr>)) (s\<lparr>ex_queue := q\<rparr>)) = Some (Inr s3)"
      "bindR (drop_rc E i s3) (drop_rc E i) = Inr s'"
    using st t(1) by (auto simp: executor_step_def rc_clone_def bindR_Inr_iff)
  have "ordered None {} s3"
  proof (cases "t_future t")
    case (Fused f c)
    let ?s1 = "set_future i InPoll ?s"
    have f0: "fut_at ?s i = Some (Fused f c)" using l Fused by (simp add: fut_at_def)
    have "map_option (\<lambda>r. bindR r (finish_poll E i c)) (poll_moves E n i f ?s1) = Some (Inr s3)"
      using s3(1) e Fused by simp
    then obtain x s2 where x: "poll_moves E n i f ?s1 = Some (Inr (x, s2))" "finish_poll E i c (x, s2) = Inr s3"
      by (auto simp: bindR_Inr_iff)
    note m = poll_moves_ordered [OF x(1) polled_ordered [OF o2 f0]]
    have "inv (own_fuse own_f InPoll + ?X) (own_fuse res_f InPoll + R) ?s" using t(3) by (simp add: own_fuse_def)
    from set_future_inv [OF this f0] have 1: "inv (own_f f + ?X) (res_f f + R) ?s1" by (simp add: own_fuse_def)
    have k: "inv (own_end own_f x + ?X) (own_end res_f x + R) s2" "futures_kept ?s1 s2"
      using poll_moves_inv [OF 1 _ x(1)] by (simp_all add: kept_def)
    have "fut_at s2 i = fut_at ?s1 i"
      using inv_fut [OF k(1) _ k(2), of i] l by simp
    then have "fut_at s2 i = Some InPoll" using fut_set_future [OF f0, of InPoll i] by simp
    then show ?thesis using finish_poll_ordered m x(2) by blast
  next
    case Terminated
    then show ?thesis using s3(1) e o2 by simp
  next
    case InPoll
    then show ?thesis using s3(1) e by simp
  qed
  then show ?thesis by (rule drops_ordered [OF _ s3(2)])
qed

lemma drain_ordered:
  "inv X R s \<Longrightarrow> idle s \<Longrightarrow> ordered None {} s \<Longrightarrow> executor_drain E n s = Some (Inr s') \<Longrightarrow> ordered None {} s'"
proof (induction n arbitrary: s)
  case (Suc n)
  show ?case
  proof (cases "ex_queue s")
    case (Cons i q)
    then obtain s1 where s1: "executor_step E (Suc n) i (s\<lparr>ex_queue := q\<rparr>) = Some (Inr s1)" "executor_drain E n s1 = Some (Inr s')"
      using Suc.prems(4) by (auto split: option.splits sum.splits)
    have "rested X R s1" using step_inv [OF Suc.prems(1,2) Cons s1(1)] by simp
    then show ?thesis
      using Suc.IH [OF _ _ step_ordered [OF Suc.prems(1,2) Cons Suc.prems(3) s1(1)] s1(2)] by (simp add: rested_def)
  qed (use Suc.prems in simp)
qed simp

lemma call_all_ordered: "ordered None {} s \<Longrightarrow> call_all E cs s = Inr s' \<Longrightarrow> ordered None {} s'"
proof (induction cs arbitrary: s)
  case (Cons c cs)
  obtain s1 where s1: "call_waker E (ex_world s, Some c) s = Inr s1" "call_all E cs s1 = Inr s'"
    using Cons.prems(2) by (auto simp: bindR_Inr_iff)
  have "ordered None {} s1" by (rule call_waker_ordered [OF _ s1(1)]) (use Cons.prems(1) in simp)
  then show ?case using Cons.IH s1(2) by blast
qed simp

lemma turn_ordered:
  assumes "ordered None {} s" "reactor_turn E s = Inr s'"
  shows "ordered None {} s'"
proof -
  obtain w' cs where w: "react_wait E (ex_world s) = Inr (w', cs)" "call_all E cs (s\<lparr>ex_world := w'\<rparr>) = Inr s'"
    using assms(2) by (auto simp: reactor_turn_def bindR_Inr_iff)
  show ?thesis by (rule call_all_ordered [OF ordered_world [OF assms(1) hand_wait [OF w(1)]] w(2)])
qed

lemma start_ordered:
  assumes "waits w = {}" "opened w = {}"
  shows "ordered None {} (executor_new w)"
  by (rule orderedI [where rank = "\<lambda>_. 0"])
    (use assms in \<open>simp_all add: executor_new_def fused_at_def fut_at_def task_at_def\<close>)

text \<open>With nothing queued, some task alive waits for the reactor: the lowest, or a task that none waits for.\<close>

lemma held_none:
  assumes "ordered None {} s"
  shows "held_futures own_f s = {#}"
proof -
  have "own_task own_f t = {#}" if t: "t \<in> set (ex_tasks s)" for t
  proof -
    obtain j where "j < length (ex_tasks s)" "t = ex_tasks s ! j" using t by (metis in_set_conv_nth)
    then have "t = task_at s j" by (simp add: task_at_def)
    then show ?thesis
      using ordered_own [OF assms, of j]
      by (auto simp: own_task_def own_fuse_def fused_at_def fut_at_def split: option.splits fuse.splits)
  qed
  then have "map (own_task own_f) (ex_tasks s) = map (\<lambda>_. {#}) (ex_tasks s)" by simp
  then show ?thesis by (simp only: held_futures_def) simp
qed

theorem no_deadlock:
  assumes i0: "inv {#} R s" "ex_queue s = []" and a: "0 < alive s" and o1: "ordered None {} s"
  shows "own_r (ex_world s) \<noteq> {#}"
proof
  assume none: "own_r (ex_world s) = {#}"
  have waits: "\<exists>d. (d, j) \<in> waits (ex_world s)" if j: "task_at s j = Some t" for j t
  proof -
    have c: "counted_refs (own_w (ex_world s)) s" using i0(1) held_none [OF o1] by (simp add: exec_inv_def)
    have "\<not> t_scheduled t" using c i0(2) j by (auto simp: counted_refs_def)
    then have "0 < count (own_w (ex_world s)) j" using counted_some [OF c j] by simp
    then have "j \<in># own_w (ex_world s)" by simp
    then show ?thesis using waker_kept none by fastforce
  qed
  obtain t0 where "t0 \<in> set (ex_tasks s)" "t0 \<noteq> None" using a by (auto simp: alive_def filter_empty_conv)
  then obtain i t where "task_at s i = Some t" by (metis task_at_def in_set_conv_nth not_None_eq)
  from waits [OF this] obtain d0 where d0: "\<exists>j. (d0, j) \<in> waits (ex_world s)" by blast
  obtain rank where "ranks rank None s" using ordered_rank [OF o1] ..
  note r = this [unfolded ranks_def, rule_format]
  obtain d where d: "\<exists>j. (d, j) \<in> waits (ex_world s)" "\<And>e. \<exists>j. (e, j) \<in> waits (ex_world s) \<Longrightarrow> rank d \<le> rank e"
    using ex_has_least_nat [where P = "\<lambda>d. \<exists>j. (d, j) \<in> waits (ex_world s)" and m = rank, OF d0] by blast
  then have "d \<in> opened (ex_world s)" using waits_opened by blast
  from ordered_open [OF o1 this] obtain j f where j: "fused_at s j = Some (f, d)" by auto
  then obtain u where "task_at s j = Some u" by (auto simp: fused_at_def fut_at_def split: option.splits)
  from waits [OF this] obtain e where e: "(e, j) \<in> waits (ex_world s)" by blast
  then have "rank e < rank d" using r [of j f d] j by (simp add: placed_def)
  then show False using d(2) e by (meson linorder_not_less)
qed

end

end
