(* ===== verification/ExecutorRun.thy ===== *)
theory ExecutorRun
  imports ExecutorJoin
begin

section \<open>The executor returns\<close>

text \<open>
  When \<open>run\<close> returns. The locale \<open>finishing\<close> gives futures, destructors and the shared state a
  credit that pays for every move of a poll, every task put in the queue and every wait that
  wakes one, futures leave their wakers with the reactor or in a channel (\<open>handing\<close>), a new channel
  is worth \<open>N\<close>, and a wait of the reactor uses up credit when it has a waker. Then the fuel of \<open>executor_run\<close> needs
  only exceed the credit. A poll may make \<open>K\<close> moves that bring the future no further: a task in
  the queue is worth \<open>Suc K\<close>, which pays for its turn and for these moves, so a future at rest
  has the credit \<open>cf\<close> and one in its poll the credit \<open>ci\<close>. The laws are asked of the futures
  \<open>fok\<close> and the shared states \<open>wk\<close>.
\<close>

definition wakes :: "nat \<Rightarrow> waker_call option \<Rightarrow> nat" where
  "wakes K c = (case c of Some (WakeTask _) \<Rightarrow> Suc K | Some (WakeByRef _) \<Rightarrow> Suc K | _ \<Rightarrow> 0)"

definition credit_fuse :: "('f \<Rightarrow> nat) \<Rightarrow> 'f fuse \<Rightarrow> nat" where
  "credit_fuse cf fu = (case fu of Fused f _ \<Rightarrow> cf f | _ \<Rightarrow> 0)"

definition credit_task :: "('f \<Rightarrow> nat) \<Rightarrow> 'f task option \<Rightarrow> nat" where
  "credit_task cf t = (case t of None \<Rightarrow> 0 | Some t \<Rightarrow> credit_fuse cf (t_future t))"

definition credit_job :: "('a \<Rightarrow> nat) \<Rightarrow> 'a job \<Rightarrow> nat" where
  "credit_job ca j = (case j of Act a \<Rightarrow> ca a | _ \<Rightarrow> 0)"

definition credit :: "nat \<Rightarrow> ('f \<Rightarrow> nat) \<Rightarrow> ('w \<Rightarrow> nat) \<Rightarrow> ('f, 'w) executor \<Rightarrow> nat" where
  "credit K cf cw s = Suc K * length (ex_queue s) + cw (ex_world s) + (\<Sum>t\<leftarrow>ex_tasks s. credit_task cf t)"

text \<open>The futures and the shared state are of those the credit is for.\<close>

definition fuse_paced :: "('f \<Rightarrow> bool) \<Rightarrow> 'f fuse \<Rightarrow> bool" where
  "fuse_paced fok fu \<longleftrightarrow> (case fu of Fused f _ \<Rightarrow> fok f | _ \<Rightarrow> True)"

definition all_paced :: "('f \<Rightarrow> bool) \<Rightarrow> ('w \<Rightarrow> bool) \<Rightarrow> ('f, 'w) executor \<Rightarrow> bool" where
  "all_paced fok wk s \<longleftrightarrow> wk (ex_world s) \<and> (\<forall>j fu. fut_at s j = Some fu \<longrightarrow> fuse_paced fok fu)"

lemma all_paced_queue [simp]: "all_paced fok wk (s\<lparr>ex_queue := q\<rparr>) = all_paced fok wk s"
  by (simp add: all_paced_def)

lemma all_paced_world: "all_paced fok wk s \<Longrightarrow> wk w \<Longrightarrow> all_paced fok wk (s\<lparr>ex_world := w\<rparr>)"
  by (simp add: all_paced_def)

lemma all_paced_set:
  "all_paced fok wk s \<Longrightarrow> (\<And>t. t' = Some t \<Longrightarrow> fuse_paced fok (t_future t)) \<Longrightarrow> all_paced fok wk (set_task i t' s)"
  by (auto simp: all_paced_def fut_at_set)

lemma all_paced_at: "all_paced fok wk s \<Longrightarrow> task_at s i = Some t \<Longrightarrow> fuse_paced fok (t_future t)"
  by (auto simp: all_paced_def fut_at_def)

lemma all_paced_update: "all_paced fok wk s \<Longrightarrow> task_at s i = Some t \<Longrightarrow> t_future t' = t_future t \<Longrightarrow> all_paced fok wk (set_task i (Some t') s)"
  by (rule all_paced_set) (auto dest: all_paced_at)

lemma sum_list_update_nat:
  fixes g :: "'x \<Rightarrow> nat"
  shows "i < length xs \<Longrightarrow> sum_list (map g (xs[i := v])) + g (xs ! i) = sum_list (map g xs) + g v"
  by (induction xs arbitrary: i) (auto split: nat.splits)

lemma credit_set:
  "i < length (ex_tasks s) \<Longrightarrow>
    credit K cf cw (set_task i t s) + credit_task cf (task_at s i) = credit K cf cw s + credit_task cf t"
  using sum_list_update_nat [of i "ex_tasks s" "credit_task cf" t]
  by (simp add: credit_def set_task_def task_at_def)

lemma credit_set_Some:
  assumes "task_at s i = Some t"
  shows "credit K cf cw (set_task i t' s) + credit_fuse cf (t_future t) = credit K cf cw s + credit_task cf t'"
  using credit_set [OF task_at_length [OF assms], where t = t' and cf = cf and cw = cw] assms
  by (simp add: credit_task_def)

lemma credit_world: "credit K cf cw (s\<lparr>ex_world := w\<rparr>) + cw (ex_world s) = credit K cf cw s + cw w"
  by (simp add: credit_def)

lemma credit_queue:
  "credit K cf cw (s\<lparr>ex_queue := q\<rparr>) + Suc K * length (ex_queue s) = credit K cf cw s + Suc K * length q"
  by (simp add: credit_def)

lemma schedule_credit:
  assumes "task_schedule i s = Inr s'"
  shows "ex_world s' = ex_world s \<and> credit K cf cw s' \<le> credit K cf cw s + Suc K"
proof (cases "task_at s i")
  case (Some t)
  let ?s = "set_task i (Some (t\<lparr>t_scheduled := True, t_refs := t_refs t + 1\<rparr>)) s"
  have "credit K cf cw ?s = credit K cf cw s"
    using credit_set_Some [OF Some, where K = K and cf = cf and cw = cw and
        t' = "Some (t\<lparr>t_scheduled := True, t_refs := t_refs t + 1\<rparr>)"]
    by (simp add: credit_task_def)
  moreover have "credit K cf cw (?s\<lparr>ex_queue := ex_queue s @ [i]\<rparr>) = credit K cf cw ?s + Suc K"
    using credit_queue [where s = ?s and q = "ex_queue s @ [i]" and cf = cf and cw = cw] by simp
  ultimately show ?thesis using assms Some by (auto simp: task_schedule_def split: if_splits)
qed (use assms in \<open>simp add: task_schedule_def\<close>)

lemma clone_credit:
  assumes "rc_clone i s = Inr s'"
  shows "ex_world s' = ex_world s \<and> credit K cf cw s' = credit K cf cw s"
proof (cases "task_at s i")
  case (Some t)
  then show ?thesis
    using assms credit_set_Some [OF Some, where K = K and cf = cf and cw = cw and t' = "Some (t\<lparr>t_refs := t_refs t + 1\<rparr>)"]
    by (auto simp: rc_clone_def credit_task_def)
qed (use assms in \<open>simp add: rc_clone_def\<close>)

text \<open>A list of calls on wakers pays for the tasks it may queue.\<close>

definition wakes_all :: "nat \<Rightarrow> waker_call list \<Rightarrow> nat" where
  "wakes_all K cs = (\<Sum>c\<leftarrow>cs. wakes K (Some c))"

lemma wakes_all_simps [simp]: "wakes_all K [] = 0" "wakes_all K (c # cs) = wakes K (Some c) + wakes_all K cs"
  by (simp_all add: wakes_all_def)

lemma settles_none: "settles {#} cs \<Longrightarrow> cs = []"
  by (cases cs, simp, cases "hd cs") (auto simp: pays_def)

locale finishing = handing E own_f own_w own_a own_b res_f res_a res_b wok okp own_r knows waits opened used
  for E :: "('f, 'v, 'w, 'a) exec_env" and own_f own_w own_a own_b
    and res_f :: "'f \<Rightarrow> 'r multiset" and res_a res_b wok okp
    and own_r knows waits opened used +
  fixes K N :: nat and fok :: "'f \<Rightarrow> bool" and wk :: "'w \<Rightarrow> bool"
    and cf :: "'f \<Rightarrow> nat" and ci :: "'f \<Rightarrow> nat" and cw :: "'w \<Rightarrow> nat" and ca :: "'a \<Rightarrow> nat"
  assumes pay_start: "fok f \<Longrightarrow> ci f \<le> cf f + K"
    and pay_call: "ex_poll E f i w = (Does (Call cl) f', w') \<Longrightarrow> fok f \<Longrightarrow> wk w \<Longrightarrow>
      fok f' \<and> wk w' \<and> ci f' + cw w' + wakes K (Some cl) < ci f + cw w"
    and pay_quiet: "ex_poll E f i w = (Does Quiet f', w') \<Longrightarrow> fok f \<Longrightarrow> wk w \<Longrightarrow>
      fok f' \<and> wk w' \<and> ci f' + cw w' < ci f + cw w"
    and pay_spawn: "ex_poll E f i w = (Spawns g k, w') \<Longrightarrow> fok f \<Longrightarrow> wk w \<Longrightarrow>
      fok g \<and> fok (k ch) \<and> wk w' \<and> cf g + ci (k ch) + cw w' + Suc K + N < ci f + cw w"
    and pay_pends: "ex_poll E f i w = (Pends f', w') \<Longrightarrow> fok f \<Longrightarrow> wk w \<Longrightarrow>
      fok f' \<and> wk w' \<and> cf f' + cw w' \<le> ci f + cw w"
    and pay_ends: "ex_poll E f i w = (Ends v, w') \<Longrightarrow> fok f \<Longrightarrow> wk w \<Longrightarrow> wk w' \<and> cw w' \<le> ci f + cw w"
    and pay_parts: "fok f \<Longrightarrow> (\<Sum>a\<leftarrow>ex_parts E f. ca a) \<le> cf f"
    and pay_act: "ex_act E a w = Inr (w', c) \<Longrightarrow> wk w \<Longrightarrow> wk w' \<and> cw w' + wakes K c \<le> ca a + cw w"
    and pay_after: "wk w \<Longrightarrow> wk (ex_after E a w) \<and> cw (ex_after E a w) \<le> cw w"
    and pay_new: "ch_new E w = (ch, w') \<Longrightarrow> wk w \<Longrightarrow> wk w' \<and> cw w' \<le> cw w + N"
    and pay_send: "ch_send E ch v w = (w', c) \<Longrightarrow> wk w \<Longrightarrow> wk w' \<and> cw w' + wakes K c \<le> cw w"
    and pay_close: "ch_close E ch w = (w', c) \<Longrightarrow> wk w \<Longrightarrow> wk w' \<and> cw w' + wakes K c \<le> cw w"
    and pay_wait: "react_wait E w = Inr (w', cs) \<Longrightarrow> wk w \<Longrightarrow> wok R w \<Longrightarrow>
      wk w' \<and> cw w' + wakes_all K cs + (if own_r w = {#} then 0 else 1) \<le> cw w"
begin

abbreviation pot :: "('f, 'w) executor \<Rightarrow> nat" where
  "pot s \<equiv> credit K cf cw s"

abbreviation paced_all :: "('f, 'w) executor \<Rightarrow> bool" where
  "paced_all s \<equiv> all_paced fok wk s"

definition jobs_credit :: "'a job list \<Rightarrow> nat" where
  "jobs_credit js = (\<Sum>j\<leftarrow>js. credit_job ca j)"

lemma jobs_credit_simps [simp]:
  "jobs_credit [] = 0" "jobs_credit (j # js) = credit_job ca j + jobs_credit js"
  "jobs_credit (js @ ks) = jobs_credit js + jobs_credit ks"
  by (simp_all add: jobs_credit_def)

lemma fuse_jobs_credit: "fuse_paced fok fu \<Longrightarrow> jobs_credit (fuse_jobs E fu) \<le> credit_fuse cf fu"
  using pay_parts
  by (cases fu) (simp_all add: fuse_jobs_def fuse_paced_def credit_fuse_def jobs_credit_def credit_job_def o_def)

lemma drop_credit:
  assumes "rc_drop E i s = Inr (s', js)" "paced_all s"
  shows "paced_all s' \<and> ex_world s' = ex_world s \<and> pot s' + jobs_credit js \<le> pot s"
proof (cases "task_at s i")
  case (Some t)
  show ?thesis
  proof (cases "1 < t_refs t")
    case True
    let ?t = "t\<lparr>t_refs := t_refs t - 1\<rparr>"
    have "s' = set_task i (Some ?t) s" "js = []" using assms(1) Some True by (simp_all add: rc_drop_def)
    then show ?thesis
      using credit_set_Some [OF Some, where K = K and cf = cf and cw = cw and t' = "Some ?t"]
        all_paced_update [OF assms(2) Some, of ?t] by (simp add: credit_task_def)
  next
    case False
    then have e: "s' = set_task i None s" "js = fuse_jobs E (t_future t)" using assms(1) Some by (simp_all add: rc_drop_def)
    have "paced_all s'" unfolding e by (rule all_paced_set [OF assms(2)]) simp
    then show ?thesis
      using credit_set_Some [OF Some, where K = K and cf = cf and cw = cw and t' = None]
        fuse_jobs_credit [OF all_paced_at [OF assms(2) Some]] e by (simp add: credit_task_def)
  qed
qed (use assms in \<open>simp add: rc_drop_def\<close>)

lemma schedule_paced: "task_schedule i s = Inr s' \<Longrightarrow> paced_all s \<Longrightarrow> paced_all s'"
  by (auto simp: task_schedule_def all_paced_update split: option.splits if_splits)

lemma clone_paced: "rc_clone i s = Inr s' \<Longrightarrow> paced_all s \<Longrightarrow> paced_all s'"
  by (auto simp: rc_clone_def all_paced_update split: option.splits)

lemmas schedule_pays = schedule_credit [where K = K and cf = cf and cw = cw]

lemma vtable_credit:
  assumes "waker_vtable E c s = Inr (s', js)" "paced_all s"
  shows "paced_all s' \<and> ex_world s' = ex_world s \<and> pot s' + jobs_credit js \<le> pot s + wakes K (Some c)"
proof (cases c)
  case (WakeTask i)
  then obtain s1 where s1: "task_schedule i s = Inr s1" "rc_drop E i s1 = Inr (s', js)"
    using assms(1) by (auto simp: waker_vtable_def waker_wake_def bindR_Inr_iff)
  show ?thesis
    using schedule_pays [OF s1(1)] drop_credit [OF s1(2) schedule_paced [OF s1(1) assms(2)]] WakeTask
    by (simp add: wakes_def)
next
  case (DropWaker i)
  then show ?thesis using assms drop_credit by (simp add: waker_vtable_def waker_drop_def wakes_def)
next
  case (CloneWaker i)
  then show ?thesis
    using assms clone_credit [where i = i and s = s and K = K and cf = cf and cw = cw] clone_paced [of i s]
    by (auto simp: waker_vtable_def waker_clone_def mapR_Inr_iff wakes_def)
next
  case (WakeByRef i)
  then show ?thesis
    using assms schedule_pays [of i s] schedule_paced [of i s]
    by (auto simp: waker_vtable_def waker_wake_by_ref_def mapR_Inr_iff wakes_def)
qed

lemma world_pays: "pot (s\<lparr>ex_world := w\<rparr>) + cw (ex_world s) = pot s + cw w"
  by (rule credit_world)

lemma world_call_credit:
  assumes "world_call E (w', c) s = Inr (s', js)" "paced_all s" "wk w'"
  shows "paced_all s' \<and> pot s' + jobs_credit js + cw (ex_world s) \<le> pot s + cw w' + wakes K c"
proof (cases c)
  case None
  then show ?thesis using assms world_pays [where s = s and w = w'] by (auto simp: world_call_def wakes_def all_paced_world)
next
  case (Some cl)
  then show ?thesis
    using assms vtable_credit [of cl "s\<lparr>ex_world := w'\<rparr>" s' js] world_pays [where s = s and w = w']
    by (simp add: world_call_def all_paced_world)
qed

lemma paced_wk: "paced_all s \<Longrightarrow> wk (ex_world s)"
  by (simp add: all_paced_def)

lemma run_job_credit:
  assumes "run_job E j s = Inr (s', js)" "paced_all s"
  shows "paced_all s' \<and> pot s' + jobs_credit js \<le> pot s + credit_job ca j"
proof (cases j)
  case (Act a)
  then obtain w' c ds where a: "ex_act E a (ex_world s) = Inr (w', c)" "world_call E (w', c) s = Inr (s', ds)" "js = ds @ [After a]"
    using assms(1) by (auto simp: run_job_def bindR_Inr_iff mapR_Inr_iff)
  note p = pay_act [OF a(1) paced_wk [OF assms(2)]]
  then show ?thesis using Act world_call_credit [OF a(2) assms(2)] a(3) by (simp add: credit_job_def)
next
  case (After a)
  then show ?thesis
    using assms world_pays [where s = s and w = "ex_after E a (ex_world s)"] pay_after [OF paced_wk [OF assms(2)], where a = a]
    by (auto simp: run_job_def credit_job_def all_paced_world)
next
  case (Close ch)
  obtain w' c where a: "ch_close E ch (ex_world s) = (w', c)" by fastforce
  note p = pay_close [OF a paced_wk [OF assms(2)]]
  then show ?thesis
    using assms(1) Close world_call_credit [of w' c s s' js] assms(2) a by (simp add: run_job_def credit_job_def)
qed

lemma run_jobs_same_credit:
  "F = E \<Longrightarrow> run_jobs F js s = Inr s' \<Longrightarrow> paced_all s \<Longrightarrow> paced_all s' \<and> pot s' \<le> pot s + jobs_credit js"
proof (induction F js s rule: run_jobs.induct [case_names Nil Cons])
  case (Cons F j js s)
  obtain s1 ds where 1: "run_job E j s = Inr (s1, ds)" using Cons.prems by (auto split: sum.splits)
  note p = run_job_credit [OF 1 Cons.prems(3)]
  have "paced_all s' \<and> pot s' \<le> pot s1 + jobs_credit (ds @ js)" using Cons.IH [of "(s1, ds)" s1 ds] Cons.prems 1 p by auto
  then show ?case using p by simp
qed simp

lemmas run_jobs_credit = run_jobs_same_credit [OF refl]

lemma call_waker_credit:
  assumes "call_waker E (w', c) s = Inr s'" "paced_all s" "wk w'"
  shows "paced_all s' \<and> pot s' + cw (ex_world s) \<le> pot s + cw w' + wakes K c"
proof -
  obtain s1 js where 1: "world_call E (w', c) s = Inr (s1, js)" "run_jobs E js s1 = Inr s'"
    using assms(1) by (auto simp: call_waker_def bindR_Inr_iff)
  note p = world_call_credit [OF 1(1) assms(2,3)]
  show ?thesis using p run_jobs_credit [OF 1(2)] by simp
qed

lemma drop_rc_credit:
  assumes "drop_rc E i s = Inr s'" "paced_all s"
  shows "paced_all s' \<and> pot s' \<le> pot s"
proof -
  obtain s1 js where 1: "rc_drop E i s = Inr (s1, js)" "run_jobs E js s1 = Inr s'"
    using assms(1) by (auto simp: drop_rc_def bindR_Inr_iff)
  show ?thesis using drop_credit [OF 1(1) assms(2)] run_jobs_credit [OF 1(2)] by simp
qed

lemma spawn_credit:
  assumes "paced_all s" "fok g"
  shows "paced_all (snd (executor_spawn E g s)) \<and> pot (snd (executor_spawn E g s)) \<le> pot s + cf g + Suc K + N"
proof -
  obtain ch w' where n: "ch_new E (ex_world s) = (ch, w')" by fastforce
  let ?s = "queue_schedule (Fused g ch) (s\<lparr>ex_world := w'\<rparr>)"
  note p = pay_new [OF n paced_wk [OF assms(1)]]
  have "fut_at ?s j = (if j = length (ex_tasks s) then Some (Fused g ch) else fut_at s j)" for j
    by (auto simp: fut_at_def task_at_def queue_schedule_def nth_append)
  moreover have "ex_world ?s = w'" by (simp add: queue_schedule_def)
  ultimately have "paced_all ?s" using assms p unfolding all_paced_def by (auto simp: fuse_paced_def)
  moreover have "pot ?s \<le> pot s + cf g + Suc K + N"
    using p by (simp add: queue_schedule_def credit_def credit_task_def credit_fuse_def)
  ultimately show ?thesis using n by (simp add: executor_spawn_def)
qed

lemma run_effect_credit:
  assumes "run_effect E e w' s = Inr s'" "ex_poll E f i (ex_world s) = (Does e f', w')" "paced_all s" "fok f"
  shows "paced_all s' \<and> fok f' \<and> pot s' + ci f' < pot s + ci f"
proof (cases e)
  case Quiet
  then show ?thesis
    using assms pay_quiet [of f i "ex_world s" f' w'] paced_wk [OF assms(3)] world_pays [where s = s and w = w']
    by (auto simp: run_effect_def all_paced_world)
next
  case (Call cl)
  then have c: "call_waker E (w', Some cl) s = Inr s'" using assms(1) by (simp add: run_effect_def)
  note p = pay_call [OF assms(2) [unfolded Call] assms(4) paced_wk [OF assms(3)]]
  show ?thesis using call_waker_credit [OF c assms(3)] p by fastforce
qed

lemma poll_spawn_credit:
  assumes "ex_poll E f i (ex_world s) = (Spawns g k, w')" "executor_spawn E g (s\<lparr>ex_world := w'\<rparr>) = (c, s')"
    "paced_all s" "fok f"
  shows "paced_all s' \<and> fok (k c) \<and> pot s' + ci (k c) < pot s + ci f"
proof -
  note p = pay_spawn [OF assms(1) assms(4) paced_wk [OF assms(3)], of c]
  have "paced_all (s\<lparr>ex_world := w'\<rparr>)" using assms(3) p by (simp add: all_paced_world)
  from spawn_credit [OF this, of g] show ?thesis
    using assms(2) p world_pays [where s = s and w = w'] by auto
qed

definition end_paced :: "'f + 'v \<Rightarrow> bool" where
  "end_paced x = (case x of Inl f \<Rightarrow> fok f | Inr _ \<Rightarrow> True)"

definition credit_end :: "'f + 'v \<Rightarrow> nat" where
  "credit_end x = (case x of Inl f \<Rightarrow> cf f | Inr _ \<Rightarrow> 0)"

lemma poll_moves_credit:
  "poll_moves E n i f s = Some (Inr (x, s')) \<Longrightarrow> paced_all s \<Longrightarrow> fok f \<Longrightarrow>
    paced_all s' \<and> end_paced x \<and> pot s' + credit_end x \<le> pot s + ci f"
proof (induction n arbitrary: f s)
  case (Suc n)
  obtain m w' where m: "ex_poll E f i (ex_world s) = (m, w')" by fastforce
  note wk = paced_wk [OF Suc.prems(2)] and w = world_pays [where s = s and w = w']
  show ?case
  proof (cases m)
    case (Does e f')
    obtain s1 where s1: "run_effect E e w' s = Inr s1" "poll_moves E n i f' s1 = Some (Inr (x, s'))"
      using Suc.prems m Does by (auto split: sum.splits)
    note p = run_effect_credit [OF s1(1) m [unfolded Does] Suc.prems(2,3)]
    show ?thesis using Suc.IH [OF s1(2)] p by fastforce
  next
    case (Spawns g k)
    obtain c s1 where sp: "executor_spawn E g (s\<lparr>ex_world := w'\<rparr>) = (c, s1)" by fastforce
    then have s1: "poll_moves E n i (k c) s1 = Some (Inr (x, s'))" using Suc.prems m Spawns by simp
    note p = poll_spawn_credit [OF m [unfolded Spawns] sp Suc.prems(2,3)]
    show ?thesis using Suc.IH [OF s1] p by fastforce
  next
    case (Pends f')
    then show ?thesis
      using Suc.prems m pay_pends [OF m [unfolded Pends] Suc.prems(3) wk] w
      by (auto simp: credit_end_def end_paced_def all_paced_world)
  next
    case (Ends v)
    then show ?thesis
      using Suc.prems m pay_ends [OF m [unfolded Ends] Suc.prems(3) wk] w
      by (auto simp: credit_end_def end_paced_def all_paced_world)
  next
    case (Panics p)
    then show ?thesis using Suc.prems m by simp
  qed
qed simp

lemma poll_moves_end: "pot s + ci f < n \<Longrightarrow> paced_all s \<Longrightarrow> fok f \<Longrightarrow> poll_moves E n i f s \<noteq> None"
proof (induction n arbitrary: f s)
  case (Suc n)
  obtain m w' where m: "ex_poll E f i (ex_world s) = (m, w')" by fastforce
  show ?case
  proof (cases m)
    case (Does e f')
    show ?thesis
    proof (cases "run_effect E e w' s")
      case (Inr s1)
      note p = run_effect_credit [OF Inr m [unfolded Does] Suc.prems(2,3)]
      have "pot s1 + ci f' < n" using p Suc.prems(1) by simp
      then show ?thesis using Suc.IH p m Does Inr by simp
    qed (use m Does in simp)
  next
    case (Spawns g k)
    obtain c s1 where sp: "executor_spawn E g (s\<lparr>ex_world := w'\<rparr>) = (c, s1)" by fastforce
    note p = poll_spawn_credit [OF m [unfolded Spawns] sp Suc.prems(2,3)]
    have "pot s1 + ci (k c) < n" using p Suc.prems(1) by simp
    then show ?thesis using Suc.IH p m Spawns sp by simp
  qed (use m in simp_all)
qed simp

lemma set_future_credit:
  assumes "fut_at s i = Some fu0"
  shows "pot (set_future i fu s) + credit_fuse cf fu0 = pot s + credit_fuse cf fu"
proof -
  obtain t where t: "task_at s i = Some t" "t_future t = fu0" using assms by (auto simp: fut_at_def)
  then show ?thesis
    using credit_set_Some [OF t(1), where K = K and cf = cf and cw = cw and t' = "Some (t\<lparr>t_future := fu\<rparr>)"]
    by (simp add: set_future_def credit_task_def)
qed

lemma set_future_credit_le: "pot (set_future i fu s) \<le> pot s + credit_fuse cf fu"
proof (cases "fut_at s i")
  case None
  then show ?thesis by (simp add: fut_at_def set_future_same)
next
  case (Some fu0)
  then show ?thesis using set_future_credit [of s i fu0 fu] by simp
qed

lemma set_future_paced: "paced_all s \<Longrightarrow> fuse_paced fok fu \<Longrightarrow> paced_all (set_future i fu s)"
  unfolding set_future_def by (rule all_paced_set) auto

lemma finish_poll_credit:
  assumes "finish_poll E i c (x, s) = Inr s'" "paced_all s" "end_paced x"
  shows "paced_all s' \<and> pot s' \<le> pot s + credit_end x"
proof (cases x)
  case (Inl f)
  then have s': "s' = set_future i (Fused f c) s" using assms(1) by (simp add: finish_poll_def)
  have "paced_all s'" unfolding s' using assms(2,3) Inl by (intro set_future_paced) (simp_all add: end_paced_def fuse_paced_def)
  then show ?thesis
    using set_future_credit_le [of i "Fused f c" s] Inl s' by (simp add: credit_end_def credit_fuse_def)
next
  case (Inr v)
  obtain w' cl where sd: "ch_send E c v (ex_world s) = (w', cl)" by fastforce
  then obtain s1 where s1: "call_waker E (w', cl) s = Inr s1" "s' = set_future i Terminated s1"
    using assms(1) Inr by (auto simp: finish_poll_def mapR_Inr_iff)
  note p = pay_send [OF sd paced_wk [OF assms(2)]]
  then have c: "paced_all s1" "pot s1 + cw (ex_world s) \<le> pot s + cw w' + wakes K cl"
    using call_waker_credit [OF s1(1) assms(2)] by auto
  have "paced_all s'" unfolding s1(2) by (rule set_future_paced [OF c(1)]) (simp add: fuse_paced_def)
  then show ?thesis
    using c(2) p set_future_credit_le [of i Terminated s1] s1(2) by (simp add: credit_fuse_def)
qed

text \<open>A poll: a future found fused pays with the allowance \<open>K\<close> of its turn.\<close>

lemma task_poll_credit:
  assumes ps: "paced_all s"
  shows "task_poll E n i s = Some (Inr s') \<Longrightarrow> paced_all s' \<and> pot s' \<le> pot s + K"
    and "pot s + K < n \<Longrightarrow> task_poll E n i s \<noteq> None"
proof -
  have *: "(task_poll E n i s = Some (Inr s') \<longrightarrow> paced_all s' \<and> pot s' \<le> pot s + K) \<and>
    (pot s + K < n \<longrightarrow> task_poll E n i s \<noteq> None)"
  proof (cases "task_at s i")
    case (Some t)
    let ?t = "t\<lparr>t_scheduled := False\<rparr>"
    let ?s = "set_task i (Some ?t) s"
    have 0: "pot ?s = pot s" "paced_all ?s"
      using credit_set_Some [OF Some, where K = K and cf = cf and cw = cw and t' = "Some ?t"]
        all_paced_update [OF ps Some, of ?t] by (simp_all add: credit_task_def)
    show ?thesis
    proof (cases "t_future t")
      case (Fused f c)
      let ?s1 = "set_future i InPoll ?s"
      have f: "fok f" using all_paced_at [OF ps Some] Fused by (simp add: fuse_paced_def)
      have "fut_at ?s i = Some (Fused f c)" using Some Fused task_at_length [OF Some] by (simp add: fut_at_def)
      from set_future_credit [OF this, of InPoll] have 1: "pot ?s1 + cf f = pot s"
        using 0 by (simp add: credit_fuse_def)
      have p1: "paced_all ?s1" by (rule set_future_paced [OF 0(2)]) (simp add: fuse_paced_def)
      have e: "task_poll E n i s = map_option (\<lambda>r. bindR r (finish_poll E i c)) (poll_moves E n i f ?s1)"
        using Some Fused by (simp add: task_poll_def)
      have "paced_all s' \<and> pot s' \<le> pot s + K" if st: "task_poll E n i s = Some (Inr s')"
      proof -
        obtain x s2 where x: "poll_moves E n i f ?s1 = Some (Inr (x, s2))" "finish_poll E i c (x, s2) = Inr s'"
          using st e by (auto simp: bindR_Inr_iff)
        note m = poll_moves_credit [OF x(1) p1 f]
        then have "paced_all s' \<and> pot s' \<le> pot s2 + credit_end x" using finish_poll_credit [OF x(2)] by simp
        then show ?thesis using m 1 pay_start [OF f] by linarith
      qed
      moreover have "task_poll E n i s \<noteq> None" if "pot s + K < n"
        using poll_moves_end [of ?s1 f n i] that 1 e p1 f pay_start [OF f] by simp
      ultimately show ?thesis by blast
    qed (use Some 0 in \<open>auto simp: task_poll_def\<close>)
  qed (simp add: task_poll_def)
  show "task_poll E n i s = Some (Inr s') \<Longrightarrow> paced_all s' \<and> pot s' \<le> pot s + K" using * by blast
  show "pot s + K < n \<Longrightarrow> task_poll E n i s \<noteq> None" using * by blast
qed

lemma step_credit:
  assumes ps: "paced_all s"
  shows "executor_step E n i s = Some (Inr s') \<Longrightarrow> paced_all s' \<and> pot s' \<le> pot s + K"
    and "pot s + K < n \<Longrightarrow> executor_step E n i s \<noteq> None"
proof -
  have *: "(executor_step E n i s = Some (Inr s') \<longrightarrow> paced_all s' \<and> pot s' \<le> pot s + K) \<and>
    (pot s + K < n \<longrightarrow> executor_step E n i s \<noteq> None)"
  proof (cases "rc_clone i s")
    case (Inr s1)
    have 1: "pot s1 = pot s" "paced_all s1"
      using clone_credit [OF Inr, where K = K and cf = cf and cw = cw] clone_paced [OF Inr ps] by simp_all
    have "paced_all s' \<and> pot s' \<le> pot s + K" if st: "executor_step E n i s = Some (Inr s')"
    proof -
      obtain s2 s3 where s2: "task_poll E n i s1 = Some (Inr s2)" "drop_rc E i s2 = Inr s3" "drop_rc E i s3 = Inr s'"
        using st Inr by (auto simp: executor_step_def bindR_Inr_iff)
      show ?thesis
        using task_poll_credit(1) [OF 1(2) s2(1)] drop_rc_credit [OF s2(2)] drop_rc_credit [OF s2(3)] 1(1) by auto
    qed
    then show ?thesis using task_poll_credit(2) [OF 1(2), of n i] Inr 1(1) by (auto simp: executor_step_def)
  qed (simp add: executor_step_def)
  show "executor_step E n i s = Some (Inr s') \<Longrightarrow> paced_all s' \<and> pot s' \<le> pot s + K" using * by blast
  show "pot s + K < n \<Longrightarrow> executor_step E n i s \<noteq> None" using * by blast
qed

lemma drain_credit:
  assumes "pot s < n" "paced_all s"
  shows "\<exists>r. executor_drain E n s = Some r \<and> (\<forall>s'. r = Inr s' \<longrightarrow> paced_all s' \<and> pot s' \<le> pot s)"
  using assms
proof (induction n arbitrary: s)
  case (Suc n)
  show ?case
  proof (cases "ex_queue s")
    case (Cons i q)
    let ?s = "s\<lparr>ex_queue := q\<rparr>"
    have p: "pot ?s + Suc K = pot s"
      using credit_queue [where K = K and cf = cf and cw = cw and s = s and q = q] Cons by simp
    have ps: "paced_all ?s" using Suc.prems(2) by simp
    obtain r where r: "executor_step E (Suc n) i ?s = Some r"
      using step_credit(2) [OF ps, of "Suc n" i] p Suc.prems(1) by fastforce
    show ?thesis
    proof (cases r)
      case (Inr s1)
      then have "paced_all s1" "pot s1 \<le> pot ?s + K" using r step_credit(1) [OF ps] by blast+
      then show ?thesis using Suc.IH [of s1] Suc.prems(1) p r Inr Cons by fastforce
    qed (use r Cons in simp)
  qed (use Suc.prems in simp)
qed simp

lemma call_all_credit:
  "call_all E cs s = Inr s' \<Longrightarrow> paced_all s \<Longrightarrow> paced_all s' \<and> pot s' \<le> pot s + wakes_all K cs"
proof (induction cs arbitrary: s)
  case (Cons c cs)
  obtain s1 where s1: "call_waker E (ex_world s, Some c) s = Inr s1" "call_all E cs s1 = Inr s'"
    using Cons.prems(1) by (auto simp: bindR_Inr_iff)
  note p = call_waker_credit [OF s1(1) Cons.prems(2) paced_wk [OF Cons.prems(2)]]
  then show ?case using Cons.IH [OF s1(2)] by simp
qed simp

lemma drained_alive: "0 < alive s \<Longrightarrow> \<not> queue_is_done s"
  by (simp add: queue_is_done_def sender_count_def)

text \<open>With no task alive the reactor has no waker, and a wait calls on none.\<close>

lemma no_task_no_waker:
  assumes "inv {#} R s" "alive s = 0"
  shows "own_w (ex_world s) = {#}"
proof (rule ccontr)
  assume "own_w (ex_world s) \<noteq> {#}"
  then obtain i where "i \<in># {#} + own_w (ex_world s) + held_futures own_f s" by (auto simp: multiset_eq_iff)
  then obtain t where "task_at s i = Some t" using counted_task assms(1) by (metis exec_inv_def)
  then have "Some t \<in> set (ex_tasks s)" by (auto simp: task_at_def split: if_splits) (metis nth_mem)
  then show False using assms(2) by (auto simp: alive_def filter_empty_conv)
qed

lemma turn_credit:
  assumes "rested {#} R s" "ex_queue s = []" "paced_all s" "reactor_turn E s = Inr s'" "ordered None {} s"
  shows "rested {#} R s' \<and> paced_all s' \<and> ordered None {} s' \<and> pot s' \<le> pot s \<and> (queue_is_done s' \<or> pot s' < pot s)"
proof -
  have i0: "inv {#} R s" "idle s" using assms(1) by (simp_all add: rested_def)
  then have i1: "rested {#} R s'" using reactor_turn_inv [OF i0] assms(4) by simp
  note o2 = turn_ordered [OF assms(5,4)]
  obtain w' cs where w: "react_wait E (ex_world s) = Inr (w', cs)" "call_all E cs (s\<lparr>ex_world := w'\<rparr>) = Inr s'"
    using assms(4) by (auto simp: reactor_turn_def bindR_Inr_iff)
  have wk: "wok (R + held_futures res_f s) (ex_world s)" using i0(1) by (simp add: exec_inv_def)
  note p = pay_wait [OF w(1) paced_wk [OF assms(3)] wk]
  have c: "paced_all s'" "pot s' \<le> pot (s\<lparr>ex_world := w'\<rparr>) + wakes_all K cs"
    using call_all_credit [OF w(2)] assms(3) p by (simp_all add: all_paced_world)
  then have turn: "pot s' + (if own_r (ex_world s) = {#} then 0 else 1) \<le> pot s"
    using p world_pays [where s = s and w = w'] by simp
  show ?thesis
  proof (cases "alive s = 0")
    case True
    have "cs = []" using wait [OF w(1) wk] no_task_no_waker [OF i0(1) True] settles_none by auto
    then have "s' = s\<lparr>ex_world := w'\<rparr>" using w(2) by simp
    then have "queue_is_done s'" using True by (simp add: queue_is_done_def sender_count_def)
    then show ?thesis using i1 c turn o2 by simp
  next
    case False
    then have "own_r (ex_world s) \<noteq> {#}" using no_deadlock [OF i0(1) assms(2) _ assms(5)] by simp
    then show ?thesis using i1 c turn o2 by simp
  qed
qed

lemma run_returns:
  "rested {#} R s \<Longrightarrow> paced_all s \<Longrightarrow> pot s + 1 < n \<Longrightarrow> ordered None {} s \<Longrightarrow> executor_run E n s \<noteq> None"
proof (induction n arbitrary: s)
  case (Suc n)
  have i0: "inv {#} R s" "idle s" using Suc.prems(1) by (simp_all add: rested_def)
  show ?case
  proof (cases "queue_is_done s")
    case False
    obtain r where r: "executor_drain E (Suc n) s = Some r" "\<And>s'. r = Inr s' \<Longrightarrow> paced_all s' \<and> pot s' \<le> pot s"
      using drain_credit [of s "Suc n"] Suc.prems(2,3) by auto
    show ?thesis
    proof (cases r)
      case (Inl p)
      then show ?thesis using r(1) False by (simp del: executor_drain.simps)
    next
      case (Inr s1)
      have s1: "rested {#} R s1" "ex_queue s1 = []" using drain_inv [OF i0 r(1)] Inr by simp_all
      have p1: "paced_all s1" "pot s1 \<le> pot s" using r(2) Inr by simp_all
      show ?thesis
      proof (cases "reactor_turn E s1")
        case (Inl p)
        then show ?thesis using r(1) \<open>r = Inr s1\<close> False by (simp del: executor_drain.simps)
      next
        case (Inr s2)
        note t = turn_credit [OF s1 p1(1) Inr drain_ordered [OF i0 Suc.prems(4) r(1) [unfolded \<open>r = Inr s1\<close>]]]
        have "0 < n" using Suc.prems(3) by simp
        have "executor_run E n s2 \<noteq> None"
        proof (cases "queue_is_done s2")
          case True
          then show ?thesis using Suc.prems(3) by (cases n) simp_all
        next
          case False
          then have "pot s2 + 1 < n" using t p1(2) Suc.prems(3) by simp
          then show ?thesis using Suc.IH t by blast
        qed
        then show ?thesis using r(1) \<open>r = Inr s1\<close> Inr False by (simp del: executor_drain.simps)
      qed
    qed
  qed simp
qed simp

end

end
