(* ===== verification/ExecutorProps.thy ===== *)
theory ExecutorProps
  imports ExecutorRun
begin

section \<open>Running futures to completion\<close>

text \<open>
  The properties of the executor, and the environment of its own tests (tests/main.rs) on
  which the locales are interpreted: the reactor \<open>TestReactor\<close>, which keeps wakers and wakes
  them all at each wait, and the future \<open>Wait\<close>, pending \<open>iter\<close> times, which leaves its waker
  with the reactor or wakes itself. Its output is the unit value.
\<close>

datatype 'v oneshot = NoValue | Value 'v | Gone

record test_reactor =
  tr_wakers :: "task_id list"
  tr_waited :: nat
  tr_chans :: "unit oneshot list"

text \<open>\<open>registered\<close>: in the midst of the poll, after the waker was used.\<close>

record wait_future =
  wf_iter :: nat
  wf_reactor :: bool
  wf_registered :: bool

definition wait_new :: "nat \<Rightarrow> wait_future" where
  "wait_new iter = \<lparr>wf_iter = iter, wf_reactor = False, wf_registered = False\<rparr>"

definition wait_with_reactor :: "nat \<Rightarrow> wait_future" where
  "wait_with_reactor iter = \<lparr>wf_iter = iter, wf_reactor = True, wf_registered = False\<rparr>"

definition wait_poll :: "wait_future \<Rightarrow> task_id \<Rightarrow> test_reactor \<Rightarrow> (wait_future, unit) move \<times> test_reactor" where
  "wait_poll f i w =
     (if wf_registered f then (Pends (f\<lparr>wf_registered := False\<rparr>), w)
      else if wf_iter f = 0 then (Ends (), w)
      else (let f' = f\<lparr>wf_iter := wf_iter f - 1, wf_registered := True\<rparr>
            in if wf_reactor f then (Does (Call (CloneWaker i)) f', w\<lparr>tr_wakers := tr_wakers w @ [i]\<rparr>)
               else (Does (Call (WakeByRef i)) f', w)))"

definition test_wait :: "test_reactor \<Rightarrow> panic + (test_reactor \<times> waker_call list)" where
  "test_wait w = Inr (w\<lparr>tr_wakers := [], tr_waited := tr_waited w + 1\<rparr>, map WakeTask (tr_wakers w))"

definition test_new :: "test_reactor \<Rightarrow> chan \<times> test_reactor" where
  "test_new w = (length (tr_chans w), w\<lparr>tr_chans := tr_chans w @ [NoValue]\<rparr>)"

definition test_send :: "chan \<Rightarrow> unit \<Rightarrow> test_reactor \<Rightarrow> test_reactor \<times> waker_call option" where
  "test_send c v w = (w\<lparr>tr_chans := (tr_chans w)[c := Value v]\<rparr>, None)"

definition test_close :: "chan \<Rightarrow> test_reactor \<Rightarrow> test_reactor \<times> waker_call option" where
  "test_close c w = (w\<lparr>tr_chans := (tr_chans w)[c := Gone]\<rparr>, None)"

definition test_try_recv :: "chan \<Rightarrow> test_reactor \<Rightarrow> (unit + unit option) \<times> test_reactor" where
  "test_try_recv c w =
     (case tr_chans w ! c of
        NoValue \<Rightarrow> (Inr None, w)
      | Value v \<Rightarrow> (Inr (Some v), w\<lparr>tr_chans := (tr_chans w)[c := Gone]\<rparr>)
      | Gone \<Rightarrow> (Inl (), w))"

definition wait_env :: "(wait_future, unit, test_reactor, unit) exec_env" where
  "wait_env =
     \<lparr>ex_poll = wait_poll, ex_parts = (\<lambda>_. []), ex_act = (\<lambda>_ w. Inr (w, None)), ex_after = (\<lambda>_ w. w),
      ch_new = test_new,
      ch_send = test_send, ch_close = test_close, ch_forget = test_close, ch_try_recv = test_try_recv,
      react_wait = test_wait\<rparr>"

definition reactor_wakers :: "test_reactor \<Rightarrow> task_id multiset" where
  "reactor_wakers w = mset (tr_wakers w)"

definition no_wakers :: "'f \<Rightarrow> task_id multiset" where
  "no_wakers _ = {#}"

lemma wakes_all_map [simp]: "wakes_all K (map WakeTask is) = Suc K * length is"
  by (induction "is") (simp_all add: wakes_def)

text \<open>The channels whose sender is not used up. No test task waits for another.\<close>

definition test_open :: "test_reactor \<Rightarrow> chan set" where
  "test_open w = {c. c < length (tr_chans w) \<and> tr_chans w ! c = NoValue}"

definition no_state :: "'f \<Rightarrow> unit multiset" where
  "no_state _ = {#}"

lemma nth_update_if: "x < length xs \<Longrightarrow> xs[c := v] ! x = (if x = c then v else xs ! x)"
  by simp

interpretation wait: finishing wait_env no_wakers reactor_wakers no_wakers no_wakers no_state no_state no_state "\<lambda>_ _. True" "\<lambda>_. False"
    reactor_wakers "\<lambda>_. {}" "\<lambda>_. {}" test_open "\<lambda>w. {..<length (tr_chans w)}" 0 0 "\<lambda>_. True" "\<lambda>_. True" "\<lambda>f. 3 * wf_iter f" "\<lambda>f. 3 * wf_iter f" "\<lambda>w. 2 * length (tr_wakers w)" "\<lambda>_. 0"
  by unfold_locales
    (auto simp: wait_env_def wait_poll_def test_wait_def test_new_def test_send_def test_close_def
      no_wakers_def no_state_def reactor_wakers_def pays_def wakes_def Let_def Suc_le_eq settles_wakes still_def test_open_def
      nth_append nth_update_if split: if_splits)

definition fresh_reactor :: test_reactor where
  "fresh_reactor = \<lparr>tr_wakers = [], tr_waited = 0, tr_chans = []\<rparr>"

subsection \<open>The initial executor\<close>

lemma new_inv:
  "own_w w = {#} \<Longrightarrow> wok {#} w \<Longrightarrow>
    exec_inv own_f own_w res_f wok {#} {#} (executor_new w) \<and> idle (executor_new w)"
  by (simp add: exec_inv_def counted_refs_def executor_new_def refs_of_def task_at_def held_futures_def idle_def
      fut_at_def)

lemma spawned_inv:
  assumes "owning E own_f own_w own_a own_b res_f res_a res_b wok okp" "exec_inv own_f own_w res_f wok (own_f f) (res_f f) s" "idle s"
  shows "exec_inv own_f own_w res_f wok {#} {#} (snd (executor_spawn E f s)) \<and> idle (snd (executor_spawn E f s))"
  using owning.spawn_inv [OF assms(1), of f "{#}" "{#}" s] owning.kept_idle [OF assms(1) _ assms(3)] assms(2)
  by (simp add: owning.kept_def [OF assms(1)])

text \<open>\<open>block_on\<close> on a sound executor.\<close>

lemma block_on_sound:
  assumes "owning E own_f own_w own_a own_b res_f res_a res_b wok okp"
    and "exec_inv own_f own_w res_f wok (own_f f) (res_f f) s" and "idle s"
    and "block_on E n f s = Some r"
  shows "(\<exists>p. r = Inl p \<and> okp p) \<or>
    (\<exists>s'. executor_run E n (snd (executor_spawn E f s)) = Some (Inr s') \<and>
       exec_inv own_f own_w res_f wok {#} {#} s' \<and> idle s' \<and> alive s' = 0 \<and>
       (r = Inl UnwrapNone \<or> (\<exists>v w. r = Inr (v, s'\<lparr>ex_world := w\<rparr>))))"
proof -
  obtain c s1 where sp: "executor_spawn E f s = (c, s1)" by fastforce
  have i: "exec_inv own_f own_w res_f wok {#} {#} s1" "idle s1" using spawned_inv [OF assms(1-3)] sp by simp_all
  obtain q where q: "executor_run E n s1 = Some q"
    using assms(4) sp by (cases "executor_run E n s1") (simp_all add: block_on_def)
  have b: "r = (case q of Inl p \<Rightarrow> Inl p | Inr s2 \<Rightarrow>
      (let (v, w) = join_try_join (ch_try_recv E) c (ex_world s2) in case v of None \<Rightarrow> Inl UnwrapNone | Some x \<Rightarrow> Inr (x, s2\<lparr>ex_world := w\<rparr>)))"
    using assms(4) sp q by (auto simp: block_on_def split: sum.splits)
  from owning.run_sound [OF assms(1) i q] show ?thesis
    using b q sp by (cases q) (auto simp: owning.rested_def [OF assms(1)] split: option.splits prod.splits)
qed



lemma block_on_returns:
  assumes "executor_run E n (snd (executor_spawn E f s)) = Some y"
  shows "\<exists>r. block_on E n f s = Some r"
proof -
  obtain c s1 where "executor_spawn E f s = (c, s1)" by fastforce
  then show ?thesis using assms by (cases y) (simp_all add: block_on_def)
qed

subsection \<open>The order of the queue\<close>

definition grows :: "('f, 'w) executor \<Rightarrow> ('f, 'w) executor \<Rightarrow> bool" where
  "grows s s' \<longleftrightarrow> (\<exists>ws. ex_queue s' = ex_queue s @ ws)"

lemma grows_refl [simp]: "grows s s"
  by (simp add: grows_def)

lemma grows_trans: "grows s t \<Longrightarrow> grows t u \<Longrightarrow> grows s u"
  by (auto simp: grows_def)

lemma schedule_grows: "task_schedule i s = Inr s' \<Longrightarrow> grows s s'"
  by (auto simp: task_schedule_def grows_def split: option.splits if_splits)

lemma rc_drop_grows: "rc_drop E i s = Inr (s', js) \<Longrightarrow> grows s s'"
  by (auto simp: rc_drop_def grows_def split: option.splits if_splits)

lemma wake_grows: "waker_wake E i s = Inr (s', js) \<Longrightarrow> grows s s'"
  by (auto simp: waker_wake_def bindR_Inr_iff dest!: schedule_grows rc_drop_grows intro: grows_trans)

lemma clone_grows: "rc_clone i s = Inr s' \<Longrightarrow> grows s s'"
  by (auto simp: rc_clone_def grows_def split: option.splits)

lemma vtable_grows: "waker_vtable E c s = Inr (s', js) \<Longrightarrow> grows s s'"
  by (cases c)
    (auto simp: waker_vtable_def waker_clone_def waker_wake_by_ref_def waker_drop_def mapR_Inr_iff
      dest: wake_grows clone_grows schedule_grows rc_drop_grows)

lemma world_call_grows: "world_call E wc s = Inr (s', js) \<Longrightarrow> grows s s'"
  using vtable_grows [of E _ "s\<lparr>ex_world := fst wc\<rparr>" s' js]
  by (auto simp: world_call_def grows_def split: option.splits)

lemma run_job_grows: "run_job E j s = Inr (s', js) \<Longrightarrow> grows s s'"
  by (auto simp: run_job_def bindR_Inr_iff mapR_Inr_iff split: job.splits dest: world_call_grows) (simp add: grows_def)

lemma run_jobs_grows: "run_jobs E js s = Inr s' \<Longrightarrow> grows s s'"
proof (induction E js s rule: run_jobs.induct [case_names Nil Cons])
  case (Cons E j js s)
  then show ?case by (auto split: sum.splits dest!: run_job_grows intro: grows_trans)
qed simp

lemma call_waker_grows: "call_waker E wc s = Inr s' \<Longrightarrow> grows s s'"
  by (auto simp: call_waker_def bindR_Inr_iff dest!: world_call_grows run_jobs_grows intro: grows_trans)

lemma drop_rc_grows: "drop_rc E i s = Inr s' \<Longrightarrow> grows s s'"
  by (auto simp: drop_rc_def bindR_Inr_iff dest!: rc_drop_grows run_jobs_grows intro: grows_trans)

lemma run_effect_grows: "run_effect E e w s = Inr s' \<Longrightarrow> grows s s'"
  by (auto simp: run_effect_def split: effect.splits dest: call_waker_grows) (simp add: grows_def)

lemma spawn_grows: "executor_spawn E g (s\<lparr>ex_world := w\<rparr>) = (c, s') \<Longrightarrow> grows s s'"
  by (auto simp: grows_def executor_spawn_def queue_schedule_def split: prod.splits)

lemma poll_moves_grows: "poll_moves E n i f s = Some (Inr (x, s')) \<Longrightarrow> grows s s'"
proof (induction n arbitrary: f s)
  case (Suc n)
  then show ?case
    by (auto split: prod.splits move.splits sum.splits dest!: run_effect_grows spawn_grows intro: grows_trans)
      (simp_all add: grows_def)
qed simp

lemma set_future_grows: "grows s (set_future i fu s)"
  by (simp add: grows_def set_future_def)

lemma finish_poll_grows: "finish_poll E i c (x, s) = Inr s' \<Longrightarrow> grows s s'"
  using set_future_grows
  by (auto simp: finish_poll_def mapR_Inr_iff split: sum.splits dest!: call_waker_grows intro: grows_trans)

lemma task_poll_grows:
  assumes "task_poll E n i s = Some (Inr s')"
  shows "grows s s'"
proof -
  obtain t where t: "task_at s i = Some t" using assms by (cases "task_at s i") (auto simp: task_poll_def)
  let ?s = "set_task i (Some (t\<lparr>t_scheduled := False\<rparr>)) s"
  have 0: "grows s ?s" by (simp add: grows_def)
  show ?thesis
  proof (cases "t_future t")
    case (Fused f c)
    then obtain x s2 where x: "poll_moves E n i f (set_future i InPoll ?s) = Some (Inr (x, s2))"
        "finish_poll E i c (x, s2) = Inr s'"
      using assms t by (auto simp: task_poll_def bindR_Inr_iff)
    show ?thesis
      using grows_trans [OF 0 set_future_grows] poll_moves_grows [OF x(1)] finish_poll_grows [OF x(2)] grows_trans
      by blast
  qed (use assms t 0 in \<open>auto simp: task_poll_def\<close>)
qed

lemma step_grows:
  assumes "executor_step E n i s = Some (Inr s')"
  shows "grows s s'"
proof -
  obtain s1 s2 s3 where s: "rc_clone i s = Inr s1" "task_poll E n i s1 = Some (Inr s2)"
      "drop_rc E i s2 = Inr s3" "drop_rc E i s3 = Inr s'"
    using assms by (auto simp: executor_step_def bindR_Inr_iff split: sum.splits)
  have "grows s s1" using s(1) by (auto simp: rc_clone_def grows_def split: option.splits)
  then show ?thesis
    using task_poll_grows [OF s(2)] drop_rc_grows [OF s(3)] drop_rc_grows [OF s(4)] grows_trans by blast
qed

subsection \<open>Properties\<close>

lemma fresh_run:
  "exec_inv no_wakers reactor_wakers no_state (\<lambda>_ _. True) {#} {#}
     (executor_new fresh_reactor :: (wait_future, test_reactor) executor) \<and>
   idle (executor_new fresh_reactor :: (wait_future, test_reactor) executor)"
  by (rule new_inv) (simp_all add: reactor_wakers_def fresh_reactor_def)

lemmas wait_eval = wait_env_def wait_poll_def test_wait_def test_new_def test_send_def test_close_def
  test_try_recv_def executor_new_def fresh_reactor_def wait_with_reactor_def wait_new_def executor_spawn_def
  queue_schedule_def task_at_def set_task_def alive_def sender_count_def queue_is_done_def task_schedule_def
  rc_clone_def rc_drop_def fuse_jobs_def waker_clone_def waker_wake_def waker_wake_by_ref_def waker_drop_def
  waker_vtable_def world_call_def run_job_def call_waker_def drop_rc_def run_effect_def set_future_def
  finish_poll_def task_poll_def executor_step_def reactor_turn_def join_try_join_def block_on_def Let_def

lemma distinct_count_one: "distinct xs \<Longrightarrow> x \<in> set xs \<Longrightarrow> count_list xs x = 1"
  by (induction xs) (auto simp: count_list_0_iff)

text \<open>C13: Whatever the futures, their destructors and the reactor do with the wakers and the shared
  state they own, running the executor uses no freed task, polls no future twice at once and
  leaves every reference count exact: a run that returns either stopped at a panic \<open>okp\<close> of
  their own, or freed every task and left the shared state sound with nothing held of it; and
  \<open>block_on\<close> then panics only when the future was dropped unfinished.\<close>

theorem executor_memory_safe:
  assumes "owning E own_f own_w own_a own_b res_f res_a res_b wok okp"
    and "exec_inv own_f own_w res_f wok (own_f f) (res_f f) s" and "idle s"
    and "block_on E n f s = Some r"
  shows "(\<exists>p. r = Inl p \<and> okp p) \<or>
    (\<exists>s'. executor_run E n (snd (executor_spawn E f s)) = Some (Inr s') \<and>
       exec_inv own_f own_w res_f wok {#} {#} s' \<and> idle s' \<and> alive s' = 0 \<and>
       (r = Inl UnwrapNone \<or> (\<exists>v w. r = Inr (v, s'\<lparr>ex_world := w\<rparr>))))"
  by (rule block_on_sound [OF assms])

theorem executor_memory_safe_witness:
  "\<exists>s'. executor_run wait_env 5 (snd (executor_spawn wait_env (wait_with_reactor 1) (executor_new fresh_reactor))) =
      Some (Inr s') \<and> alive s' = 0"
proof -
  have b: "\<exists>s'. block_on wait_env 5 (wait_with_reactor 1) (executor_new fresh_reactor) = Some (Inr ((), s'))"
    by (simp add: wait_eval numeral_eq_Suc)
  then obtain s' where s': "block_on wait_env 5 (wait_with_reactor 1) (executor_new fresh_reactor) = Some (Inr ((), s'))" ..
  show ?thesis
    using executor_memory_safe [OF wait.owning_axioms _ _ s'] fresh_run by (auto simp: no_wakers_def no_state_def)
qed



text \<open>C15: A wake is neither lost nor doubled: after it the task is in the queue exactly once,
  behind the tasks queued before, and it keeps its place when it was queued already.\<close>

theorem wake_schedules_once:
  assumes "owning E own_f own_w own_a own_b res_f res_a res_b wok okp" and "exec_inv own_f own_w res_f wok (add_mset i X) R s"
  shows "\<exists>s'. waker_wake E i s = Inr (s', []) \<and> exec_inv own_f own_w res_f wok X R s' \<and> count_list (ex_queue s') i = 1 \<and>
    ex_queue s' = (if i \<in> set (ex_queue s) then ex_queue s else ex_queue s @ [i])"
proof -
  let ?T = "add_mset i X + own_w (ex_world s) + held_futures own_f s"
  have c: "counted_refs ?T s" and m: "i \<in># ?T" using assms(2) by (simp_all add: exec_inv_def)
  obtain s1 where s1: "task_schedule i s = Inr s1" "counted_refs ?T s1" "ex_world s1 = ex_world s"
      "length (ex_tasks s1) = length (ex_tasks s)" "fut_at s1 = fut_at s" "i \<in> set (ex_queue s1)"
    using schedule_counted [OF c m] by blast
  obtain t where t: "task_at s i = Some t" using counted_task [OF c m] by blast
  have iq: "i \<in> set (ex_queue s) \<longleftrightarrow> t_scheduled t" using c t by (auto simp: counted_refs_def)
  have q1: "ex_queue s1 = (if i \<in> set (ex_queue s) then ex_queue s else ex_queue s @ [i])"
    using s1(1) t iq by (auto simp: task_schedule_def split: if_splits)
  obtain t1 where t1: "task_at s1 i = Some t1" "t_scheduled t1"
    using s1(2,6) by (auto simp: counted_refs_def)
  have "1 < t_refs t1"
    using counted_some [OF s1(2) t1(1)] t1(2) by simp
  then have d: "rc_drop E i s1 = Inr (set_task i (Some (t1\<lparr>t_refs := t_refs t1 - 1\<rparr>)) s1, [])"
    using t1(1) by (simp add: rc_drop_def)
  let ?s = "set_task i (Some (t1\<lparr>t_refs := t_refs t1 - 1\<rparr>)) s1"
  obtain s2 js where s2: "rc_drop E i s1 = Inr (s2, js)" "counted_refs (?T - {#i#}) s2" "ex_world s2 = ex_world s1"
      "held_futures own_f s1 = held_futures own_f s2 + own_jobs own_a own_b js"
    using owning.drop_counted [OF assms(1) s1(2) m] by blast
  then have e: "s2 = ?s" "js = []" using d by simp_all
  have h: "held_futures own_f s2 = held_futures own_f s"
    using s2(4) e(2) held_futures_cong [OF s1(4,5), where own_f = own_f] by simp
  have "held_futures res_f s2 = held_futures res_f s"
    using drop_held [OF owning.parts(2) [OF assms(1)] d] held_futures_cong [OF s1(4,5), where own_f = res_f] e(1) by simp
  then have "exec_inv own_f own_w res_f wok X R s2"
    using s2(2) assms(2) unfolding exec_inv_def h s2(3) s1(3) by simp
  moreover have "distinct (ex_queue s1)" using s1(2) by (simp add: counted_refs_def)
  then have "count_list (ex_queue s1) i = 1" using s1(6) by (rule distinct_count_one)
  ultimately show ?thesis using s1(1) d e q1 by (simp add: waker_wake_def)
qed

text \<open>C16: No task overtakes another: polling the task at the head, whatever it wakes or spawns,
  leaves the rest of the queue as it is and adds only behind it.\<close>

theorem queue_is_fifo:
  assumes "ex_queue s = i # q" and "executor_step E n i (s\<lparr>ex_queue := q\<rparr>) = Some (Inr s')"
  shows "\<exists>ws. ex_queue s' = q @ ws"
  using step_grows [OF assms(2)] by (simp add: grows_def)

theorem wake_schedules_once_witness:
  "\<exists>s'. waker_wake wait_env 0 (executor_new fresh_reactor
      \<lparr>ex_tasks := [Some \<lparr>t_scheduled = False, t_future = Fused (wait_new 1) 0, t_refs = 1\<rparr>]\<rparr>) = Inr (s', []) \<and>
    ex_queue s' = [0]"
proof -
  let ?s = "executor_new fresh_reactor
      \<lparr>ex_tasks := [Some \<lparr>t_scheduled = False, t_future = Fused (wait_new 1) 0, t_refs = 1\<rparr>]\<rparr>"
  have "exec_inv no_wakers reactor_wakers no_state (\<lambda>_ _. True) (add_mset 0 {#}) {#} ?s"
    by (auto simp: exec_inv_def counted_refs_def executor_new_def fresh_reactor_def refs_of_def task_at_def
        held_futures_def own_task_def own_fuse_def no_wakers_def reactor_wakers_def split: if_splits)
  from wake_schedules_once [OF wait.owning_axioms this]
  show ?thesis by (auto simp: executor_new_def)
qed

theorem queue_is_fifo_witness:
  "\<exists>ws s'. executor_step wait_env 5 0
      (snd (executor_spawn wait_env (wait_new 1) (snd (executor_spawn wait_env (wait_new 0) (executor_new fresh_reactor))))
        \<lparr>ex_queue := [1]\<rparr>) = Some (Inr s') \<and> ex_queue s' = [1] @ ws"
proof -
  let ?s = "snd (executor_spawn wait_env (wait_new 1) (snd (executor_spawn wait_env (wait_new 0) (executor_new fresh_reactor))))"
  have q: "ex_queue ?s = 0 # [1]" by (simp add: wait_eval)
  have "\<exists>s'. executor_step wait_env 5 0 (?s\<lparr>ex_queue := [1]\<rparr>) = Some (Inr s')"
    by (simp add: wait_eval numeral_eq_Suc)
  then obtain s' where "executor_step wait_env 5 0 (?s\<lparr>ex_queue := [1]\<rparr>) = Some (Inr s')" ..
  with queue_is_fifo [OF q this] show ?thesis by blast
qed

subsection \<open>The tests of the executor\<close>

text \<open>Between two rounds: the task is queued again, \<open>k\<close> polls before its end.\<close>

definition waiting :: "nat \<Rightarrow> nat \<Rightarrow> (wait_future, test_reactor) executor" where
  "waiting k m =
     \<lparr>ex_tasks = [Some \<lparr>t_scheduled = True, t_future = Fused (wait_with_reactor k) 0, t_refs = 1\<rparr>], ex_queue = [0],
      ex_world = \<lparr>tr_wakers = [], tr_waited = m, tr_chans = [NoValue]\<rparr>\<rparr>"

lemma waiting_round:
  "executor_run wait_env (Suc (Suc (Suc n))) (waiting (Suc k) m) = executor_run wait_env (Suc (Suc n)) (waiting k (Suc m))"
  by (simp add: wait_eval waiting_def)

lemma waiting_last:
  "executor_run wait_env (Suc (Suc (Suc n))) (waiting 0 m) =
    Some (Inr \<lparr>ex_tasks = [None], ex_queue = [],
      ex_world = \<lparr>tr_wakers = [], tr_waited = Suc m, tr_chans = [Value ()]\<rparr>\<rparr>)"
  by (simp add: wait_eval waiting_def)

lemma waiting_run:
  "executor_run wait_env (n + k + 3) (waiting k m) =
    Some (Inr \<lparr>ex_tasks = [None], ex_queue = [],
      ex_world = \<lparr>tr_wakers = [], tr_waited = k + m + 1, tr_chans = [Value ()]\<rparr>\<rparr>)"
proof (induction k arbitrary: m)
  case 0
  then show ?case using waiting_last [of n m] by (simp add: numeral_eq_Suc)
next
  case (Suc k)
  then show ?case using waiting_round [of "n + k + 1" k m] by (simp add: numeral_eq_Suc)
qed

text \<open>A future that leaves its waker with the reactor and is pending \<open>k\<close> times completes after
  exactly \<open>k + 1\<close> waits of the reactor, for every \<open>k\<close>, and \<open>block_on\<close> returns its output.\<close>

theorem reactor_waits_once_per_round:
  "block_on wait_env (n + k + 3) (wait_with_reactor k) (executor_new fresh_reactor) =
    Some (Inr ((), \<lparr>ex_tasks = [None], ex_queue = [],
      ex_world = \<lparr>tr_wakers = [], tr_waited = k + 1, tr_chans = [Gone]\<rparr>\<rparr>))"
proof -
  have "executor_spawn wait_env (wait_with_reactor k) (executor_new fresh_reactor) = (0, waiting k 0)"
    by (simp add: wait_eval waiting_def)
  then show ?thesis
    using waiting_run [of n k 0] by (simp add: block_on_def join_try_join_def test_try_recv_def wait_env_def)
qed

end
