(* ===== verification/BufRead.thy ===== *)
theory BufRead
  imports Submission
begin

section \<open>The buffered reader (io/buffered/reader/generic.rs)\<close>

text \<open>
  \<open>BufReaderInner<S, B, F, A>\<close> reads from its source through one buffer: \<open>Ready\<close> holds the
  buffer as a view of the bytes not yet consumed, \<open>Pending\<close> the future of a read that owns
  the buffer. \<open>'w\<close> is the state the future and the adapter act on. The trait
  \<open>BufReaderAdapter\<close> is the record \<open>reader_adapter\<close>, with the poll of the future it creates.
  The recursive call of \<open>poll_fill_buf\<close> is always made in the state \<open>Pending\<close>, whose branch
  is \<open>fill_pending\<close>.

  The locale \<open>read_future\<close> says what a read is: a completed read of \<open>n\<close> bytes leaves the next
  \<open>n\<close> bytes of the source's stream at the front of the buffer. Under it the reader refines
  the stream: \<open>reader_stream\<close>, the bytes it holds followed by those the source still has, is
  what its callers read from, in order and without loss.
\<close>

datatype ('b, 'f) reader_state =
    ReaderEmpty
  | ReaderPending 'f
  | ReaderReady "('b, range) view"

record ('s, 'b, 'f, 'a) buf_reader =
  br_source :: 's
  br_state :: "('b, 'f) reader_state"
  br_adapter :: 'a

record ('s, 'b, 'f, 'a, 'w) reader_adapter =
  ra_create :: "'a \<Rightarrow> 's \<Rightarrow> 'b \<Rightarrow> 'w \<Rightarrow> panic + ('f \<times> 's \<times> 'w)"
  ra_poll :: "waker \<Rightarrow> 'f \<Rightarrow> 'w \<Rightarrow> panic + (('b \<times> (io_error + usize)) poll \<times> 'f \<times> 'w)"
  ra_post_consume :: "'a \<Rightarrow> ('b, range) view \<Rightarrow> 'w \<Rightarrow> panic + (('b, range) view \<times> 'w)"

definition post_consume_default :: "'a \<Rightarrow> ('b, range) view \<Rightarrow> 'w \<Rightarrow> panic + (('b, range) view \<times> 'w)" where
  "post_consume_default _ v w = Inr (v, w)"

definition view_range_new :: "'b \<Rightarrow> usize \<Rightarrow> usize \<Rightarrow> ('b, range) view" where
  "view_range_new b i j = view_new b \<lparr>range_start = i, range_end = j\<rparr>"

definition reader_new :: "'b \<Rightarrow> 's \<Rightarrow> usize \<Rightarrow> usize \<Rightarrow> 'a \<Rightarrow> ('s, 'b, 'f, 'a) buf_reader" where
  "reader_new b s pos filled a =
     \<lparr>br_source = s, br_state = ReaderReady (view_range_new b pos filled), br_adapter = a\<rparr>"

definition reader_empty :: "'b \<Rightarrow> 's \<Rightarrow> 'a \<Rightarrow> ('s, 'b, 'f, 'a) buf_reader" where
  "reader_empty b s a = reader_new b s 0 0 a"

text \<open>A slice outside the allocation, undefined in Rust, is \<open>IndexOutOfBounds\<close> here.\<close>

definition reader_buffer :: "'b stable_buffer \<Rightarrow> ('s, 'b, 'f, 'a) buf_reader \<Rightarrow> panic + u8 list" where
  "reader_buffer D r =
     (case br_state r of
        ReaderReady v \<Rightarrow>
          (case stable_slice (view_buffer D range_rb) v of Some s \<Rightarrow> Inr s | None \<Rightarrow> Inl IndexOutOfBounds)
      | _ \<Rightarrow> Inl Unreachable)"

definition reader_into_raw_parts :: "('s, 'b, 'f, 'a) buf_reader \<Rightarrow> 's \<times> ('b \<times> usize \<times> usize) option" where
  "reader_into_raw_parts r =
     (br_source r, (case br_state r of ReaderReady v \<Rightarrow> Some (view_into_raw_parts v) | _ \<Rightarrow> None))"

text \<open>The end of \<open>poll_fill_buf\<close>, and its branch for a read in flight.\<close>

definition reader_ready ::
    "'b stable_buffer \<Rightarrow> ('s, 'b, 'f, 'a) buf_reader \<Rightarrow> 'w \<Rightarrow>
      panic + ((io_error + u8 list) poll \<times> ('s, 'b, 'f, 'a) buf_reader \<times> 'w)" where
  "reader_ready D r w = mapR (\<lambda>s. (PollReady (Inr s), r, w)) (reader_buffer D r)"

definition fill_pending ::
    "'b stable_buffer \<Rightarrow> ('s, 'b, 'f, 'a, 'w) reader_adapter \<Rightarrow> waker \<Rightarrow> 'f \<Rightarrow> ('s, 'b, 'f, 'a) buf_reader \<Rightarrow> 'w \<Rightarrow>
      panic + ((io_error + u8 list) poll \<times> ('s, 'b, 'f, 'a) buf_reader \<times> 'w)" where
  "fill_pending D A wk f r w =
     bindR (ra_poll A wk f w) (\<lambda>(res, f', w').
     case res of
       Pending \<Rightarrow> Inr (Pending, r\<lparr>br_state := ReaderPending f'\<rparr>, w')
     | PollReady (b, Inr filled) \<Rightarrow> reader_ready D (r\<lparr>br_state := ReaderReady (view_range_new b 0 filled)\<rparr>) w'
     | PollReady (b, Inl e) \<Rightarrow> Inr (PollReady (Inl e), r\<lparr>br_state := ReaderReady (view_range_new b 0 0)\<rparr>, w'))"

definition poll_fill_buf ::
    "'b stable_buffer \<Rightarrow> ('s, 'b, 'f, 'a, 'w) reader_adapter \<Rightarrow> waker \<Rightarrow> ('s, 'b, 'f, 'a) buf_reader \<Rightarrow> 'w \<Rightarrow>
      panic + ((io_error + u8 list) poll \<times> ('s, 'b, 'f, 'a) buf_reader \<times> 'w)" where
  "poll_fill_buf D A wk r w =
     (case br_state r of
        ReaderEmpty \<Rightarrow> Inl Unreachable
      | ReaderPending f \<Rightarrow> fill_pending D A wk f r w
      | ReaderReady v \<Rightarrow>
          if view_is_empty v then
            bindR (ra_create A (br_adapter r) (br_source r) (fst (view_into_raw_parts v)) w) (\<lambda>(f, s, w').
            fill_pending D A wk f (r\<lparr>br_source := s, br_state := ReaderPending f\<rparr>) w')
          else reader_ready D r w)"

definition reader_consume ::
    "('s, 'b, 'f, 'a, 'w) reader_adapter \<Rightarrow> usize \<Rightarrow> ('s, 'b, 'f, 'a) buf_reader \<Rightarrow> 'w \<Rightarrow>
      panic + (('s, 'b, 'f, 'a) buf_reader \<times> 'w)" where
  "reader_consume A amt r w =
     (case br_state r of
        ReaderReady v \<Rightarrow>
          bindR (view_consume amt v) (\<lambda>v'.
          mapR (\<lambda>(v'', w'). (r\<lparr>br_state := ReaderReady v''\<rparr>, w')) (ra_post_consume A (br_adapter r) v' w))
      | _ \<Rightarrow> Inr (r, w))"

text \<open>\<open>poll_read\<close> copies what fits into the caller's buffer, the last component of its result.\<close>

definition reader_poll_read ::
    "'b stable_buffer \<Rightarrow> ('s, 'b, 'f, 'a, 'w) reader_adapter \<Rightarrow> waker \<Rightarrow> u8 list \<Rightarrow> ('s, 'b, 'f, 'a) buf_reader \<Rightarrow> 'w \<Rightarrow>
      panic + ((io_error + usize) poll \<times> ('s, 'b, 'f, 'a) buf_reader \<times> 'w \<times> u8 list)" where
  "reader_poll_read D A wk buf r w =
     bindR (poll_fill_buf D A wk r w) (\<lambda>(res, r', w').
     case res of
       Pending \<Rightarrow> Inr (Pending, r', w', buf)
     | PollReady (Inl e) \<Rightarrow> Inr (PollReady (Inl e), r', w', buf)
     | PollReady (Inr inner) \<Rightarrow>
         (let len = min (length inner) (length buf)
          in mapR (\<lambda>(r'', w''). (PollReady (Inr len), r'', w'', take len inner @ drop len buf))
               (reader_consume A len r' w')))"

text \<open>The wrappers \<open>impl_bufreader!\<close> defines delegate to the inner reader and its source.\<close>

definition reader_inner :: "('s, 'b, 'f, 'a) buf_reader \<Rightarrow> 's" where
  "reader_inner r = br_source r"

definition reader_into_inner :: "('s, 'b, 'f, 'a) buf_reader \<Rightarrow> 's" where
  "reader_into_inner r = br_source r"

definition reader_write_source :: "('s \<Rightarrow> source) \<Rightarrow> ('s, 'b, 'f, 'a) buf_reader \<Rightarrow> source" where
  "reader_write_source write_source r = write_source (reader_inner r)"

subsection \<open>Bytes of views\<close>

definition full_bytes :: "'b stable_buffer \<Rightarrow> 'b \<Rightarrow> u8 list" where
  "full_bytes D b = take (sb_size D b) (drop (sb_ptr D b - bs_ptr (sb_mem D b)) (bs_data (sb_mem D b)))"

definition view_bytes :: "'b stable_buffer \<Rightarrow> ('b, range) view \<Rightarrow> u8 list" where
  "view_bytes D v = drop (range_start (view_range v)) (take (range_end (view_range v)) (full_bytes D (view_inner v)))"

text \<open>Memory handed out by an allocator: in the address space and not at the null pointer.\<close>

locale held_buffer = sound_buffer D ok
  for D :: "'b stable_buffer" and ok :: "'b \<Rightarrow> bool" +
  assumes nonnull: "ok b \<Longrightarrow> sb_size D b \<noteq> 0 \<Longrightarrow> sb_ptr D b \<noteq> null_ptr"
begin

lemma full_length: "ok b \<Longrightarrow> length (full_bytes D b) = sb_size D b"
  using ptr_in [of b] by (cases "sb_size D b = 0") (simp_all add: full_bytes_def, linarith)

lemma view_slice:
  assumes "ok (view_inner v)"
  shows "stable_slice (view_buffer D range_rb) v = Some (view_bytes D v)"
proof -
  obtain b i j where v: "v = view_new b \<lparr>range_start = i, range_end = j\<rparr>"
    by (cases v; cases "view_range v") (auto simp: view_new_def)
  have ok: "ok b" using assms by (simp add: v view_new_def)
  let ?V = "view_buffer D range_rb"
  have sz: "sb_size ?V v = min j (sb_size D b) - i"
    by (simp add: v view_buffer_def view_new_def view_size_def view_start_def view_end_def range_rb_def)
  show ?thesis
  proof (cases "i < min j (sb_size D b)")
    case True
    then have n: "sb_size D b \<noteq> 0" by simp
    note p = ptr_in [OF ok n] nonnull [OF ok n] and m = mem_wf [OF ok]
    have p': "sb_ptr ?V v = sb_ptr D b + i"
      using p m True by (simp add: v view_buffer_def view_new_def view_stable_ptr_def view_start_def range_rb_def mem_ok_def)
    have nn: "sb_ptr ?V v \<noteq> null_ptr" using p p' by (simp add: null_ptr_def)
    have m': "sb_mem ?V v = sb_mem D b" by (simp add: v view_buffer_def view_new_def)
    have "stable_slice ?V v = Some (take (sb_size ?V v) (drop (sb_ptr ?V v - bs_ptr (sb_mem ?V v)) (bs_data (sb_mem ?V v))))"
      by (rule sound_buffer.slice_eq [OF view_sound _ nn]) (use ok in \<open>simp add: v view_new_def\<close>)
    also have "\<dots> = Some (view_bytes D v)"
    proof -
      have o': "sb_ptr D b + i - bs_ptr (sb_mem D b) = i + (sb_ptr D b - bs_ptr (sb_mem D b))" using p by simp
      show ?thesis unfolding sz p' m' o'
        by (simp add: view_bytes_def full_bytes_def v view_new_def drop_take min.commute)
    qed
    finally show ?thesis .
  next
    case False
    have "view_bytes D v = []"
      using False full_length [OF ok] by (auto simp: view_bytes_def v view_new_def)
    moreover have "sb_size ?V v = 0" using False sz by auto
    ultimately show ?thesis by (simp add: stable_slice_def raw_slice_def Let_def)
  qed
qed

lemma view_empty: "view_is_empty v \<Longrightarrow> view_bytes D v = []"
  by (simp add: view_is_empty_def view_bytes_def)

lemma consume_bytes:
  assumes "amt \<le> length (view_bytes D v)" "ok (view_inner v)" "range_start (view_range v) + amt < 2 ^ 64"
  shows "\<exists>v'. view_consume amt v = Inr v' \<and> view_inner v' = view_inner v \<and>
    view_bytes D v' = drop amt (view_bytes D v) \<and> range_start (view_range v') \<le> range_start (view_range v) + amt"
  using view_consume_ok [OF assms(3)] assms(1)
  by (auto simp: view_bytes_def drop_drop add.commute min_def)

end

subsection \<open>The contract of reads, and what the reader makes of it\<close>

definition adapter_panics :: "('s, 'b, 'f, 'a, 'w) reader_adapter \<Rightarrow> panic \<Rightarrow> bool" where
  "adapter_panics A p \<longleftrightarrow>
     (\<exists>a s b w. ra_create A a s b w = Inl p) \<or> (\<exists>wk f w. ra_poll A wk f w = Inl p) \<or>
     (\<exists>a v w. ra_post_consume A a v w = Inl p)"

definition reader_held :: "'b stable_buffer \<Rightarrow> ('s, 'b, 'f, 'a) buf_reader \<Rightarrow> u8 list" where
  "reader_held D r = (case br_state r of ReaderReady v \<Rightarrow> view_bytes D v | _ \<Rightarrow> [])"

definition reader_stream :: "'b stable_buffer \<Rightarrow> ('w \<Rightarrow> u8 list) \<Rightarrow> ('s, 'b, 'f, 'a) buf_reader \<Rightarrow> 'w \<Rightarrow> u8 list" where
  "reader_stream D input r w = reader_held D r @ input w"

definition reader_ok ::
    "('b \<Rightarrow> bool) \<Rightarrow> ('f \<Rightarrow> 'w \<Rightarrow> bool) \<Rightarrow> ('s, 'b, 'f, 'a) buf_reader \<Rightarrow> 'w \<Rightarrow> bool" where
  "reader_ok ok fut_ok r w \<longleftrightarrow>
     (case br_state r of
        ReaderEmpty \<Rightarrow> False
      | ReaderPending f \<Rightarrow> fut_ok f w
      | ReaderReady v \<Rightarrow> ok (view_inner v) \<and> range_start (view_range v) < 2 ^ 64)"

text \<open>A caller's reads, one after the other, and the bytes they returned.\<close>

fun reader_reads ::
    "'b stable_buffer \<Rightarrow> ('s, 'b, 'f, 'a, 'w) reader_adapter \<Rightarrow> (waker \<times> u8 list) list \<Rightarrow> ('s, 'b, 'f, 'a) buf_reader \<Rightarrow> 'w \<Rightarrow>
      panic + (u8 list \<times> ('s, 'b, 'f, 'a) buf_reader \<times> 'w)" where
  "reader_reads D A [] r w = Inr ([], r, w)"
| "reader_reads D A ((wk, buf) # reqs) r w =
     bindR (reader_poll_read D A wk buf r w) (\<lambda>(res, r', w', buf').
     let got = (case res of PollReady (Inr n) \<Rightarrow> take n buf' | _ \<Rightarrow> [])
     in mapR (\<lambda>(bs, rw). (got @ bs, rw)) (reader_reads D A reqs r' w'))"

locale read_future = held_buffer D ok
  for D :: "'b stable_buffer" and ok :: "'b \<Rightarrow> bool" +
  fixes A :: "('s, 'b, 'f, 'a, 'w) reader_adapter"
    and input :: "'w \<Rightarrow> u8 list"
    and fut_ok :: "'f \<Rightarrow> 'w \<Rightarrow> bool"
  assumes create_ok: "ok b \<Longrightarrow> ra_create A a s b w = Inr (f, s', w') \<Longrightarrow> fut_ok f w' \<and> input w' = input w"
    and poll_pending: "fut_ok f w \<Longrightarrow> ra_poll A wk f w = Inr (Pending, f', w') \<Longrightarrow> fut_ok f' w' \<and> input w' = input w"
    and poll_read: "fut_ok f w \<Longrightarrow> ra_poll A wk f w = Inr (PollReady (b, Inr n), f', w') \<Longrightarrow>
      ok b \<and> n \<le> length (input w) \<and> take n (full_bytes D b) = take n (input w) \<and> input w' = drop n (input w)"
    and poll_error: "fut_ok f w \<Longrightarrow> ra_poll A wk f w = Inr (PollReady (b, Inl e), f', w') \<Longrightarrow> ok b \<and> input w' = input w"
    and post_ok: "ok (view_inner v) \<Longrightarrow> ra_post_consume A a v w = Inr (v', w') \<Longrightarrow>
      ok (view_inner v') \<and> view_bytes D v' = view_bytes D v \<and> view_range v' = view_range v \<and> input w' = input w"
begin

abbreviation stream :: "('s, 'b, 'f, 'a) buf_reader \<Rightarrow> 'w \<Rightarrow> u8 list" where
  "stream r w \<equiv> reader_stream D input r w"

abbreviation rok :: "('s, 'b, 'f, 'a) buf_reader \<Rightarrow> 'w \<Rightarrow> bool" where
  "rok r w \<equiv> reader_ok ok fut_ok r w"

lemma new_ok: "ok b \<Longrightarrow> i < 2 ^ 64 \<Longrightarrow> rok (reader_new b s i j a) w"
  by (simp add: reader_ok_def reader_new_def view_range_new_def view_new_def)

lemma buffer_ok:
  "rok r w \<Longrightarrow> br_state r = ReaderReady v \<Longrightarrow> reader_buffer D r = Inr (view_bytes D v)"
  by (simp add: reader_ok_def reader_buffer_def view_slice)

lemma fill_pending_ok:
  assumes "fut_ok f w" "fill_pending D A wk f r w = Inr (res, r', w')"
  shows "rok r' w' \<and> stream r' w' = input w \<and> (\<forall>s. res = PollReady (Inr s) \<longrightarrow> s = reader_held D r' \<and> (\<exists>v. br_state r' = ReaderReady v))"
proof -
  obtain pr f' w1 where p: "ra_poll A wk f w = Inr (pr, f', w1)"
    using assms(2) by (auto simp: fill_pending_def bindR_Inr_iff)
  show ?thesis
  proof (cases pr)
    case Pending
    then show ?thesis
      using assms p poll_pending [OF assms(1), of wk f' w1]
      by (auto simp: fill_pending_def reader_ok_def reader_stream_def reader_held_def)
  next
    case (PollReady br)
    obtain b x where br: "br = (b, x)" by (cases br)
    show ?thesis
    proof (cases x)
      case (Inl e)
      then show ?thesis
        using assms p PollReady br poll_error [OF assms(1), of wk b e f' w1]
        by (auto simp: fill_pending_def reader_ok_def reader_stream_def reader_held_def view_bytes_def view_range_new_def
            view_new_def)
    next
      case (Inr n)
      let ?r = "r\<lparr>br_state := ReaderReady (view_range_new b 0 n)\<rparr>"
      note c = poll_read [OF assms(1) p [unfolded PollReady br Inr]]
      have k: "rok ?r w1" using c by (simp add: reader_ok_def view_range_new_def view_new_def)
      have h: "reader_held D ?r = take n (input w)"
        using c by (simp add: reader_held_def view_bytes_def view_range_new_def view_new_def)
      have "reader_buffer D ?r = Inr (reader_held D ?r)" using buffer_ok [OF k] by (simp add: reader_held_def)
      then have "res = PollReady (Inr (reader_held D ?r))" "r' = ?r" "w' = w1"
        using assms(2) p PollReady br Inr by (auto simp: fill_pending_def reader_ready_def)
      then show ?thesis using k h c by (simp add: reader_stream_def)
    qed
  qed
qed

lemma fill_ok:
  assumes "rok r w" "poll_fill_buf D A wk r w = Inr (res, r', w')"
  shows "rok r' w' \<and> stream r' w' = stream r w \<and>
    (\<forall>s. res = PollReady (Inr s) \<longrightarrow> s = reader_held D r' \<and> (\<exists>v. br_state r' = ReaderReady v))"
proof (cases "br_state r")
  case ReaderEmpty
  then show ?thesis using assms(1) by (simp add: reader_ok_def)
next
  case (ReaderPending f)
  then show ?thesis
    using assms fill_pending_ok [of f w wk r res r' w']
    by (simp add: poll_fill_buf_def reader_ok_def reader_stream_def reader_held_def)
next
  case (ReaderReady v)
  have ok: "ok (view_inner v)" using assms(1) ReaderReady by (simp add: reader_ok_def)
  show ?thesis
  proof (cases "view_is_empty v")
    case True
    then obtain f s w1 where c: "ra_create A (br_adapter r) (br_source r) (view_inner v) w = Inr (f, s, w1)"
        "fill_pending D A wk f (r\<lparr>br_source := s, br_state := ReaderPending f\<rparr>) w1 = Inr (res, r', w')"
      using assms(2) ReaderReady by (auto simp: poll_fill_buf_def bindR_Inr_iff view_into_raw_parts_def)
    show ?thesis
      using fill_pending_ok [OF _ c(2)] create_ok [OF ok c(1)] ReaderReady view_empty [OF True]
      by (simp add: reader_stream_def reader_held_def)
  next
    case False
    then have "res = PollReady (Inr (view_bytes D v))" "r' = r" "w' = w"
      using assms(2) ReaderReady buffer_ok [OF assms(1) ReaderReady] by (auto simp: poll_fill_buf_def reader_ready_def)
    then show ?thesis using assms(1) ReaderReady by (simp add: reader_held_def)
  qed
qed

lemma fill_panic:
  assumes "rok r w" "poll_fill_buf D A wk r w = Inl p"
  shows "adapter_panics A p"
proof -
  have pend: "adapter_panics A p" if f: "fut_ok f w0" and q: "fill_pending D A wk f r0 w0 = Inl p" for f w0 r0
  proof (cases "ra_poll A wk f w0")
    case (Inl p')
    then show ?thesis using q by (auto simp: fill_pending_def adapter_panics_def)
  next
    case (Inr y)
    then obtain pr f' w1 where p: "ra_poll A wk f w0 = Inr (pr, f', w1)" by (cases y) auto
    then obtain b n where pr: "pr = PollReady (b, Inr n)"
        "reader_buffer D (r0\<lparr>br_state := ReaderReady (view_range_new b 0 n)\<rparr>) = Inl p"
      using q by (auto simp: fill_pending_def reader_ready_def mapR_Inl_iff split: poll.splits sum.splits)
    have "ok b" using poll_read [OF f p [unfolded pr(1)]] by simp
    then have "rok (r0\<lparr>br_state := ReaderReady (view_range_new b 0 n)\<rparr>) w0"
      by (simp add: reader_ok_def view_range_new_def view_new_def)
    then show ?thesis using buffer_ok pr(2) by fastforce
  qed
  show ?thesis
  proof (cases "br_state r")
    case ReaderEmpty
    then show ?thesis using assms(1) by (simp add: reader_ok_def)
  next
    case (ReaderPending f)
    then show ?thesis using assms pend by (simp add: poll_fill_buf_def reader_ok_def)
  next
    case (ReaderReady v)
    have ok: "ok (view_inner v)" using assms(1) ReaderReady by (simp add: reader_ok_def)
    show ?thesis
    proof (cases "view_is_empty v")
      case True
      show ?thesis
      proof (cases "ra_create A (br_adapter r) (br_source r) (view_inner v) w")
        case (Inl p')
        then show ?thesis
          using assms(2) True ReaderReady by (auto simp: poll_fill_buf_def view_into_raw_parts_def adapter_panics_def)
      next
        case (Inr y)
        then obtain f s w1 where c: "ra_create A (br_adapter r) (br_source r) (view_inner v) w = Inr (f, s, w1)"
          by (cases y) auto
        then show ?thesis
          using assms(2) True ReaderReady create_ok [OF ok c] pend [of f w1]
          by (simp add: poll_fill_buf_def view_into_raw_parts_def)
      qed
    next
      case False
      then show ?thesis
        using assms(2) ReaderReady buffer_ok [OF assms(1) ReaderReady] by (simp add: poll_fill_buf_def reader_ready_def)
    qed
  qed
qed

lemma consume_ok:
  assumes "rok r w" "amt \<le> length (reader_held D r)"
  shows "(\<exists>p. reader_consume A amt r w = Inl p \<and> adapter_panics A p) \<or>
    (\<exists>r' w'. reader_consume A amt r w = Inr (r', w') \<and> rok r' w' \<and> stream r' w' = drop amt (stream r w))"
proof (cases "br_state r")
  case (ReaderReady v)
  have ok: "ok (view_inner v)" "range_start (view_range v) < 2 ^ 64" using assms(1) ReaderReady by (simp_all add: reader_ok_def)
  have amt: "amt \<le> length (view_bytes D v)" using assms(2) ReaderReady by (simp add: reader_held_def)
  have b: "range_start (view_range v) + amt < 2 ^ 64"
  proof (cases "amt = 0")
    case False
    then have "range_start (view_range v) + amt \<le> length (full_bytes D (view_inner v))"
      using amt by (auto simp: view_bytes_def)
    then show ?thesis
      using ptr_in [OF ok(1)] mem_wf [OF ok(1)] by (cases "sb_size D (view_inner v) = 0") (auto simp: full_length [OF ok(1)] mem_ok_def)
  qed (use ok in simp)
  obtain v' where v': "view_consume amt v = Inr v'" "view_inner v' = view_inner v"
      "view_bytes D v' = drop amt (view_bytes D v)" "range_start (view_range v') \<le> range_start (view_range v) + amt"
    using consume_bytes [OF amt ok(1) b] by blast
  show ?thesis
  proof (cases "ra_post_consume A (br_adapter r) v' w")
    case (Inl p)
    then show ?thesis using v'(1) ReaderReady by (auto simp: reader_consume_def adapter_panics_def)
  next
    case (Inr y)
    obtain v'' w' where y: "y = (v'', w')" by (cases y)
    have "ok (view_inner v') " using v'(2) ok(1) by simp
    from post_ok [OF this Inr [unfolded y]] show ?thesis
      using v' ReaderReady Inr y b ok amt
      by (simp add: reader_consume_def reader_ok_def reader_stream_def reader_held_def)
  qed
next
  case ReaderEmpty
  then show ?thesis using assms(1) by (simp add: reader_ok_def)
next
  case (ReaderPending f)
  then show ?thesis using assms by (simp add: reader_consume_def reader_held_def)
qed

lemma poll_read_ok:
  assumes "rok r w"
  shows "(\<exists>p. reader_poll_read D A wk buf r w = Inl p \<and> adapter_panics A p) \<or>
    (\<exists>res r' w' buf'. reader_poll_read D A wk buf r w = Inr (res, r', w', buf') \<and> rok r' w' \<and> length buf' = length buf \<and>
       (case res of
          PollReady (Inr n) \<Rightarrow> n \<le> length buf \<and> stream r w = take n buf' @ stream r' w' \<and> drop n buf' = drop n buf
        | _ \<Rightarrow> stream r' w' = stream r w \<and> buf' = buf))"
proof (cases "poll_fill_buf D A wk r w")
  case (Inl p)
  then show ?thesis using fill_panic [OF assms Inl] by (simp add: reader_poll_read_def)
next
  case (Inr y)
  then obtain res r1 w1 where f: "poll_fill_buf D A wk r w = Inr (res, r1, w1)" by (cases y) auto
  note k = fill_ok [OF assms f]
  consider "res = Pending" | e where "res = PollReady (Inl e)" | s where "res = PollReady (Inr s)"
    by (metis poll.exhaust sum.exhaust)
  then show ?thesis
  proof cases
    case (3 s)
    then have s: "s = reader_held D r1" using k by simp
    let ?n = "min (length s) (length buf)"
    have st: "stream r1 w1 = take ?n s @ drop ?n (stream r1 w1)"
      by (simp add: reader_stream_def s drop_append take_append min_def)
    have l: "length (take ?n s @ drop ?n buf) = length buf" by simp
    have "?n \<le> length (reader_held D r1)" using s by simp
    from consume_ok [OF conjunct1 [OF k] this] show ?thesis
    proof (elim disjE)
      assume "\<exists>p. reader_consume A ?n r1 w1 = Inl p \<and> adapter_panics A p"
      then show ?thesis using f 3 by (auto simp: reader_poll_read_def Let_def)
    next
      assume "\<exists>r' w'. reader_consume A ?n r1 w1 = Inr (r', w') \<and> rok r' w' \<and> stream r' w' = drop ?n (stream r1 w1)"
      then obtain r' w' where c: "reader_consume A ?n r1 w1 = Inr (r', w')" "rok r' w'" "stream r' w' = drop ?n (stream r1 w1)"
        by blast
      have "reader_poll_read D A wk buf r w = Inr (PollReady (Inr ?n), r', w', take ?n s @ drop ?n buf)"
        using f 3 c(1) by (simp add: reader_poll_read_def Let_def)
      moreover have "stream r w = take ?n (take ?n s @ drop ?n buf) @ stream r' w'"
        using st c(3) k by simp
      moreover have "drop ?n (take ?n s @ drop ?n buf) = drop ?n buf" "?n \<le> length buf" by simp_all
      ultimately show ?thesis using c(2) l by (intro disjI2 exI conjI) (assumption | simp)+
    qed
  qed (use f k in \<open>simp_all add: reader_poll_read_def\<close>)
qed

lemma reads_ok:
  "rok r w \<Longrightarrow> (\<exists>p. reader_reads D A reqs r w = Inl p \<and> adapter_panics A p) \<or>
    (\<exists>bs r' w'. reader_reads D A reqs r w = Inr (bs, r', w') \<and> rok r' w' \<and> stream r w = bs @ stream r' w')"
proof (induction reqs arbitrary: r w)
  case (Cons q reqs)
  obtain wk buf where q: "q = (wk, buf)" by (cases q)
  show ?case
  proof (cases "reader_poll_read D A wk buf r w")
    case (Inl p)
    then show ?thesis using poll_read_ok [OF Cons.prems, of wk buf] q by auto
  next
    case (Inr y)
    then obtain res r1 w1 buf' where y: "reader_poll_read D A wk buf r w = Inr (res, r1, w1, buf')" by (cases y) auto
    let ?got = "case res of PollReady (Inr n) \<Rightarrow> take n buf' | _ \<Rightarrow> []"
    have k: "rok r1 w1" "stream r w = ?got @ stream r1 w1"
      using poll_read_ok [OF Cons.prems, of wk buf] y by (auto split: poll.splits sum.splits)
    show ?thesis using Cons.IH [OF k(1)] y k(2) q by auto
  qed
qed simp

end

end
