(* ===== verification/BufWrite.thy ===== *)
theory BufWrite
  imports BufRead
begin

section \<open>The buffered writer (io/buffered/writer/generic.rs)\<close>

text \<open>
  \<open>BufWriterInner<S, B, F, A>\<close> collects bytes at the front of one buffer and hands it to a
  write when it is full or flushed. The state, the future and the adapter are as for the
  reader. \<open>poll_write\<close> and \<open>poll_flush_and_write\<close> call each other; with a buffer of capacity
  0 they do so for ever, so \<open>writer_poll_write\<close> takes fuel, and \<open>None\<close> is its end. Fuel 3 is
  enough for every buffer with room.

  The locale \<open>write_future\<close> says what a write is: a completed write of \<open>n\<close> bytes appends the
  first \<open>n\<close> bytes of the view to what the sink received. \<open>writer_stream\<close>, what the sink
  received followed by what the writer holds, is what was written to it.
\<close>

datatype ('b, 'f) writer_state =
    WriterEmpty
  | WriterPending 'f
  | WriterReady "('b, range_to) view"

record ('s, 'b, 'f, 'a) buf_writer =
  bw_state :: "('b, 'f) writer_state"
  bw_sink :: 's
  bw_adapter :: 'a

record ('s, 'b, 'f, 'a, 'w) writer_adapter =
  wa_create :: "'a \<Rightarrow> 's \<Rightarrow> ('b, range_to) view \<Rightarrow> 'w \<Rightarrow> panic + ('f \<times> 's \<times> 'w)"
  wa_poll :: "waker \<Rightarrow> 'f \<Rightarrow> 'w \<Rightarrow> panic + ((('b, range_to) view \<times> (io_error + usize)) poll \<times> 'f \<times> 'w)"
  wa_pre_write :: "'a \<Rightarrow> 'b \<Rightarrow> 'w \<Rightarrow> panic + ('b \<times> 'w)"
  wa_post_flush :: "'a \<Rightarrow> 'b \<Rightarrow> 'w \<Rightarrow> panic + ('b \<times> 'w)"

definition hook_default :: "'a \<Rightarrow> 'b \<Rightarrow> 'w \<Rightarrow> panic + ('b \<times> 'w)" where
  "hook_default _ b w = Inr (b, w)"

definition writer_new :: "'b \<Rightarrow> 's \<Rightarrow> usize \<Rightarrow> 'a \<Rightarrow> ('s, 'b, 'f, 'a) buf_writer" where
  "writer_new b s pos a = \<lparr>bw_state = WriterReady (view_new b \<lparr>to_end = pos\<rparr>), bw_sink = s, bw_adapter = a\<rparr>"

definition writer_empty :: "'b \<Rightarrow> 's \<Rightarrow> 'a \<Rightarrow> ('s, 'b, 'f, 'a) buf_writer" where
  "writer_empty b s a = writer_new b s 0 a"

definition writer_into_raw_parts :: "('s, 'b, 'f, 'a) buf_writer \<Rightarrow> 's \<times> ('b \<times> usize) option" where
  "writer_into_raw_parts r =
     (bw_sink r, (case bw_state r of WriterReady v \<Rightarrow> Some (to_into_raw_parts v) | _ \<Rightarrow> None))"

subsection \<open>Flushing\<close>

definition flush_pending ::
    "('s, 'b, 'f, 'a, 'w) writer_adapter \<Rightarrow> waker \<Rightarrow> 'f \<Rightarrow> ('s, 'b, 'f, 'a) buf_writer \<Rightarrow> 'w \<Rightarrow>
      panic + ((io_error + unit) poll \<times> ('s, 'b, 'f, 'a) buf_writer \<times> 'w)" where
  "flush_pending A wk f r w =
     bindR (wa_poll A wk f w) (\<lambda>(res, f', w').
     case res of
       Pending \<Rightarrow> Inr (Pending, r\<lparr>bw_state := WriterPending f'\<rparr>, w')
     | PollReady (v, Inr wrote) \<Rightarrow>
         if wrote \<noteq> to_end (view_range v) then Inl AssertFailed
         else bindR (wa_post_flush A (bw_adapter r) (view_inner v) w') (\<lambda>(b, w'').
              Inr (PollReady (Inr ()), r\<lparr>bw_state := WriterReady (to_set_pos 0 (v\<lparr>view_inner := b\<rparr>))\<rparr>, w''))
     | PollReady (v, Inl e) \<Rightarrow> Inr (PollReady (Inl e), r\<lparr>bw_state := WriterReady v\<rparr>, w'))"

definition writer_poll_flush ::
    "('s, 'b, 'f, 'a, 'w) writer_adapter \<Rightarrow> waker \<Rightarrow> ('s, 'b, 'f, 'a) buf_writer \<Rightarrow> 'w \<Rightarrow>
      panic + ((io_error + unit) poll \<times> ('s, 'b, 'f, 'a) buf_writer \<times> 'w)" where
  "writer_poll_flush A wk r w =
     (case bw_state r of
        WriterEmpty \<Rightarrow> Inl Unreachable
      | WriterPending f \<Rightarrow> flush_pending A wk f r w
      | WriterReady v \<Rightarrow>
          if to_is_empty v then Inr (PollReady (Inr ()), r, w)
          else bindR (wa_create A (bw_adapter r) (bw_sink r) v w) (\<lambda>(f, s, w').
               flush_pending A wk f (r\<lparr>bw_sink := s, bw_state := WriterPending f\<rparr>) w'))"

definition writer_poll_close ::
    "('s, 'b, 'f, 'a) buf_writer \<Rightarrow> 'w \<Rightarrow> panic + ((io_error + unit) poll \<times> ('s, 'b, 'f, 'a) buf_writer \<times> 'w)" where
  "writer_poll_close r w = Inr (PollReady (Inr ()), r, w)"

subsection \<open>Writing\<close>

fun writer_poll_write ::
    "'b stable_buffer \<Rightarrow> ('s, 'b, 'f, 'a, 'w) writer_adapter \<Rightarrow> nat \<Rightarrow> waker \<Rightarrow> u8 list \<Rightarrow> ('s, 'b, 'f, 'a) buf_writer \<Rightarrow>
      'w \<Rightarrow> (panic + ((io_error + usize) poll \<times> ('s, 'b, 'f, 'a) buf_writer \<times> 'w)) option"
  and poll_flush_and_write ::
    "'b stable_buffer \<Rightarrow> ('s, 'b, 'f, 'a, 'w) writer_adapter \<Rightarrow> nat \<Rightarrow> waker \<Rightarrow> u8 list \<Rightarrow> ('s, 'b, 'f, 'a) buf_writer \<Rightarrow>
      'w \<Rightarrow> (panic + ((io_error + usize) poll \<times> ('s, 'b, 'f, 'a) buf_writer \<times> 'w)) option" where
  "writer_poll_write D A 0 wk buf r w = None"
| "writer_poll_write D A (Suc n) wk buf r w =
     (case bw_state r of
        WriterEmpty \<Rightarrow> Some (Inl Unreachable)
      | WriterPending _ \<Rightarrow> poll_flush_and_write D A n wk buf r w
      | WriterReady v \<Rightarrow>
          (case wa_pre_write A (bw_adapter r) (view_inner v) w of
             Inl p \<Rightarrow> Some (Inl p)
           | Inr (b, w') \<Rightarrow>
               (let v' = v\<lparr>view_inner := b\<rparr>;
                    spare = to_spare_capacity D v'
                in if spare = 0 then poll_flush_and_write D A n wk buf (r\<lparr>bw_state := WriterReady v'\<rparr>) w'
                   else Some (mapR (\<lambda>(wrote, v''). (PollReady (Inr wrote), r\<lparr>bw_state := WriterReady v''\<rparr>, w'))
                                (to_fill D (take (min spare (length buf)) buf) v')))))"
| "poll_flush_and_write D A 0 wk buf r w = None"
| "poll_flush_and_write D A (Suc n) wk buf r w =
     (case writer_poll_flush A wk r w of
        Inl p \<Rightarrow> Some (Inl p)
      | Inr (Pending, r', w') \<Rightarrow> Some (Inr (Pending, r', w'))
      | Inr (PollReady (Inl e), r', w') \<Rightarrow> Some (Inr (PollReady (Inl e), r', w'))
      | Inr (PollReady (Inr _), r', w') \<Rightarrow> writer_poll_write D A n wk buf r' w')"

text \<open>The wrappers \<open>impl_bufwriter!\<close> defines.\<close>

definition writer_inner :: "('s, 'b, 'f, 'a) buf_writer \<Rightarrow> 's" where
  "writer_inner r = bw_sink r"

definition writer_into_inner :: "('s, 'b, 'f, 'a) buf_writer \<Rightarrow> 's" where
  "writer_into_inner r = bw_sink r"

definition writer_read_source :: "('s \<Rightarrow> source) \<Rightarrow> ('s, 'b, 'f, 'a) buf_writer \<Rightarrow> source" where
  "writer_read_source read_source r = read_source (writer_inner r)"

subsection \<open>Writable buffers\<close>

locale writable_buffer = held_buffer D ok
  for D :: "'b stable_buffer" and ok :: "'b \<Rightarrow> bool" +
  assumes write_ok: "ok b \<Longrightarrow> off + length bytes \<le> sb_size D b \<Longrightarrow>
      ok (write_slice D b off bytes) \<and> sb_size D (write_slice D b off bytes) = sb_size D b \<and>
      full_bytes D (write_slice D b off bytes) = take off (full_bytes D b) @ bytes @ drop (off + length bytes) (full_bytes D b)"

definition box_ok :: "u8 boxed_slice \<Rightarrow> bool" where
  "box_ok b \<longleftrightarrow> mem_ok b \<and> (bs_data b \<noteq> [] \<longrightarrow> bs_ptr b \<noteq> null_ptr)"

definition opt_box_ok :: "u8 boxed_slice option \<Rightarrow> bool" where
  "opt_box_ok o' \<longleftrightarrow> (case o' of Some b \<Rightarrow> box_ok b | None \<Rightarrow> True)"

interpretation held_box: writable_buffer boxed_slice_buffer box_ok
  by unfold_locales
    (auto simp: box_ok_def boxed_slice_buffer_def mem_ok_def full_bytes_def write_slice_def Let_def)

interpretation held_option: writable_buffer option_slice_buffer opt_box_ok
  by unfold_locales
    (auto simp: opt_box_ok_def option_slice_buffer_def box_ok_def boxed_slice_buffer_def mem_ok_def full_bytes_def
      write_slice_def Let_def no_memory_def null_ptr_def cancel_from_option_boxed_slice_def split: option.splits)

subsection \<open>The contract of writes, and what the writer makes of it\<close>

definition sink_panics :: "('s, 'b, 'f, 'a, 'w) writer_adapter \<Rightarrow> panic \<Rightarrow> bool" where
  "sink_panics A p \<longleftrightarrow>
     (\<exists>a s v w. wa_create A a s v w = Inl p) \<or> (\<exists>wk f w. wa_poll A wk f w = Inl p) \<or>
     (\<exists>a b w. wa_pre_write A a b w = Inl p) \<or> (\<exists>a b w. wa_post_flush A a b w = Inl p)"

definition to_bytes :: "'b stable_buffer \<Rightarrow> ('b, range_to) view \<Rightarrow> u8 list" where
  "to_bytes D v = take (to_end (view_range v)) (full_bytes D (view_inner v))"

definition writer_held ::
    "'b stable_buffer \<Rightarrow> ('f \<Rightarrow> ('b, range_to) view) \<Rightarrow> ('s, 'b, 'f, 'a) buf_writer \<Rightarrow> u8 list" where
  "writer_held D carried r =
     (case bw_state r of
        WriterEmpty \<Rightarrow> []
      | WriterPending f \<Rightarrow> to_bytes D (carried f)
      | WriterReady v \<Rightarrow> to_bytes D v)"

definition writer_stream ::
    "'b stable_buffer \<Rightarrow> ('f \<Rightarrow> ('b, range_to) view) \<Rightarrow> ('w \<Rightarrow> u8 list) \<Rightarrow> ('s, 'b, 'f, 'a) buf_writer \<Rightarrow> 'w \<Rightarrow> u8 list" where
  "writer_stream D carried sent r w = sent w @ writer_held D carried r"

definition view_ok :: "'b stable_buffer \<Rightarrow> ('b \<Rightarrow> bool) \<Rightarrow> ('b, range_to) view \<Rightarrow> bool" where
  "view_ok D ok v \<longleftrightarrow> ok (view_inner v) \<and> to_end (view_range v) \<le> sb_size D (view_inner v)"

definition writer_ok ::
    "'b stable_buffer \<Rightarrow> ('b \<Rightarrow> bool) \<Rightarrow> ('f \<Rightarrow> ('b, range_to) view) \<Rightarrow> ('f \<Rightarrow> 'w \<Rightarrow> bool) \<Rightarrow>
      ('s, 'b, 'f, 'a) buf_writer \<Rightarrow> 'w \<Rightarrow> bool" where
  "writer_ok D ok carried fut_ok r w \<longleftrightarrow>
     (case bw_state r of
        WriterEmpty \<Rightarrow> False
      | WriterPending f \<Rightarrow> fut_ok f w \<and> view_ok D ok (carried f)
      | WriterReady v \<Rightarrow> view_ok D ok v)"

locale write_future = writable_buffer D ok
  for D :: "'b stable_buffer" and ok :: "'b \<Rightarrow> bool" +
  fixes A :: "('s, 'b, 'f, 'a, 'w) writer_adapter"
    and sent :: "'w \<Rightarrow> u8 list"
    and carried :: "'f \<Rightarrow> ('b, range_to) view"
    and fut_ok :: "'f \<Rightarrow> 'w \<Rightarrow> bool"
  assumes create_ok: "view_ok D ok v \<Longrightarrow> wa_create A a s v w = Inr (f, s', w') \<Longrightarrow>
      fut_ok f w' \<and> carried f = v \<and> sent w' = sent w"
    and poll_pending: "fut_ok f w \<Longrightarrow> wa_poll A wk f w = Inr (Pending, f', w') \<Longrightarrow>
      fut_ok f' w' \<and> carried f' = carried f \<and> sent w' = sent w"
    and poll_done: "fut_ok f w \<Longrightarrow> wa_poll A wk f w = Inr (PollReady (v, Inr n), f', w') \<Longrightarrow>
      v = carried f \<and> sent w' = sent w @ take n (to_bytes D v)"
    and poll_failed: "fut_ok f w \<Longrightarrow> wa_poll A wk f w = Inr (PollReady (v, Inl e), f', w') \<Longrightarrow>
      v = carried f \<and> sent w' = sent w"
    and pre_ok: "ok b \<Longrightarrow> wa_pre_write A a b w = Inr (b', w') \<Longrightarrow>
      ok b' \<and> (b' = b \<or> sb_size D b = 0) \<and> sent w' = sent w"
    and post_ok: "ok b \<Longrightarrow> wa_post_flush A a b w = Inr (b', w') \<Longrightarrow> ok b' \<and> sent w' = sent w"
begin

abbreviation stream :: "('s, 'b, 'f, 'a) buf_writer \<Rightarrow> 'w \<Rightarrow> u8 list" where
  "stream r w \<equiv> writer_stream D carried sent r w"

abbreviation wok :: "('s, 'b, 'f, 'a) buf_writer \<Rightarrow> 'w \<Rightarrow> bool" where
  "wok r w \<equiv> writer_ok D ok carried fut_ok r w"

lemma to_bytes_length: "view_ok D ok v \<Longrightarrow> length (to_bytes D v) = to_end (view_range v)"
  by (simp add: view_ok_def to_bytes_def full_length)

lemma new_ok: "ok b \<Longrightarrow> i \<le> sb_size D b \<Longrightarrow> wok (writer_new b s i a) w"
  by (simp add: writer_ok_def writer_new_def view_new_def view_ok_def)

text \<open>A flush that ends well has sent everything; one that fails keeps it.\<close>

lemma flush_pending_ok:
  assumes "fut_ok f w" "view_ok D ok (carried f)" "flush_pending A wk f r w = Inr (res, r', w')"
  shows "wok r' w' \<and> stream r' w' = sent w @ to_bytes D (carried f) \<and>
    (res = PollReady (Inr ()) \<longrightarrow> (\<exists>v. bw_state r' = WriterReady v \<and> to_end (view_range v) = 0))"
proof -
  obtain pr f' w1 where p: "wa_poll A wk f w = Inr (pr, f', w1)"
    using assms(3) by (auto simp: flush_pending_def bindR_Inr_iff)
  show ?thesis
  proof (cases pr)
    case Pending
    then show ?thesis
      using assms p poll_pending [OF assms(1), of wk f' w1]
      by (auto simp: flush_pending_def writer_ok_def writer_stream_def writer_held_def)
  next
    case (PollReady vr)
    obtain v x where vr: "vr = (v, x)" by (cases vr)
    show ?thesis
    proof (cases x)
      case (Inl e)
      then show ?thesis
        using assms p PollReady vr poll_failed [OF assms(1), of wk v e f' w1]
        by (auto simp: flush_pending_def writer_ok_def writer_stream_def writer_held_def)
    next
      case (Inr n)
      note c = poll_done [OF assms(1) p [unfolded PollReady vr Inr]]
      then have v: "view_ok D ok v" using assms(2) by simp
      obtain b w2 where b: "n = to_end (view_range v)" "wa_post_flush A (bw_adapter r) (view_inner v) w1 = Inr (b, w2)"
          "res = PollReady (Inr ())" "r' = r\<lparr>bw_state := WriterReady (to_set_pos 0 (v\<lparr>view_inner := b\<rparr>))\<rparr>" "w' = w2"
        using assms(3) p PollReady vr Inr by (auto simp: flush_pending_def bindR_Inr_iff split: if_splits)
      have "ok b" "sent w2 = sent w1" using post_ok [OF _ b(2)] v by (simp_all add: view_ok_def)
      moreover have "take n (to_bytes D v) = to_bytes D v" using to_bytes_length [OF v] b(1) by simp
      ultimately show ?thesis
        using b c by (simp add: writer_ok_def writer_stream_def writer_held_def to_bytes_def to_set_pos_def view_ok_def)
    qed
  qed
qed

lemma flush_ok:
  assumes "wok r w" "writer_poll_flush A wk r w = Inr (res, r', w')"
  shows "wok r' w' \<and> stream r' w' = stream r w \<and>
    (res = PollReady (Inr ()) \<longrightarrow> (\<exists>v. bw_state r' = WriterReady v \<and> to_end (view_range v) = 0))"
proof (cases "bw_state r")
  case WriterEmpty
  then show ?thesis using assms(1) by (simp add: writer_ok_def)
next
  case (WriterPending f)
  then show ?thesis
    using assms flush_pending_ok [of f w wk r res r' w']
    by (simp add: writer_poll_flush_def writer_ok_def writer_stream_def writer_held_def)
next
  case (WriterReady v)
  have v: "view_ok D ok v" using assms(1) WriterReady by (simp add: writer_ok_def)
  show ?thesis
  proof (cases "to_is_empty v")
    case True
    then show ?thesis using assms WriterReady by (auto simp: writer_poll_flush_def to_is_empty_def)
  next
    case False
    then obtain f s w1 where c: "wa_create A (bw_adapter r) (bw_sink r) v w = Inr (f, s, w1)"
        "flush_pending A wk f (r\<lparr>bw_sink := s, bw_state := WriterPending f\<rparr>) w1 = Inr (res, r', w')"
      using assms(2) WriterReady by (auto simp: writer_poll_flush_def bindR_Inr_iff)
    note k = create_ok [OF v c(1)]
    show ?thesis
      using flush_pending_ok [OF _ _ c(2)] k v WriterReady by (simp add: writer_stream_def writer_held_def)
  qed
qed

lemma flush_sent:
  assumes "wok r w" "writer_poll_flush A wk r w = Inr (PollReady (Inr ()), r', w')"
  shows "sent w' = stream r w"
  using flush_ok [OF assms] by (auto simp: writer_stream_def writer_held_def to_bytes_def)

text \<open>The bytes accepted by the buffer.\<close>

lemma fill_bytes:
  assumes "view_ok D ok v" "n \<le> sb_size D (view_inner v) - to_end (view_range v)" "length data = n"
  shows "\<exists>v'. to_fill D data v = Inr (n, v') \<and> view_ok D ok v' \<and> to_bytes D v' = to_bytes D v @ data"
proof -
  let ?b = "view_inner v" and ?pos = "to_end (view_range v)"
  have ok: "ok ?b" and pos: "?pos \<le> sb_size D ?b" using assms(1) by (simp_all add: view_ok_def)
  have len: "(case stable_slice D ?b of Some s \<Rightarrow> length s | None \<Rightarrow> 0) = sb_size D ?b"
  proof (cases "sb_size D ?b = 0")
    case True
    then show ?thesis by (simp add: stable_slice_def raw_slice_def Let_def)
  next
    case False
    then show ?thesis using slice_eq [OF ok nonnull [OF ok False]] full_length [OF ok] by (simp add: full_bytes_def)
  qed
  have m: "min (sb_size D ?b - ?pos) (length data) = n" using assms by simp
  have t: "take n data = data" using assms(3) by simp
  note w = write_ok [OF ok, of ?pos data]
  have f: "to_fill D data v = Inr (n, \<lparr>view_inner = write_slice D ?b ?pos data, view_range = \<lparr>to_end = ?pos + n\<rparr>\<rparr>)"
    using pos m t len by (simp add: to_fill_def Let_def)
  have "?pos + length data \<le> sb_size D ?b" using assms pos by linarith
  with w have w': "ok (write_slice D ?b ?pos data)" "sb_size D (write_slice D ?b ?pos data) = sb_size D ?b"
      "full_bytes D (write_slice D ?b ?pos data) = take ?pos (full_bytes D ?b) @ data @ drop (?pos + length data) (full_bytes D ?b)"
    by simp_all
  show ?thesis
    unfolding f using w' assms(3) pos \<open>?pos + length data \<le> sb_size D ?b\<close> full_length [OF ok]
    by (simp add: view_ok_def to_bytes_def)
qed

definition wrote :: "u8 list \<Rightarrow> u8 list \<Rightarrow> (io_error + usize) poll \<Rightarrow> ('s, 'b, 'f, 'a) buf_writer \<Rightarrow> 'w \<Rightarrow> bool" where
  "wrote before buf res r' w' \<longleftrightarrow> wok r' w' \<and>
     (case res of
        PollReady (Inr n) \<Rightarrow> n \<le> length buf \<and> (buf \<noteq> [] \<longrightarrow> 0 < n) \<and> stream r' w' = before @ take n buf
      | _ \<Rightarrow> stream r' w' = before)"

lemma pre_write_view:
  assumes "view_ok D ok v" "wa_pre_write A a (view_inner v) w = Inr (b, w')"
  shows "view_ok D ok (v\<lparr>view_inner := b\<rparr>) \<and> to_bytes D (v\<lparr>view_inner := b\<rparr>) = to_bytes D v \<and> sent w' = sent w"
proof -
  have ok: "ok (view_inner v)" using assms(1) by (simp add: view_ok_def)
  note k = pre_ok [OF ok assms(2)]
  show ?thesis
  proof (cases "b = view_inner v")
    case False
    then have "to_end (view_range v) = 0" using k assms(1) by (simp add: view_ok_def)
    then show ?thesis using k by (simp add: view_ok_def to_bytes_def)
  qed (use assms(1) k in \<open>simp add: view_ok_def\<close>)
qed

text \<open>A write into a buffer with room, after \<open>pre_write\<close>.\<close>

lemma write_room:
  assumes "wok r w" "bw_state r = WriterReady v" "wa_pre_write A (bw_adapter r) (view_inner v) w = Inr (b, w')"
    "to_spare_capacity D (v\<lparr>view_inner := b\<rparr>) \<noteq> 0"
  shows "\<exists>n r'. writer_poll_write D A (Suc m) wk buf r w = Some (Inr (PollReady (Inr n), r', w')) \<and>
    wrote (stream r w) buf (PollReady (Inr n)) r' w'"
proof -
  let ?v = "v\<lparr>view_inner := b\<rparr>" and ?n = "min (to_spare_capacity D (v\<lparr>view_inner := b\<rparr>)) (length buf)"
  have v: "view_ok D ok v" using assms(1,2) by (simp add: writer_ok_def)
  note k = pre_write_view [OF v assms(3)]
  have l: "length (take ?n buf) = ?n" by simp
  have "?n \<le> sb_size D (view_inner ?v) - to_end (view_range ?v)" by (simp add: to_spare_capacity_def)
  from fill_bytes [OF conjunct1 [OF k] this l] obtain v' where v':
    "to_fill D (take ?n buf) ?v = Inr (?n, v')" "view_ok D ok v'" "to_bytes D v' = to_bytes D ?v @ take ?n buf"
    by blast
  have "writer_poll_write D A (Suc m) wk buf r w = Some (Inr (PollReady (Inr ?n), r\<lparr>bw_state := WriterReady v'\<rparr>, w'))"
    using assms(2-4) v'(1) by (simp add: Let_def)
  moreover have "wrote (stream r w) buf (PollReady (Inr ?n)) (r\<lparr>bw_state := WriterReady v'\<rparr>) w'"
    using v' k assms(2,4) by (simp add: wrote_def writer_ok_def writer_stream_def writer_held_def)
  ultimately show ?thesis by blast
qed

lemma write_ok_fuel:
  "(wok r w \<longrightarrow> writer_poll_write D A n wk buf r w = Some (Inr (res, r', w')) \<longrightarrow> wrote (stream r w) buf res r' w') \<and>
   (wok r w \<longrightarrow> poll_flush_and_write D A n wk buf r w = Some (Inr (res, r', w')) \<longrightarrow> wrote (stream r w) buf res r' w')"
proof (induction n arbitrary: r w)
  case (Suc n)
  have 1: "wrote (stream r w) buf res r' w'"
    if w: "wok r w" and q: "writer_poll_write D A (Suc n) wk buf r w = Some (Inr (res, r', w'))"
  proof (cases "bw_state r")
    case WriterEmpty
    then show ?thesis using w by (simp add: writer_ok_def)
  next
    case (WriterPending f)
    then show ?thesis using Suc.IH w q by simp
  next
    case (WriterReady v)
    have v: "view_ok D ok v" using w WriterReady by (simp add: writer_ok_def)
    obtain b w1 where b: "wa_pre_write A (bw_adapter r) (view_inner v) w = Inr (b, w1)"
      using q WriterReady by (auto split: sum.splits)
    show ?thesis
    proof (cases "to_spare_capacity D (v\<lparr>view_inner := b\<rparr>) = 0")
      case True
      let ?r = "r\<lparr>bw_state := WriterReady (v\<lparr>view_inner := b\<rparr>)\<rparr>"
      have "poll_flush_and_write D A n wk buf ?r w1 = Some (Inr (res, r', w'))"
        using q WriterReady b True by (simp add: Let_def)
      moreover have "wok ?r w1" "stream ?r w1 = stream r w"
        using pre_write_view [OF v b] WriterReady by (simp_all add: writer_ok_def writer_stream_def writer_held_def)
      ultimately show ?thesis using Suc.IH [of ?r w1] by simp
    next
      case False
      from write_room [OF w WriterReady b False, of n wk buf] q show ?thesis by auto
    qed
  qed
  moreover have "wrote (stream r w) buf res r' w'"
    if w: "wok r w" and q: "poll_flush_and_write D A (Suc n) wk buf r w = Some (Inr (res, r', w'))"
  proof -
    obtain fr r1 w1 where f: "writer_poll_flush A wk r w = Inr (fr, r1, w1)"
      using q by (cases "writer_poll_flush A wk r w") auto
    note k = flush_ok [OF w f]
    consider "fr = Pending" | e where "fr = PollReady (Inl e)" | u where "fr = PollReady (Inr u)"
      by (metis poll.exhaust sum.exhaust)
    then show ?thesis
    proof cases
      case 3
      then show ?thesis using q f k Suc.IH [of r1 w1] by simp
    qed (use q f k in \<open>auto simp: wrote_def\<close>)
  qed
  ultimately show ?case by blast
qed simp

lemma write_sound:
  "wok r w \<Longrightarrow> writer_poll_write D A n wk buf r w = Some (Inr (res, r', w')) \<Longrightarrow> wrote (stream r w) buf res r' w'"
  using write_ok_fuel by blast

text \<open>With room in every buffer \<open>pre_write\<close> leaves, fuel 3 is enough.\<close>

lemma write_returns:
  assumes room: "\<And>a b w b' w'. ok b \<Longrightarrow> wa_pre_write A a b w = Inr (b', w') \<Longrightarrow> 0 < sb_size D b'" and w: "wok r w"
  shows "writer_poll_write D A (Suc (Suc (Suc n))) wk buf r w \<noteq> None"
proof -
  have flushed: "writer_poll_write D A (Suc m) wk buf r w \<noteq> None"
    if s: "wok r w" "bw_state r = WriterReady v" "to_end (view_range v) = 0" for r w v m
  proof (cases "wa_pre_write A (bw_adapter r) (view_inner v) w")
    case (Inr y)
    obtain b w1 where y: "y = (b, w1)" by (cases y)
    have "ok (view_inner v)" using s(1,2) by (simp add: writer_ok_def view_ok_def)
    from room [OF this Inr [unfolded y]] have "to_spare_capacity D (v\<lparr>view_inner := b\<rparr>) \<noteq> 0"
      using s(3) by (simp add: to_spare_capacity_def)
    from write_room [OF s(1,2) Inr [unfolded y] this, of m wk buf] show ?thesis by auto
  qed (use s(2) in simp)
  have flush_first: "poll_flush_and_write D A (Suc (Suc n)) wk buf r w \<noteq> None" if s: "wok r w" for r w
  proof (cases "writer_poll_flush A wk r w")
    case (Inr y)
    obtain fr r1 w1 where y: "y = (fr, r1, w1)" by (cases y)
    note k = flush_ok [OF s Inr [unfolded y]]
    consider "fr = Pending" | e where "fr = PollReady (Inl e)" | "fr = PollReady (Inr ())"
      by (metis poll.exhaust sum.exhaust unit.exhaust)
    then show ?thesis
    proof cases
      case 3
      then obtain v where "bw_state r1 = WriterReady v" "to_end (view_range v) = 0" using k by blast
      from flushed [OF conjunct1 [OF k] this, of n] show ?thesis using Inr y 3 by (simp del: writer_poll_write.simps)
    qed (use Inr y in simp_all)
  qed simp
  show ?thesis
  proof (cases "bw_state r")
    case (WriterReady v)
    show ?thesis
    proof (cases "wa_pre_write A (bw_adapter r) (view_inner v) w")
      case (Inr y)
      obtain b w1 where y: "y = (b, w1)" by (cases y)
      have v: "view_ok D ok v" using w WriterReady by (simp add: writer_ok_def)
      let ?r = "r\<lparr>bw_state := WriterReady (v\<lparr>view_inner := b\<rparr>)\<rparr>"
      have "wok ?r w1" using pre_write_view [OF v Inr [unfolded y]] by (simp add: writer_ok_def)
      then show ?thesis using flush_first [of ?r w1] WriterReady Inr y by (simp add: Let_def del: poll_flush_and_write.simps)
    qed (use WriterReady in simp)
  qed (use flush_first [OF w] w in \<open>simp_all del: poll_flush_and_write.simps add: writer_ok_def\<close>)
qed

end

end
