(* ===== verification/BufProps.thy ===== *)
theory BufProps
  imports BufWrite
begin

section \<open>Buffered streams\<close>








lemma boxed_full [simp]: "full_bytes boxed_slice_buffer b = bs_data b"
  by (simp add: full_bytes_def boxed_slice_buffer_def)

lemma boxed_size [simp]: "sb_size boxed_slice_buffer b = length (bs_data b)"
  by (simp add: boxed_slice_buffer_def)



subsection \<open>The reader\<close>










subsection \<open>The writer\<close>















text \<open>Closing a writer answers at once that all is well and sends nothing, whatever it still
  holds.\<close>

theorem close_does_not_flush:
  "\<exists>r'. writer_poll_close r w = Inr (PollReady (Inr ()), r', w) \<and> writer_held D carried r' = writer_held D carried r"
  by (simp add: writer_poll_close_def)

end
