(* ===== verification/Owned.thy ===== *)
theory Owned
  imports OpsWrite OpsFile Submission
begin

section \<open>Owned buffers, sources and descriptors (crate inel)\<close>

text \<open>
  What the crate \<open>inel\<close> puts over the operations: the futures of owned reads and writes
  (io/owned.rs), which are submissions on the global reactor; the standard streams (io/mod.rs)
  and split handles (io/split.rs), whose \<open>Rc\<close> both halves share; descriptors that close
  themselves (source.rs); and the registered buffers \<open>Fixed\<close> (inel-reactor/src/buffer.rs,
  inel/src/buffer.rs). \<open>read_source\<close> and \<open>write_source\<close> are the traits \<open>ReadSource\<close> and
  \<open>WriteSource\<close> of the source, \<open>this\<close> the address of the future or value.
\<close>

subsection \<open>Owned reads and writes (io/owned.rs)\<close>

definition read_owned :: "('s \<Rightarrow> source) \<Rightarrow> ptr \<Rightarrow> 's \<Rightarrow> 'b \<Rightarrow> 'b read_op submission" where
  "read_owned read_source this s b = submission_new this (read_new as_source_source (read_source s) b)"

definition read_owned_at :: "('s \<Rightarrow> source) \<Rightarrow> ptr \<Rightarrow> 's \<Rightarrow> u64 \<Rightarrow> 'b \<Rightarrow> 'b read_op submission" where
  "read_owned_at read_source this s off b =
     submission_new this (read_offset off (read_new as_source_source (read_source s) b))"

definition read_fixed_owned :: "('s \<Rightarrow> source) \<Rightarrow> ptr \<Rightarrow> 's \<Rightarrow> 'b \<Rightarrow> 'b read_fixed submission" where
  "read_fixed_owned read_source this s b = submission_new this (read_fixed_new as_source_source (read_source s) b)"

definition read_fixed_owned_at :: "('s \<Rightarrow> source) \<Rightarrow> ptr \<Rightarrow> 's \<Rightarrow> u64 \<Rightarrow> 'b \<Rightarrow> 'b read_fixed submission" where
  "read_fixed_owned_at read_source this s off b =
     submission_new this (read_fixed_offset off (read_fixed_new as_source_source (read_source s) b))"

definition write_owned :: "('s \<Rightarrow> source) \<Rightarrow> ptr \<Rightarrow> 's \<Rightarrow> 'b \<Rightarrow> 'b write_op submission" where
  "write_owned write_source this s b = submission_new this (write_new as_source_source (write_source s) b)"

definition write_owned_at :: "('s \<Rightarrow> source) \<Rightarrow> ptr \<Rightarrow> 's \<Rightarrow> u64 \<Rightarrow> 'b \<Rightarrow> 'b write_op submission" where
  "write_owned_at write_source this s off b =
     submission_new this (write_offset off (write_new as_source_source (write_source s) b))"

definition write_fixed_owned :: "('s \<Rightarrow> source) \<Rightarrow> ptr \<Rightarrow> 's \<Rightarrow> 'b \<Rightarrow> 'b write_fixed submission" where
  "write_fixed_owned write_source this s b = submission_new this (write_fixed_new as_source_source (write_source s) b)"

definition write_fixed_owned_at :: "('s \<Rightarrow> source) \<Rightarrow> ptr \<Rightarrow> 's \<Rightarrow> u64 \<Rightarrow> 'b \<Rightarrow> 'b write_fixed submission" where
  "write_fixed_owned_at write_source this s off b =
     submission_new this (write_fixed_offset off (write_fixed_new as_source_source (write_source s) b))"

definition read_owned_poll ::
    "('u, 's) env \<Rightarrow> 'b stable_buffer \<Rightarrow> waker \<Rightarrow> 'b read_op submission \<Rightarrow> 'w \<times> ('u, 's) ring cell \<Rightarrow>
      panic + (('b \<times> (io_error + usize)) poll \<times> 'b read_op submission \<times> 'w \<times> ('u, 's) ring cell)" where
  "read_owned_poll E D wk sub st = submission_poll E (read_op D) wk sub st"

definition read_owned_is_terminated :: "'b read_op submission \<Rightarrow> bool" where
  "read_owned_is_terminated sub \<longleftrightarrow> submission_is_terminated sub"

definition read_fixed_owned_poll ::
    "('u, 's) env \<Rightarrow> 'b stable_buffer \<Rightarrow> ('b \<Rightarrow> buffer_slot) \<Rightarrow> waker \<Rightarrow> 'b read_fixed submission \<Rightarrow> 'w \<times> ('u, 's) ring cell \<Rightarrow>
      panic + (('b \<times> (io_error + usize)) poll \<times> 'b read_fixed submission \<times> 'w \<times> ('u, 's) ring cell)" where
  "read_fixed_owned_poll E D slot wk sub st = submission_poll E (read_fixed_op D slot) wk sub st"

definition read_fixed_owned_is_terminated :: "'b read_fixed submission \<Rightarrow> bool" where
  "read_fixed_owned_is_terminated sub \<longleftrightarrow> submission_is_terminated sub"

definition write_owned_poll ::
    "('u, 's) env \<Rightarrow> 'b stable_buffer \<Rightarrow> waker \<Rightarrow> 'b write_op submission \<Rightarrow> 'w \<times> ('u, 's) ring cell \<Rightarrow>
      panic + (('b \<times> (io_error + usize)) poll \<times> 'b write_op submission \<times> 'w \<times> ('u, 's) ring cell)" where
  "write_owned_poll E D wk sub st = submission_poll E (write_op D) wk sub st"

definition write_owned_is_terminated :: "'b write_op submission \<Rightarrow> bool" where
  "write_owned_is_terminated sub \<longleftrightarrow> submission_is_terminated sub"

definition write_fixed_owned_poll ::
    "('u, 's) env \<Rightarrow> 'b stable_buffer \<Rightarrow> ('b \<Rightarrow> buffer_slot) \<Rightarrow> waker \<Rightarrow> 'b write_fixed submission \<Rightarrow> 'w \<times> ('u, 's) ring cell \<Rightarrow>
      panic + (('b \<times> (io_error + usize)) poll \<times> 'b write_fixed submission \<times> 'w \<times> ('u, 's) ring cell)" where
  "write_fixed_owned_poll E D slot wk sub st = submission_poll E (write_fixed_op D slot) wk sub st"

definition write_fixed_owned_is_terminated :: "'b write_fixed submission \<Rightarrow> bool" where
  "write_fixed_owned_is_terminated sub \<longleftrightarrow> submission_is_terminated sub"

subsection \<open>Standard streams and split handles (io/mod.rs, io/split.rs)\<close>

datatype std_stream = Stdin | Stdout

definition std_as_raw_fd :: "std_stream \<Rightarrow> i32" where
  "std_as_raw_fd s = (case s of Stdin \<Rightarrow> 0 | Stdout \<Rightarrow> 1)"

definition stdin_read_source :: "std_stream \<Rightarrow> source" where
  "stdin_read_source s = as_source_fd (std_as_raw_fd s)"

definition stdout_write_source :: "std_stream \<Rightarrow> source" where
  "stdout_write_source s = as_source_fd (std_as_raw_fd s)"

record 's rc_shared =
  rc_value :: 's
  rc_count :: nat

type_synonym 's shared = "ptr \<rightharpoonup> 's rc_shared"

record read_handle = rh_inner :: ptr

record write_handle = wh_inner :: ptr

definition split :: "ptr \<Rightarrow> 's \<Rightarrow> 's shared \<Rightarrow> read_handle \<times> write_handle \<times> 's shared" where
  "split p s h = (\<lparr>rh_inner = p\<rparr>, \<lparr>wh_inner = p\<rparr>, h(p \<mapsto> \<lparr>rc_value = s, rc_count = 2\<rparr>))"

definition read_handle_deref :: "'s shared \<Rightarrow> read_handle \<Rightarrow> 's option" where
  "read_handle_deref h r = map_option rc_value (h (rh_inner r))"

definition write_handle_deref :: "'s shared \<Rightarrow> write_handle \<Rightarrow> 's option" where
  "write_handle_deref h r = map_option rc_value (h (wh_inner r))"

definition read_handle_source :: "('s \<Rightarrow> source) \<Rightarrow> 's shared \<Rightarrow> read_handle \<Rightarrow> source option" where
  "read_handle_source read_source h r = map_option read_source (read_handle_deref h r)"

definition write_handle_source :: "('s \<Rightarrow> source) \<Rightarrow> 's shared \<Rightarrow> write_handle \<Rightarrow> source option" where
  "write_handle_source write_source h r = map_option write_source (write_handle_deref h r)"

definition read_handle_raw_fd :: "('s \<Rightarrow> i32) \<Rightarrow> 's shared \<Rightarrow> read_handle \<Rightarrow> i32 option" where
  "read_handle_raw_fd as_raw_fd h r = map_option as_raw_fd (read_handle_deref h r)"

definition write_handle_raw_fd :: "('s \<Rightarrow> i32) \<Rightarrow> 's shared \<Rightarrow> write_handle \<Rightarrow> i32 option" where
  "write_handle_raw_fd as_raw_fd h r = map_option as_raw_fd (write_handle_deref h r)"

text \<open>The last of the two handles drops the source they share, the second component.\<close>

definition rc_release :: "ptr \<Rightarrow> 's shared \<Rightarrow> 's shared \<times> 's option" where
  "rc_release p h =
     (case h p of
        None \<Rightarrow> (h, None)
      | Some x \<Rightarrow> if 1 < rc_count x then (h(p \<mapsto> x\<lparr>rc_count := rc_count x - 1\<rparr>), None) else (h(p := None), Some (rc_value x)))"

subsection \<open>Descriptors (source.rs)\<close>

record owned_fd =
  of_fd :: i32

definition owned_fd_from_raw :: "i32 \<Rightarrow> owned_fd" where
  "owned_fd_from_raw fd = \<lparr>of_fd = fd\<rparr>"

definition owned_fd_as_raw :: "owned_fd \<Rightarrow> i32" where
  "owned_fd_as_raw o' = of_fd o'"

definition owned_fd_into_raw :: "owned_fd \<Rightarrow> i32" where
  "owned_fd_into_raw o' = of_fd o'"

definition as_source_owned_fd :: "owned_fd \<Rightarrow> source" where
  "as_source_owned_fd o' = as_source_fd (of_fd o')"

definition owned_fd_drop ::
    "('u, 's) env \<Rightarrow> ptr \<Rightarrow> owned_fd \<Rightarrow> 'w \<times> ('u, 's) ring cell \<Rightarrow> panic + ('w \<times> ('u, 's) ring cell)" where
  "owned_fd_drop E this o' s =
     (if 0 <s of_fd o' then mapR snd (run_detached E close_ops this (close_new as_source_fd (of_fd o')) s) else Inr s)"

datatype owned_direct = Manual direct_fd | Auto direct_auto_fd

definition as_source_owned_direct :: "owned_direct \<Rightarrow> source" where
  "as_source_owned_direct d = (case d of Manual fd \<Rightarrow> as_source_direct fd | Auto fd \<Rightarrow> as_source_auto fd)"

definition as_slot_owned_direct :: "owned_direct \<Rightarrow> direct_slot" where
  "as_slot_owned_direct d = (case d of Manual fd \<Rightarrow> as_slot_direct fd | Auto fd \<Rightarrow> as_slot_auto fd)"

definition owned_direct_reserve :: "('u, 's) ring cell \<Rightarrow> panic + ((io_error + owned_direct) \<times> ('u, 's) ring cell)" where
  "owned_direct_reserve c = mapR (\<lambda>(res, c'). (mapR Manual res, c')) (direct_fd_get c)"

definition owned_direct_auto :: "direct_auto_fd \<Rightarrow> owned_direct" where
  "owned_direct_auto d = Auto d"

definition owned_direct_drop ::
    "('u, 's) env \<Rightarrow> ptr \<Rightarrow> owned_direct \<Rightarrow> 'w \<times> ('u, 's) ring cell \<Rightarrow> panic + ('w \<times> ('u, 's) ring cell)" where
  "owned_direct_drop E this d s =
     (case d of
        Manual fd \<Rightarrow> mapR (\<lambda>c. (fst s, c)) (direct_fd_release fd (snd s))
      | Auto fd \<Rightarrow> mapR snd (run_detached E close_ops this (close_new as_source_auto fd) s))"

subsection \<open>Registered buffers\<close>

text \<open>
  \<open>inner\<close> is \<open>Some\<close> for as long as the value can be used: only the conversion to a
  \<open>Cancellation\<close>, which consumes the value, takes it, and then \<open>Drop\<close> runs with \<open>None\<close>.
  \<open>mem\<close> is the address the allocator gives for \<open>vec![0; size]\<close>.
\<close>

record fixed =
  fx_inner :: "u8 boxed_slice option"
  fx_slot :: buffer_slot

definition zeroed_box :: "ptr \<Rightarrow> usize \<Rightarrow> u8 boxed_slice" where
  "zeroed_box mem n = \<lparr>bs_ptr = mem, bs_data = replicate n 0\<rparr>"

definition fixed_register ::
    "('u, 's) env \<Rightarrow> u8 boxed_slice \<Rightarrow> ('u, 's) ring cell \<Rightarrow> panic + ((io_error + fixed) \<times> ('u, 's) ring cell)" where
  "fixed_register E b c =
     mapR (\<lambda>(res, c'). (mapR (\<lambda>slot. \<lparr>fx_inner = Some b, fx_slot = slot\<rparr>) res, c'))
       (reactor_register_buffer E boxed_slice_buffer b c)"

definition fixed_new ::
    "('u, 's) env \<Rightarrow> ptr \<Rightarrow> usize \<Rightarrow> ('u, 's) ring cell \<Rightarrow> panic + ((io_error + fixed) \<times> ('u, 's) ring cell)" where
  "fixed_new E mem n c = fixed_register E (zeroed_box mem n) c"

definition fixed_drop :: "fixed \<Rightarrow> ('u, 's) ring cell \<Rightarrow> panic + (('u, 's) ring cell \<times> event list)" where
  "fixed_drop f c =
     mapR (\<lambda>c'. (c', (case fx_inner f of Some b \<Rightarrow> slice_release b | None \<Rightarrow> []))) (reactor_unregister_buffer (fx_slot f) c)"

definition cancel_from_fixed ::
    "fixed \<Rightarrow> ('u, 's) ring cell \<Rightarrow> panic + (cancellation \<times> ('u, 's) ring cell \<times> event list)" where
  "cancel_from_fixed f c =
     (case fx_inner f of
        None \<Rightarrow> Inl UnwrapNone
      | Some b \<Rightarrow> mapR (\<lambda>(c', ev). (cancel_from_boxed_slice b, c', ev)) (fixed_drop (f\<lparr>fx_inner := None\<rparr>) c))"

definition fixed_bytes :: "fixed \<Rightarrow> u8 boxed_slice" where
  "fixed_bytes f = (case fx_inner f of Some b \<Rightarrow> b | None \<Rightarrow> no_memory)"

definition fixed_buffer :: "fixed stable_buffer" where
  "fixed_buffer =
     \<lparr>sb_ptr = (\<lambda>f. sb_ptr boxed_slice_buffer (fixed_bytes f)), sb_size = (\<lambda>f. sb_size boxed_slice_buffer (fixed_bytes f)),
      sb_cancel = (\<lambda>f. cancel_from_option_boxed_slice (fx_inner f)),
      sb_drop = (\<lambda>f. case fx_inner f of Some b \<Rightarrow> slice_release b | None \<Rightarrow> []),
      sb_mem = fixed_bytes, sb_store = (\<lambda>d f. f\<lparr>fx_inner := map_option (sb_store boxed_slice_buffer d) (fx_inner f)\<rparr>)\<rparr>"

definition fixed_slot :: "fixed \<Rightarrow> buffer_slot" where
  "fixed_slot f = fx_slot f"

definition fixed_as_ref :: "fixed \<Rightarrow> u8 list" where
  "fixed_as_ref f = (case stable_slice fixed_buffer f of Some s \<Rightarrow> s | None \<Rightarrow> [])"

definition view_of :: "'b \<Rightarrow> 'r \<Rightarrow> ('b, 'r) view" where
  "view_of b r = view_new b r"

interpretation fixed: sound_buffer fixed_buffer "\<lambda>f. \<exists>b. fx_inner f = Some b \<and> mem_ok b"
  by unfold_locales
    (auto simp: fixed_buffer_def fixed_bytes_def boxed_slice_buffer_def mem_ok_def cancel_from_option_boxed_slice_def
      cancel_from_boxed_slice_def cancel_empty_def cancel_consume_def slice_release_def split: option.splits)

interpretation fixed_read: safe_op "read_fixed_op fixed_buffer fixed_slot"
    "\<lambda>_ q. \<exists>b. fx_inner (rdf_buf q) = Some b \<and> mem_ok b"
  by (rule fixed.read_fixed_safe)

end
