(* ===== verification/Group.thy ===== *)
theory Group
  imports OpsRead
begin

section \<open>Buffer groups (group.rs, op/group.rs)\<close>

text \<open>
  A \<open>ReadBufferGroup\<close> owns the buffers given to the kernel, in a slab whose keys are the
  buffer ids, and those of cancelled reads. Each method borrows the \<open>RefCell\<close> and releases it
  before it returns, so the group is threaded as a value; a vacant id is the slab's panic.

  Operations share a group through an \<open>Rc\<close>: the state they share is a store from the address
  of the \<open>Rc\<close> to the group that \<open>AsBufferGroup::as_group\<close> reaches. The \<open>consume\<close> callback of a
  cancelled read is \<open>MARK_CANCELLED\<close>; \<open>run_event\<close> is its effect on the store.
\<close>

record 's read_group =
  rg_id :: buffer_group_id
  rg_buffers :: 's
  rg_cancelled :: "u8 boxed_slice list"

type_synonym 's gslab = "('s, u8 boxed_slice) slab_ops"

definition group_register ::
    "'s gslab \<Rightarrow> ('u, 't) ring cell \<Rightarrow> panic + ((io_error + 's read_group) \<times> ('u, 't) ring cell)" where
  "group_register sl c =
     mapR (\<lambda>(res, c'). (mapR (\<lambda>i. \<lparr>rg_id = i, rg_buffers = sl_with_capacity sl 128, rg_cancelled = []\<rparr>) res, c'))
       (reactor_get_buffer_group c)"

definition group_release :: "'s read_group \<Rightarrow> ('u, 't) ring cell \<Rightarrow> panic + ('u, 't) ring cell" where
  "group_release g c = reactor_release_buffer_group (rg_id g) c"

definition group_take :: "'s gslab \<Rightarrow> u16 \<Rightarrow> 's read_group \<Rightarrow> panic + (u8 boxed_slice \<times> 's read_group)" where
  "group_take sl i g =
     (case sl_remove sl (unat i) (rg_buffers g) of
        None \<Rightarrow> Inl InvalidSlabKey
      | Some (b, s') \<Rightarrow> Inr (b, g\<lparr>rg_buffers := s'\<rparr>))"

definition group_put :: "'s gslab \<Rightarrow> u8 boxed_slice \<Rightarrow> 's read_group \<Rightarrow> u16 \<times> 's read_group" where
  "group_put sl b g = (let (k, s') = sl_insert sl b (rg_buffers g) in (of_nat k, g\<lparr>rg_buffers := s'\<rparr>))"

definition group_clear :: "'s gslab \<Rightarrow> 's read_group \<Rightarrow> 's read_group" where
  "group_clear sl g = g\<lparr>rg_buffers := sl_clear sl (rg_buffers g)\<rparr>"

definition group_present :: "'s gslab \<Rightarrow> 's read_group \<Rightarrow> usize" where
  "group_present sl g = sl_len sl (rg_buffers g)"

definition group_mark_cancelled :: "'s gslab \<Rightarrow> u16 \<Rightarrow> 's read_group \<Rightarrow> panic + 's read_group" where
  "group_mark_cancelled sl i g =
     mapR (\<lambda>(b, g'). g'\<lparr>rg_cancelled := vec_push (rg_cancelled g') b\<rparr>) (group_take sl i g)"

definition group_get_cancelled :: "'s read_group \<Rightarrow> u8 boxed_slice option \<times> 's read_group" where
  "group_get_cancelled g =
     (case vec_pop (rg_cancelled g) of
        None \<Rightarrow> (None, g)
      | Some (b, rest) \<Rightarrow> (Some b, g\<lparr>rg_cancelled := rest\<rparr>))"

subsection \<open>The store of shared groups\<close>

type_synonym 's groups = "ptr \<rightharpoonup> 's read_group"

definition at_group :: "ptr \<Rightarrow> ('s read_group \<Rightarrow> panic + ('a \<times> 's read_group)) \<Rightarrow> 's groups \<Rightarrow> panic + ('a \<times> 's groups)" where
  "at_group rc f w =
     (case w rc of
        None \<Rightarrow> Inl UseAfterMove
      | Some g \<Rightarrow> mapR (\<lambda>(x, g'). (x, w(rc \<mapsto> g'))) (f g))"

definition MARK_CANCELLED :: callback where
  "MARK_CANCELLED = 0"

definition mark_result :: "cqueue_ops \<Rightarrow> 's gslab \<Rightarrow> ring_result \<Rightarrow> 's read_group \<Rightarrow> panic + 's read_group" where
  "mark_result cq sl res g =
     (case buffer_id cq res of None \<Rightarrow> Inr g | Some i \<Rightarrow> group_mark_cancelled sl i g)"

definition run_event :: "cqueue_ops \<Rightarrow> 's gslab \<Rightarrow> event \<Rightarrow> 's groups \<Rightarrow> panic + 's groups" where
  "run_event cq sl ev w =
     (case ev of
        Consumed rc f res \<Rightarrow>
          if f = MARK_CANCELLED then mapR snd (at_group rc (\<lambda>g. mapR (\<lambda>g'. ((), g')) (mark_result cq sl res g)) w)
          else Inr w
      | _ \<Rightarrow> Inr w)"

fun run_events :: "cqueue_ops \<Rightarrow> 's gslab \<Rightarrow> event list \<Rightarrow> 's groups \<Rightarrow> panic + 's groups" where
  "run_events cq sl [] w = Inr w"
| "run_events cq sl (ev # evs) w = bindR (run_event cq sl ev w) (run_events cq sl evs)"

subsection \<open>ProvideBuffer and RemoveBuffers\<close>

record provide_buffer =
  pb_group :: ptr
  pb_buffer :: "u8 boxed_slice option"

definition provide_buffer_new :: "ptr \<Rightarrow> u8 boxed_slice \<Rightarrow> provide_buffer" where
  "provide_buffer_new rc b = \<lparr>pb_group = rc, pb_buffer = Some b\<rparr>"

definition provide_buffer_entry ::
    "'s gslab \<Rightarrow> ptr \<Rightarrow> provide_buffer \<Rightarrow> 's groups \<Rightarrow> panic + (sqe \<times> provide_buffer \<times> 's groups)" where
  "provide_buffer_entry sl _ q w =
     (case pb_buffer q of
        None \<Rightarrow> Inl UseAfterMove
      | Some b \<Rightarrow>
          bindR (at_group (pb_group q) (\<lambda>g. let (i, g') = group_put sl b g in Inr ((i, rg_id g'), g')) w)
            (\<lambda>((i, gid), w').
          Inr (sqe_build (OpProvideBuffers (At (sb_ptr boxed_slice_buffer b)) (of_nat (sb_size boxed_slice_buffer b)) 1
                 (buffer_group_id_index gid) i), q\<lparr>pb_buffer := None\<rparr>, w')))"

definition provide_buffer_result :: "provide_buffer \<Rightarrow> ring_result \<Rightarrow> panic + (io_error + unit)" where
  "provide_buffer_result _ res = expect_zero res"

definition provide_buffer_op :: "'s gslab \<Rightarrow> (provide_buffer, io_error + unit, 's groups) op_ops" where
  "provide_buffer_op sl =
     (pure_op (\<lambda>_ q. (sqe_build OpNop, q)) provide_buffer_result
       (default_cancel (\<lambda>q. [Freed (AllocRc (pb_group q))])) no_entry_cancel (\<lambda>q. [Freed (AllocRc (pb_group q))]))
     \<lparr>op_entry := provide_buffer_entry sl\<rparr>"

record 's remove_buffers =
  rb_group :: "'s read_group"

definition remove_buffers_new :: "'s read_group \<Rightarrow> 's remove_buffers" where
  "remove_buffers_new g = \<lparr>rb_group = g\<rparr>"

definition remove_buffers_entry :: "'s gslab \<Rightarrow> ptr \<Rightarrow> 's remove_buffers \<Rightarrow> sqe \<times> 's remove_buffers" where
  "remove_buffers_entry sl _ q =
     (sqe_build (OpRemoveBuffers (of_nat (group_present sl (rb_group q))) (buffer_group_id_index (rg_id (rb_group q)))), q)"

definition remove_buffers_result :: "'s gslab \<Rightarrow> 's remove_buffers \<Rightarrow> ring_result \<Rightarrow> panic + 's read_group" where
  "remove_buffers_result sl q res =
     (let present = group_present sl (rb_group q)
      in if 0 < present then
           bindR (expect_positive res) (\<lambda>r. case r of
             Inl _ \<Rightarrow> Inl UnwrapErr
           | Inr removed \<Rightarrow>
               if removed = present then Inr (group_clear sl (rb_group q)) else Inl AssertFailed)
         else Inr (rb_group q))"

definition remove_buffers_op ::
    "'s gslab \<Rightarrow> ('s read_group \<Rightarrow> event list) \<Rightarrow> ('s remove_buffers, 's read_group, 'w) op_ops" where
  "remove_buffers_op sl release =
     pure_op (remove_buffers_entry sl) (remove_buffers_result sl) (default_cancel (\<lambda>q. release (rb_group q)))
       default_entry_cancel (\<lambda>q. release (rb_group q))"

subsection \<open>ReadGroup and ReadGroupMulti\<close>

record read_group_op =
  rgo_source :: source
  rgo_group :: ptr

definition read_group_new :: "('s \<Rightarrow> source) \<Rightarrow> 's \<Rightarrow> ptr \<Rightarrow> read_group_op" where
  "read_group_new as_src src rc = \<lparr>rgo_source = as_src src, rgo_group = rc\<rparr>"

definition read_group_entry ::
    "ptr \<Rightarrow> read_group_op \<Rightarrow> 's groups \<Rightarrow> panic + (sqe \<times> read_group_op \<times> 's groups)" where
  "read_group_entry _ q w =
     mapR (\<lambda>(gid, w').
       (sqe_with_flags BUFFER_SELECT
          (sqe_build (OpRead (source_as_raw (rgo_source q)) (At null_ptr) 0 u64_MAX (Some (buffer_group_id_index gid)))),
        q, w'))
     (at_group (rgo_group q) (\<lambda>g. Inr (rg_id g, g)) w)"

definition taken_buffer ::
    "cqueue_ops \<Rightarrow> 's gslab \<Rightarrow> ring_result \<Rightarrow> 's read_group \<Rightarrow> panic + (u8 boxed_slice option \<times> 's read_group)" where
  "taken_buffer cq sl res g =
     (case buffer_id cq res of
        None \<Rightarrow> Inr (None, g)
      | Some i \<Rightarrow> mapR (\<lambda>(b, g'). (Some b, g')) (group_take sl i g))"

definition read_group_result ::
    "cqueue_ops \<Rightarrow> 's gslab \<Rightarrow> read_group_op \<Rightarrow> ring_result \<Rightarrow> 's groups \<Rightarrow>
      panic + ((u8 boxed_slice option \<times> (io_error + usize)) \<times> 's groups)" where
  "read_group_result cq sl q res w =
     bindR (at_group (rgo_group q) (taken_buffer cq sl res) w) (\<lambda>(buffer, w').
     mapR (\<lambda>n. ((buffer, n), w')) (expect_positive res))"

definition read_group_cancel :: "read_group_op \<Rightarrow> cancellation \<times> event list" where
  "read_group_cancel q = (cancel_consuming (rgo_group q) MARK_CANCELLED, [])"

definition read_group_ops ::
    "cqueue_ops \<Rightarrow> 's gslab \<Rightarrow> (read_group_op, u8 boxed_slice option \<times> (io_error + usize), 's groups) op_ops" where
  "read_group_ops cq sl =
     \<lparr>op_entry = read_group_entry, op_result = read_group_result cq sl, op_cancel = read_group_cancel,
      op_entry_cancel = default_entry_cancel, op_drop = (\<lambda>q. [Freed (AllocRc (rgo_group q))]),
      op_scratch = (\<lambda>_. [])\<rparr>"

record read_group_multi =
  rgm_source :: source
  rgm_group :: ptr

definition read_group_multi_new :: "('s \<Rightarrow> source) \<Rightarrow> 's \<Rightarrow> ptr \<Rightarrow> read_group_multi" where
  "read_group_multi_new as_src src rc = \<lparr>rgm_source = as_src src, rgm_group = rc\<rparr>"

definition read_group_multi_entry ::
    "ptr \<Rightarrow> read_group_multi \<Rightarrow> 's groups \<Rightarrow> panic + (sqe \<times> read_group_multi \<times> 's groups)" where
  "read_group_multi_entry _ q w =
     mapR (\<lambda>(gid, w'). (sqe_build (OpReadMulti (source_as_raw (rgm_source q)) (buffer_group_id_index gid)), q, w'))
       (at_group (rgm_group q) (\<lambda>g. Inr (rg_id g, g)) w)"

definition read_group_multi_next ::
    "cqueue_ops \<Rightarrow> 's gslab \<Rightarrow> read_group_multi \<Rightarrow> ring_result \<Rightarrow> 's groups \<Rightarrow>
      panic + ((u8 boxed_slice option \<times> (io_error + usize)) \<times> 's groups)" where
  "read_group_multi_next cq sl q res w =
     bindR (at_group (rgm_group q) (taken_buffer cq sl res) w) (\<lambda>(buffer, w').
     mapR (\<lambda>n. ((buffer, n), w')) (expect_positive res))"

definition read_group_multi_cancel :: "read_group_multi \<Rightarrow> cancellation \<times> event list" where
  "read_group_multi_cancel q = (cancel_consuming (rgm_group q) MARK_CANCELLED, [])"

definition read_group_multi_ops ::
    "cqueue_ops \<Rightarrow> 's gslab \<Rightarrow> (read_group_multi, u8 boxed_slice option \<times> (io_error + usize), 's groups) multi_ops" where
  "read_group_multi_ops cq sl =
     \<lparr>op_entry = read_group_multi_entry, op_result = read_group_multi_next cq sl, op_cancel = read_group_multi_cancel,
      op_entry_cancel = default_entry_cancel, op_drop = (\<lambda>q. [Freed (AllocRc (rgm_group q))]),
      op_scratch = (\<lambda>_. []), op_next = read_group_multi_next cq sl\<rparr>"

interpretation read_group: safe_op "read_group_ops cq sl" "\<lambda>_ _. True"
  by unfold_locales
    (auto simp: read_group_ops_def read_group_entry_def mapR_Inr_iff keeps_alive_def sqe_locs_def opcode_locs_def
      frees_once_def read_group_cancel_def dest: default_entry_cancel_plain)

interpretation read_group_multi: safe_op "read_group_multi_ops cq sl" "\<lambda>_ _. True"
  by unfold_locales
    (auto simp: read_group_multi_ops_def read_group_multi_entry_def mapR_Inr_iff keeps_alive_def sqe_locs_def
      opcode_locs_def frees_once_def read_group_multi_cancel_def dest: default_entry_cancel_plain)

subsection \<open>Where the buffers are\<close>

text \<open>The contents of a group: the buffers by id, and those of cancelled reads.\<close>

definition group_map :: "'s gslab \<Rightarrow> 's read_group \<Rightarrow> usize \<rightharpoonup> u8 boxed_slice" where
  "group_map sl g = sl_get sl (rg_buffers g)"

locale group_slab = slab sl valid
  for sl :: "('s, u8 boxed_slice) slab_ops" and valid :: "'s \<Rightarrow> bool"
begin

lemma put_fresh:
  assumes "valid (rg_buffers g)" "sl_insert sl b (rg_buffers g) = (k, s')" "k < 2 ^ 16"
    "sl_len sl (rg_buffers g) < 2 ^ 32"
  shows "fst (group_put sl b g) = of_nat k \<and> unat (fst (group_put sl b g)) = k \<and> group_map sl g k = None \<and>
    group_map sl (snd (group_put sl b g)) = (group_map sl g)(k \<mapsto> b) \<and>
    valid (rg_buffers (snd (group_put sl b g)))"
  using insert_fresh [OF assms(1,2)] get_insert [OF assms(1,2)] insert_small [OF assms(1,2,4)] assms(2,3)
  by (simp add: group_put_def group_map_def unat_of_nat take_bit_nat_eq_self)

lemma take_present:
  assumes "valid (rg_buffers g)" "group_map sl g (unat i) = Some b"
  shows "\<exists>g'. group_take sl i g = Inr (b, g') \<and> group_map sl g' = (group_map sl g)(unat i := None) \<and>
    rg_cancelled g' = rg_cancelled g \<and> rg_id g' = rg_id g \<and> valid (rg_buffers g')"
  using remove_occupied [OF assms(1) assms(2) [unfolded group_map_def]]
  by (auto simp: group_take_def group_map_def)

lemma take_absent:
  assumes "valid (rg_buffers g)" "group_map sl g (unat i) = None"
  shows "group_take sl i g = Inl InvalidSlabKey"
  using remove_vacant [OF assms(1) assms(2) [unfolded group_map_def]] by (simp add: group_take_def)

lemma cancelled_kept:
  assumes "valid (rg_buffers g)" "group_map sl g (unat i) = Some b"
  shows "\<exists>g'. group_mark_cancelled sl i g = Inr g' \<and> group_map sl g' = (group_map sl g)(unat i := None) \<and>
    group_get_cancelled g' = (Some b, g'\<lparr>rg_cancelled := rg_cancelled g\<rparr>)"
  using take_present [OF assms] by (auto simp: group_mark_cancelled_def group_get_cancelled_def group_map_def)

end

interpretation vec_group: group_slab vec_slab vec_valid
  by unfold_locales

end
