(* ===== verification/Share.thy ===== *)
theory Share
  imports Owned Group
begin

section \<open>Shared sets of buffers (inel/src/group.rs)\<close>

text \<open>
  A \<open>ReadBufferSet\<close> is an \<open>Rc\<close> of a registered buffer group: its address in the store of
  groups. A \<open>WriteBufferSet\<close> is an \<open>Rc\<close> of a plain vector of buffers, in a store of its own.
  The addresses of new allocations are arguments (\<open>mem\<close>). An async function is its state
  machine: a datatype of the points it waits at, and the poll that resumes it; resuming it
  after its end panics. The \<open>this\<close> arguments are the addresses operations are pinned at.
\<close>

definition PROVIDE_BATCH_SIZE :: nat where "PROVIDE_BATCH_SIZE = 16"

definition DEFAULT_BUFFER_SIZE :: usize where "DEFAULT_BUFFER_SIZE = 4096"

subsection \<open>Read sets\<close>

record read_buffer_set =
  rbs_inner :: ptr

definition read_set_inner_new ::
    "'s gslab \<Rightarrow> ptr \<Rightarrow> 's groups \<times> ('u, 't) ring cell \<Rightarrow> panic + ((io_error + ptr) \<times> 's groups \<times> ('u, 't) ring cell)" where
  "read_set_inner_new sl mem st =
     mapR (\<lambda>(res, c). case res of Inl e \<Rightarrow> (Inl e, fst st, c) | Inr g \<Rightarrow> (Inr mem, (fst st)(mem \<mapsto> g), c))
       (group_register sl (snd st))"

definition read_set_empty ::
    "'s gslab \<Rightarrow> ptr \<Rightarrow> 's groups \<times> ('u, 't) ring cell \<Rightarrow>
      panic + ((io_error + read_buffer_set) \<times> 's groups \<times> ('u, 't) ring cell)" where
  "read_set_empty sl mem st =
     mapR (\<lambda>(res, st'). (mapR (\<lambda>rc. \<lparr>rbs_inner = rc\<rparr>) res, st')) (read_set_inner_new sl mem st)"

text \<open>The operations \<open>with_buffers\<close> then drives, at most \<open>PROVIDE_BATCH_SIZE\<close> at once.\<close>

definition read_set_provides :: "(nat \<Rightarrow> ptr) \<Rightarrow> (nat \<Rightarrow> ptr) \<Rightarrow> u16 \<Rightarrow> usize \<Rightarrow> read_buffer_set \<Rightarrow> provide_buffer submission list" where
  "read_set_provides this mem k capacity rs =
     map (\<lambda>i. submission_new (this i) (provide_buffer_new (rbs_inner rs) (zeroed_box (mem i) capacity))) [0..<unat k]"

definition read_set_insert ::
    "('u, 't) env \<Rightarrow> 's gslab \<Rightarrow> ptr \<Rightarrow> read_buffer_set \<Rightarrow> u8 boxed_slice \<Rightarrow> 's groups \<times> ('u, 't) ring cell \<Rightarrow>
      panic + ('s groups \<times> ('u, 't) ring cell)" where
  "read_set_insert E sl this rs b st =
     mapR snd (run_detached E (provide_buffer_op sl) this (provide_buffer_new (rbs_inner rs) b) st)"

definition cancelled_at :: "'s groups \<Rightarrow> ptr \<Rightarrow> nat" where
  "cancelled_at w rc = (case w rc of Some g \<Rightarrow> length (rg_cancelled g) | None \<Rightarrow> 0)"

definition pop_cancelled :: "ptr \<Rightarrow> 's groups \<Rightarrow> panic + (u8 boxed_slice option \<times> 's groups)" where
  "pop_cancelled rc w = at_group rc (\<lambda>g. Inr (group_get_cancelled g)) w"

lemma pop_cancelled_less:
  "pop_cancelled rc w = Inr (Some b, w') \<Longrightarrow> cancelled_at w' rc < cancelled_at w rc"
  by (auto simp: pop_cancelled_def at_group_def cancelled_at_def group_get_cancelled_def vec_pop_Some
      split: option.splits)

lemma read_set_insert_keeps:
  assumes "read_set_insert E sl this rs b st = Inr st'"
  shows "cancelled_at (fst st') rc = cancelled_at (fst st) rc"
  using assms
  by (auto simp: read_set_insert_def run_detached_def provide_buffer_op_def provide_buffer_new_def
      provide_buffer_entry_def at_group_def cancelled_at_def group_put_def Let_def mapR_Inr_iff bindR_Inr_iff
      split: option.splits prod.splits)

lemma recycle_less:
  "pop_cancelled (rbs_inner rs) w = Inr (Some b, w') \<Longrightarrow> read_set_insert E sl this rs b (w', c) = Inr st' \<Longrightarrow>
    cancelled_at (fst st') (rbs_inner rs) < cancelled_at w (rbs_inner rs)"
  using pop_cancelled_less [of "rbs_inner rs" w b w'] read_set_insert_keeps [of E sl this rs b "(w', c)" st' "rbs_inner rs"]
  by simp

function read_set_recycle ::
    "('u, 't) env \<Rightarrow> 's gslab \<Rightarrow> ptr \<Rightarrow> read_buffer_set \<Rightarrow> 's groups \<times> ('u, 't) ring cell \<Rightarrow>
      panic + ('s groups \<times> ('u, 't) ring cell)" where
  "read_set_recycle E sl this rs st =
     (case pop_cancelled (rbs_inner rs) (fst st) of
        Inl p \<Rightarrow> Inl p
      | Inr (None, w) \<Rightarrow> Inr (w, snd st)
      | Inr (Some b, w) \<Rightarrow>
          (case read_set_insert E sl this rs b (w, snd st) of
             Inl p \<Rightarrow> Inl p
           | Inr st' \<Rightarrow> read_set_recycle E sl this rs st'))"
  by pat_completeness auto
termination
  by (relation "measure (\<lambda>(E, sl, this, rs, st). cancelled_at (fst st) (rbs_inner rs))")
    (auto dest: recycle_less)

declare read_set_recycle.simps [simp del]

text \<open>\<open>ReadBufferSet::read\<close>.\<close>

datatype set_read =
    SrStart source
  | SrReading "read_group_op submission"
  | SrDone

definition set_read_new :: "('s \<Rightarrow> source) \<Rightarrow> 's \<Rightarrow> set_read" where
  "set_read_new read_source src = SrStart (read_source src)"

definition set_read_finish ::
    "('u, 't) env \<Rightarrow> 's gslab \<Rightarrow> ptr \<Rightarrow> read_buffer_set \<Rightarrow> u8 boxed_slice option \<times> (io_error + usize) \<Rightarrow>
      's groups \<times> ('u, 't) ring cell \<Rightarrow>
      panic + ((io_error + (u8 boxed_slice \<times> usize)) \<times> 's groups \<times> ('u, 't) ring cell)" where
  "set_read_finish E sl this rs r st =
     (case r of
        (buf, Inr n) \<Rightarrow> (case buf of None \<Rightarrow> Inl UnwrapNone | Some b \<Rightarrow> Inr (Inr (b, n), st))
      | (buf, Inl e) \<Rightarrow>
          (case buf of
             None \<Rightarrow> Inr (Inl e, st)
           | Some b \<Rightarrow> mapR (\<lambda>st'. (Inl e, st')) (read_set_insert E sl this rs b st)))"

definition set_read_await ::
    "('u, 't) env \<Rightarrow> 's gslab \<Rightarrow> ptr \<Rightarrow> read_buffer_set \<Rightarrow> waker \<Rightarrow> read_group_op submission \<Rightarrow>
      's groups \<times> ('u, 't) ring cell \<Rightarrow>
      panic + ((io_error + (u8 boxed_slice \<times> usize)) poll \<times> set_read \<times> 's groups \<times> ('u, 't) ring cell)" where
  "set_read_await E sl this rs wk sub st =
     bindR (submission_poll E (read_group_ops (env_cq E) sl) wk sub st) (\<lambda>(res, sub', st').
     case res of
       Pending \<Rightarrow> Inr (Pending, SrReading sub', st')
     | PollReady r \<Rightarrow> mapR (\<lambda>(x, st''). (PollReady x, SrDone, st'')) (set_read_finish E sl this rs r st'))"

definition set_read_poll ::
    "('u, 't) env \<Rightarrow> 's gslab \<Rightarrow> ptr \<Rightarrow> read_buffer_set \<Rightarrow> waker \<Rightarrow> set_read \<Rightarrow> 's groups \<times> ('u, 't) ring cell \<Rightarrow>
      panic + ((io_error + (u8 boxed_slice \<times> usize)) poll \<times> set_read \<times> 's groups \<times> ('u, 't) ring cell)" where
  "set_read_poll E sl this rs wk f st =
     (case f of
        SrStart src \<Rightarrow>
          bindR (read_set_recycle E sl this rs st) (\<lambda>st'.
          set_read_await E sl this rs wk (submission_new this (read_group_new as_source_source src (rbs_inner rs))) st')
      | SrReading sub \<Rightarrow> set_read_await E sl this rs wk sub st
      | SrDone \<Rightarrow> Inl PolledCompleted)"

text \<open>
  \<open>Drop for ReadBufferSetInner\<close> spawns a task that removes the buffers from the kernel and
  then releases the group's id.
\<close>

datatype 's set_drop =
    SdStart "'s read_group"
  | SdRemoving "'s remove_buffers submission"
  | SdDone

definition read_set_inner_drop :: "ptr \<Rightarrow> 's groups \<Rightarrow> panic + ('s set_drop \<times> 's groups)" where
  "read_set_inner_drop rc w =
     (case w rc of None \<Rightarrow> Inl UseAfterMove | Some g \<Rightarrow> Inr (SdStart g, w(rc := None)))"

definition set_drop_await ::
    "('u, 't) env \<Rightarrow> 's gslab \<Rightarrow> ('s read_group \<Rightarrow> event list) \<Rightarrow> waker \<Rightarrow> 's remove_buffers submission \<Rightarrow>
      'w \<times> ('u, 't) ring cell \<Rightarrow> panic + (unit poll \<times> 's set_drop \<times> 'w \<times> ('u, 't) ring cell)" where
  "set_drop_await E sl release wk sub st =
     bindR (submission_poll E (remove_buffers_op sl release) wk sub st) (\<lambda>(res, sub', w, c).
     case res of
       Pending \<Rightarrow> Inr (Pending, SdRemoving sub', w, c)
     | PollReady g \<Rightarrow> mapR (\<lambda>c'. (PollReady (), SdDone, w, c')) (group_release g c))"

definition set_drop_poll ::
    "('u, 't) env \<Rightarrow> 's gslab \<Rightarrow> ('s read_group \<Rightarrow> event list) \<Rightarrow> ptr \<Rightarrow> waker \<Rightarrow> 's set_drop \<Rightarrow>
      'w \<times> ('u, 't) ring cell \<Rightarrow> panic + (unit poll \<times> 's set_drop \<times> 'w \<times> ('u, 't) ring cell)" where
  "set_drop_poll E sl release this wk f st =
     (case f of
        SdStart g \<Rightarrow> set_drop_await E sl release wk (submission_new this (remove_buffers_new g)) st
      | SdRemoving sub \<Rightarrow> set_drop_await E sl release wk sub st
      | SdDone \<Rightarrow> Inl PolledCompleted)"

subsection \<open>Write sets\<close>

record write_set =
  ws_buffers :: "u8 boxed_slice list"
  ws_capacity :: usize

definition write_inner_with_buffers :: "(nat \<Rightarrow> ptr) \<Rightarrow> u16 \<Rightarrow> usize \<Rightarrow> write_set" where
  "write_inner_with_buffers mem k capacity =
     \<lparr>ws_buffers = map (\<lambda>i. zeroed_box (mem i) capacity) [0..<unat k], ws_capacity = capacity\<rparr>"

definition write_inner_insert :: "u8 boxed_slice \<Rightarrow> write_set \<Rightarrow> write_set" where
  "write_inner_insert b ws = ws\<lparr>ws_buffers := vec_push (ws_buffers ws) b\<rparr>"

definition write_inner_get :: "ptr \<Rightarrow> write_set \<Rightarrow> u8 boxed_slice \<times> write_set" where
  "write_inner_get mem ws =
     (case vec_pop (ws_buffers ws) of
        Some (b, rest) \<Rightarrow> (b, ws\<lparr>ws_buffers := rest\<rparr>)
      | None \<Rightarrow> (zeroed_box mem (ws_capacity ws), ws))"

type_synonym write_sets = "ptr \<rightharpoonup> write_set"

record write_buffer_set =
  wbs_inner :: ptr

definition at_writes :: "ptr \<Rightarrow> (write_set \<Rightarrow> 'a \<times> write_set) \<Rightarrow> write_sets \<Rightarrow> panic + ('a \<times> write_sets)" where
  "at_writes rc f w =
     (case w rc of None \<Rightarrow> Inl UseAfterMove | Some ws \<Rightarrow> (let (x, ws') = f ws in Inr (x, w(rc \<mapsto> ws'))))"

definition write_set_with_buffers :: "ptr \<Rightarrow> (nat \<Rightarrow> ptr) \<Rightarrow> u16 \<Rightarrow> usize \<Rightarrow> write_sets \<Rightarrow> write_buffer_set \<times> write_sets" where
  "write_set_with_buffers rc mem k capacity w =
     (\<lparr>wbs_inner = rc\<rparr>, w(rc \<mapsto> write_inner_with_buffers mem k capacity))"

definition write_set_empty :: "ptr \<Rightarrow> (nat \<Rightarrow> ptr) \<Rightarrow> write_sets \<Rightarrow> write_buffer_set \<times> write_sets" where
  "write_set_empty rc mem w = write_set_with_buffers rc mem 0 DEFAULT_BUFFER_SIZE w"

definition write_set_insert :: "write_buffer_set \<Rightarrow> u8 boxed_slice \<Rightarrow> write_sets \<Rightarrow> panic + write_sets" where
  "write_set_insert ws b w = mapR snd (at_writes (wbs_inner ws) (\<lambda>x. ((), write_inner_insert b x)) w)"

definition write_set_get :: "ptr \<Rightarrow> write_buffer_set \<Rightarrow> write_sets \<Rightarrow> panic + (u8 boxed_slice \<times> write_sets)" where
  "write_set_get mem ws w = at_writes (wbs_inner ws) (write_inner_get mem) w"

text \<open>\<open>WriteBufferSet::write\<close>; \<open>rb\<close> is the view's \<open>RangeBounds\<close>.\<close>

datatype 'r set_write =
    SwStart source "(u8 boxed_slice, 'r) view"
  | SwWriting "(u8 boxed_slice, 'r) view write_op submission"
  | SwDone

definition set_write_new :: "('s \<Rightarrow> source) \<Rightarrow> 's \<Rightarrow> (u8 boxed_slice, 'r) view \<Rightarrow> 'r set_write" where
  "set_write_new write_source sink v = SwStart (write_source sink) v"

definition set_write_await ::
    "('u, 't) env \<Rightarrow> 'r range_bounds \<Rightarrow> write_buffer_set \<Rightarrow> waker \<Rightarrow> (u8 boxed_slice, 'r) view write_op submission \<Rightarrow>
      write_sets \<times> ('u, 't) ring cell \<Rightarrow>
      panic + ((io_error + usize) poll \<times> 'r set_write \<times> write_sets \<times> ('u, 't) ring cell)" where
  "set_write_await E rb ws wk sub st =
     bindR (write_owned_poll E (view_buffer boxed_slice_buffer rb) wk sub st) (\<lambda>(res, sub', w, c).
     case res of
       Pending \<Rightarrow> Inr (Pending, SwWriting sub', w, c)
     | PollReady (buf, r) \<Rightarrow> mapR (\<lambda>w'. (PollReady r, SwDone, w', c)) (write_set_insert ws (view_unview buf) w))"

definition set_write_poll ::
    "('u, 't) env \<Rightarrow> 'r range_bounds \<Rightarrow> ptr \<Rightarrow> write_buffer_set \<Rightarrow> waker \<Rightarrow> 'r set_write \<Rightarrow>
      write_sets \<times> ('u, 't) ring cell \<Rightarrow>
      panic + ((io_error + usize) poll \<times> 'r set_write \<times> write_sets \<times> ('u, 't) ring cell)" where
  "set_write_poll E rb this ws wk f st =
     (case f of
        SwStart src v \<Rightarrow> set_write_await E rb ws wk (write_owned id this src v) st
      | SwWriting sub \<Rightarrow> set_write_await E rb ws wk sub st
      | SwDone \<Rightarrow> Inl PolledCompleted)"

end
