(* ===== verification/Adapters.thy ===== *)
theory Adapters
  imports Share BufWrite
begin

section \<open>The buffered streams of the crate (io/buffered, group.rs)\<close>

text \<open>
  The three adapters of the generic reader and of the generic writer: plain boxes read with
  \<open>read_owned\<close> (stable.rs), registered buffers (fixed.rs), and buffers of a shared set
  (group.rs); with the constructors of the types users see, and \<open>BufferShareGroup\<close>, which
  supplies both sides from two sets. \<open>this\<close> is the address the future is pinned at,
  \<open>mem\<close> the address of a new box.
\<close>

definition DEFAULT_BUF_SIZE :: usize where "DEFAULT_BUF_SIZE = 4096 * 2"

subsection \<open>BufReader and FixedBufReader\<close>

definition owned_reader ::
    "('u, 't) env \<Rightarrow> ('s \<Rightarrow> source) \<Rightarrow> ptr \<Rightarrow>
      ('s, u8 boxed_slice, u8 boxed_slice read_op submission, unit, 'w \<times> ('u, 't) ring cell) reader_adapter" where
  "owned_reader E read_source this =
     \<lparr>ra_create = (\<lambda>_ s b st. Inr (read_owned read_source this s b, s, st)),
      ra_poll = read_owned_poll E boxed_slice_buffer,
      ra_post_consume = post_consume_default\<rparr>"

type_synonym 's box_reader = "('s, u8 boxed_slice, u8 boxed_slice read_op submission, unit) buf_reader"

definition bufreader_with_capacity :: "ptr \<Rightarrow> usize \<Rightarrow> 's \<Rightarrow> 's box_reader" where
  "bufreader_with_capacity mem capacity s = reader_empty (zeroed_box mem capacity) s ()"

definition bufreader_new :: "ptr \<Rightarrow> 's \<Rightarrow> 's box_reader" where
  "bufreader_new mem s = bufreader_with_capacity mem DEFAULT_BUF_SIZE s"

definition fixed_reader ::
    "('u, 't) env \<Rightarrow> ('s \<Rightarrow> source) \<Rightarrow> ptr \<Rightarrow>
      ('s, fixed, fixed read_fixed submission, unit, 'w \<times> ('u, 't) ring cell) reader_adapter" where
  "fixed_reader E read_source this =
     \<lparr>ra_create = (\<lambda>_ s b st. Inr (read_fixed_owned read_source this s b, s, st)),
      ra_poll = read_fixed_owned_poll E fixed_buffer fixed_slot,
      ra_post_consume = post_consume_default\<rparr>"

type_synonym 's fixed_buf_reader = "('s, fixed, fixed read_fixed submission, unit) buf_reader"

definition fixed_reader_from_raw ::
    "('u, 't) env \<Rightarrow> 's \<Rightarrow> u8 boxed_slice \<Rightarrow> usize \<Rightarrow> usize \<Rightarrow> ('u, 't) ring cell \<Rightarrow>
      panic + ((io_error + 's fixed_buf_reader) \<times> ('u, 't) ring cell)" where
  "fixed_reader_from_raw E s b pos filled c =
     mapR (\<lambda>(res, c'). (mapR (\<lambda>fb. reader_new fb s pos filled ()) res, c')) (fixed_register E b c)"

definition bufreader_fix ::
    "('u, 't) env \<Rightarrow> 's box_reader \<Rightarrow> ('u, 't) ring cell \<Rightarrow>
      panic + ((io_error + 's fixed_buf_reader) \<times> ('u, 't) ring cell)" where
  "bufreader_fix E r c =
     (let (s, buf) = reader_into_raw_parts r
      in case buf of
           None \<Rightarrow> Inr (Inl (OtherError ''BufReader was in use''), c)
         | Some (b, pos, filled) \<Rightarrow> fixed_reader_from_raw E s b pos filled c)"

subsection \<open>GroupBufReader\<close>

definition group_reader_create ::
    "('u, 't) env \<Rightarrow> 'g gslab \<Rightarrow> ('s \<Rightarrow> source) \<Rightarrow> ptr \<Rightarrow> read_buffer_set \<Rightarrow> 's \<Rightarrow> u8 boxed_slice option \<Rightarrow>
      'g groups \<times> ('u, 't) ring cell \<Rightarrow>
      panic + (read_group_op submission \<times> 's \<times> 'g groups \<times> ('u, 't) ring cell)" where
  "group_reader_create E sl read_source this rs s buffer st =
     bindR (case buffer of Some b \<Rightarrow> read_set_insert E sl this rs b st | None \<Rightarrow> Inr st) (\<lambda>st1.
     bindR (read_set_recycle E sl this rs st1) (\<lambda>st2.
     Inr (submission_new this (read_group_new as_source_source (read_source s) (rbs_inner rs)), s, st2)))"

definition group_reader_post_consume ::
    "('u, 't) env \<Rightarrow> 'g gslab \<Rightarrow> ptr \<Rightarrow> read_buffer_set \<Rightarrow> (u8 boxed_slice option, range) view \<Rightarrow>
      'g groups \<times> ('u, 't) ring cell \<Rightarrow>
      panic + ((u8 boxed_slice option, range) view \<times> 'g groups \<times> ('u, 't) ring cell)" where
  "group_reader_post_consume E sl this rs v st =
     (if view_is_empty v then
        (case view_inner v of
           None \<Rightarrow> Inr (v, st)
         | Some b \<Rightarrow> mapR (\<lambda>st'. (v\<lparr>view_inner := None\<rparr>, st')) (read_set_insert E sl this rs b st))
      else Inr (v, st))"

definition group_reader ::
    "('u, 't) env \<Rightarrow> 'g gslab \<Rightarrow> ('s \<Rightarrow> source) \<Rightarrow> ptr \<Rightarrow>
      ('s, u8 boxed_slice option, read_group_op submission, read_buffer_set, 'g groups \<times> ('u, 't) ring cell) reader_adapter" where
  "group_reader E sl read_source this =
     \<lparr>ra_create = group_reader_create E sl read_source this,
      ra_poll = submission_poll E (read_group_ops (env_cq E) sl),
      ra_post_consume = group_reader_post_consume E sl this\<rparr>"

type_synonym 's group_buf_reader = "('s, u8 boxed_slice option, read_group_op submission, read_buffer_set) buf_reader"

definition group_reader_new :: "'s \<Rightarrow> read_buffer_set \<Rightarrow> 's group_buf_reader" where
  "group_reader_new s rs = reader_empty None s rs"

subsection \<open>BufWriter and FixedBufWriter\<close>

definition owned_writer ::
    "('u, 't) env \<Rightarrow> ('s \<Rightarrow> source) \<Rightarrow> ptr \<Rightarrow>
      ('s, u8 boxed_slice, (u8 boxed_slice, range_to) view write_op submission, unit, 'w \<times> ('u, 't) ring cell) writer_adapter" where
  "owned_writer E write_source this =
     \<lparr>wa_create = (\<lambda>_ s v st. Inr (write_owned write_source this s v, s, st)),
      wa_poll = write_owned_poll E (view_buffer boxed_slice_buffer range_to_rb),
      wa_pre_write = hook_default, wa_post_flush = hook_default\<rparr>"

type_synonym 's box_writer = "('s, u8 boxed_slice, (u8 boxed_slice, range_to) view write_op submission, unit) buf_writer"

definition bufwriter_with_capacity :: "ptr \<Rightarrow> usize \<Rightarrow> 's \<Rightarrow> 's box_writer" where
  "bufwriter_with_capacity mem capacity s = writer_empty (zeroed_box mem capacity) s ()"

definition bufwriter_new :: "ptr \<Rightarrow> 's \<Rightarrow> 's box_writer" where
  "bufwriter_new mem s = bufwriter_with_capacity mem DEFAULT_BUF_SIZE s"

definition fixed_writer ::
    "('u, 't) env \<Rightarrow> ('s \<Rightarrow> source) \<Rightarrow> ptr \<Rightarrow>
      ('s, fixed, (fixed, range_to) view write_fixed submission, unit, 'w \<times> ('u, 't) ring cell) writer_adapter" where
  "fixed_writer E write_source this =
     \<lparr>wa_create = (\<lambda>_ s v st. Inr (write_fixed_owned write_source this s v, s, st)),
      wa_poll = write_fixed_owned_poll E (view_buffer fixed_buffer range_to_rb) (view_slot fixed_slot),
      wa_pre_write = hook_default, wa_post_flush = hook_default\<rparr>"

type_synonym 's fixed_buf_writer = "('s, fixed, (fixed, range_to) view write_fixed submission, unit) buf_writer"

definition fixed_writer_from_raw :: "'s \<Rightarrow> fixed \<Rightarrow> usize \<Rightarrow> 's fixed_buf_writer" where
  "fixed_writer_from_raw s b pos = writer_new b s pos ()"

definition bufwriter_fix ::
    "('u, 't) env \<Rightarrow> 's box_writer \<Rightarrow> ('u, 't) ring cell \<Rightarrow>
      panic + ((io_error + 's fixed_buf_writer) \<times> ('u, 't) ring cell)" where
  "bufwriter_fix E r c =
     (let (s, buf) = writer_into_raw_parts r
      in case buf of
           None \<Rightarrow> Inr (Inl (OtherError ''BufWriter was in use''), c)
         | Some (b, len) \<Rightarrow>
             mapR (\<lambda>(res, c'). (mapR (\<lambda>fb. fixed_writer_from_raw s fb len) res, c')) (fixed_register E b c))"

subsection \<open>GroupBufWriter\<close>

definition group_writer_pre_write ::
    "ptr \<Rightarrow> write_buffer_set \<Rightarrow> u8 boxed_slice option \<Rightarrow> write_sets \<times> 'c \<Rightarrow>
      panic + (u8 boxed_slice option \<times> write_sets \<times> 'c)" where
  "group_writer_pre_write mem ws buffer st =
     (case buffer of
        None \<Rightarrow> mapR (\<lambda>(b, w). (Some b, w, snd st)) (write_set_get mem ws (fst st))
      | Some b \<Rightarrow> Inr (Some b, st))"

definition group_writer_post_flush ::
    "write_buffer_set \<Rightarrow> u8 boxed_slice option \<Rightarrow> write_sets \<times> 'c \<Rightarrow>
      panic + (u8 boxed_slice option \<times> write_sets \<times> 'c)" where
  "group_writer_post_flush ws buffer st =
     (case buffer of
        None \<Rightarrow> Inr (None, st)
      | Some b \<Rightarrow> mapR (\<lambda>w. (None, w, snd st)) (write_set_insert ws b (fst st)))"

definition group_writer ::
    "('u, 't) env \<Rightarrow> ('s \<Rightarrow> source) \<Rightarrow> ptr \<Rightarrow> ptr \<Rightarrow>
      ('s, u8 boxed_slice option, (u8 boxed_slice option, range_to) view write_op submission, write_buffer_set,
        write_sets \<times> ('u, 't) ring cell) writer_adapter" where
  "group_writer E write_source this mem =
     \<lparr>wa_create = (\<lambda>_ s v st. Inr (write_owned write_source this s v, s, st)),
      wa_poll = write_owned_poll E (view_buffer option_slice_buffer range_to_rb),
      wa_pre_write = group_writer_pre_write mem, wa_post_flush = group_writer_post_flush\<rparr>"

type_synonym 's group_buf_writer =
  "('s, u8 boxed_slice option, (u8 boxed_slice option, range_to) view write_op submission, write_buffer_set) buf_writer"

definition group_writer_new :: "'s \<Rightarrow> write_buffer_set \<Rightarrow> 's group_buf_writer" where
  "group_writer_new s ws = writer_empty None s ws"

subsection \<open>BufferShareGroup\<close>

record share_options =
  so_capacity :: usize
  so_reads :: u16
  so_writes :: u16

definition share_options_default :: share_options where
  "share_options_default = \<lparr>so_capacity = DEFAULT_BUFFER_SIZE, so_reads = 128, so_writes = 16\<rparr>"

definition share_buffer_capacity :: "usize \<Rightarrow> share_options \<Rightarrow> share_options" where
  "share_buffer_capacity capacity o' = o'\<lparr>so_capacity := capacity\<rparr>"

definition share_initial_read_buffers :: "u16 \<Rightarrow> share_options \<Rightarrow> share_options" where
  "share_initial_read_buffers n o' = o'\<lparr>so_reads := n\<rparr>"

definition share_initial_write_buffers :: "u16 \<Rightarrow> share_options \<Rightarrow> share_options" where
  "share_initial_write_buffers n o' = o'\<lparr>so_writes := n\<rparr>"

record share_group =
  sg_read :: read_buffer_set
  sg_write :: write_buffer_set

definition share_insert_read_buffer ::
    "('u, 't) env \<Rightarrow> 'g gslab \<Rightarrow> ptr \<Rightarrow> share_group \<Rightarrow> u8 boxed_slice \<Rightarrow> 'g groups \<times> ('u, 't) ring cell \<Rightarrow>
      panic + ('g groups \<times> ('u, 't) ring cell)" where
  "share_insert_read_buffer E sl this g b st = read_set_insert E sl this (sg_read g) b st"

definition share_insert_write_buffer :: "share_group \<Rightarrow> u8 boxed_slice \<Rightarrow> write_sets \<Rightarrow> panic + write_sets" where
  "share_insert_write_buffer g b w = write_set_insert (sg_write g) b w"

definition share_get_write_buffer :: "ptr \<Rightarrow> share_group \<Rightarrow> write_sets \<Rightarrow> panic + (u8 boxed_slice \<times> write_sets)" where
  "share_get_write_buffer mem g w = write_set_get mem (sg_write g) w"

definition share_read_poll ::
    "('u, 't) env \<Rightarrow> 'g gslab \<Rightarrow> ptr \<Rightarrow> share_group \<Rightarrow> waker \<Rightarrow> set_read \<Rightarrow> 'g groups \<times> ('u, 't) ring cell \<Rightarrow>
      panic + ((io_error + (u8 boxed_slice \<times> usize)) poll \<times> set_read \<times> 'g groups \<times> ('u, 't) ring cell)" where
  "share_read_poll E sl this g wk f st = set_read_poll E sl this (sg_read g) wk f st"

definition share_write_poll ::
    "('u, 't) env \<Rightarrow> 'r range_bounds \<Rightarrow> ptr \<Rightarrow> share_group \<Rightarrow> waker \<Rightarrow> 'r set_write \<Rightarrow>
      write_sets \<times> ('u, 't) ring cell \<Rightarrow>
      panic + ((io_error + usize) poll \<times> 'r set_write \<times> write_sets \<times> ('u, 't) ring cell)" where
  "share_write_poll E rb this g wk f st = set_write_poll E rb this (sg_write g) wk f st"

definition read_set_supply_to :: "read_buffer_set \<Rightarrow> 's \<Rightarrow> 's group_buf_reader" where
  "read_set_supply_to rs s = group_reader_new s rs"

definition write_set_supply_to :: "write_buffer_set \<Rightarrow> 's \<Rightarrow> 's group_buf_writer" where
  "write_set_supply_to ws s = group_writer_new s ws"

definition share_supply_to :: "share_group \<Rightarrow> 's \<Rightarrow> 's group_buf_reader group_buf_writer" where
  "share_supply_to g s = write_set_supply_to (sg_write g) (read_set_supply_to (sg_read g) s)"

definition share_supply_to_split ::
    "ptr \<Rightarrow> share_group \<Rightarrow> 's \<Rightarrow> 's shared \<Rightarrow>
      read_handle group_buf_reader \<times> write_handle group_buf_writer \<times> 's shared" where
  "share_supply_to_split mem g s h =
     (let (rh, wh, h') = split mem s h
      in (read_set_supply_to (sg_read g) rh, write_set_supply_to (sg_write g) wh, h'))"

definition split_buffered :: "ptr \<Rightarrow> ptr \<Rightarrow> ptr \<Rightarrow> 's \<Rightarrow> 's shared \<Rightarrow> read_handle box_reader \<times> write_handle box_writer \<times> 's shared" where
  "split_buffered mem mem_r mem_w s h =
     (let (rh, wh, h') = split mem s h in (bufreader_new mem_r rh, bufwriter_new mem_w wh, h'))"

end
