(* ===== verification/Fs.thy ===== *)
theory Fs
  imports OpsMisc
begin

section \<open>Open options, metadata and permissions (fs/file.rs)\<close>

text \<open>
  The part of fs/file.rs that computes: the flags \<open>OpenOptions\<close> turns into, what \<open>Metadata\<close>
  reads off the kernel's \<open>statx\<close>, and the permission bits. The libc constants are those of
  Linux on x86-64. \<open>SystemTime\<close> is the standard library's pair of seconds since the epoch
  and nanoseconds below a second, \<open>Duration\<close> the record of OpsMisc; their checked
  arithmetic is written out below.
\<close>

unbundle bit_operations_syntax

type_synonym i64 = "64 word"

subsection \<open>Permissions\<close>

record permissions =
  pm_raw :: u32

datatype permission =
    UserRead | UserWrite | UserExecute
  | GroupRead | GroupWrite | GroupExecute
  | OtherRead | OtherWrite | OtherExecute

definition raw_flag :: "permission \<Rightarrow> u32" where
  "raw_flag p =
     (case p of
        UserRead \<Rightarrow> 0x100 | UserWrite \<Rightarrow> 0x80 | UserExecute \<Rightarrow> 0x40
      | GroupRead \<Rightarrow> 0x20 | GroupWrite \<Rightarrow> 0x10 | GroupExecute \<Rightarrow> 8
      | OtherRead \<Rightarrow> 4 | OtherWrite \<Rightarrow> 2 | OtherExecute \<Rightarrow> 1)"

definition PERM_EMPTY :: permissions where "PERM_EMPTY = \<lparr>pm_raw = 0\<rparr>"

definition PERM_READ :: permissions where "PERM_READ = \<lparr>pm_raw = 0x124\<rparr>"

definition PERM_WRITE :: permissions where "PERM_WRITE = \<lparr>pm_raw = 0x92\<rparr>"

definition PERM_EXECUTE :: permissions where "PERM_EXECUTE = \<lparr>pm_raw = 0x49\<rparr>"

definition perms_as_raw :: "permissions \<Rightarrow> u32" where
  "perms_as_raw p = pm_raw p"

definition perms_is_empty :: "permissions \<Rightarrow> bool" where
  "perms_is_empty p \<longleftrightarrow> pm_raw p = 0"

definition perms_get :: "permissions \<Rightarrow> permission \<Rightarrow> bool" where
  "perms_get p which \<longleftrightarrow> pm_raw p AND raw_flag which \<noteq> 0"

definition perms_set :: "permission \<Rightarrow> permissions \<Rightarrow> permissions" where
  "perms_set which p = p\<lparr>pm_raw := pm_raw p OR raw_flag which\<rparr>"

definition perms_unset :: "permission \<Rightarrow> permissions \<Rightarrow> permissions" where
  "perms_unset which p = p\<lparr>pm_raw := pm_raw p AND NOT (raw_flag which)\<rparr>"

definition perms_bitand :: "permissions \<Rightarrow> permissions \<Rightarrow> permissions" where
  "perms_bitand p q = \<lparr>pm_raw = pm_raw p AND pm_raw q\<rparr>"

definition perms_bitor :: "permissions \<Rightarrow> permissions \<Rightarrow> permissions" where
  "perms_bitor p q = \<lparr>pm_raw = pm_raw p OR pm_raw q\<rparr>"

subsection \<open>OpenOptions\<close>

record open_options =
  oo_read :: bool
  oo_write :: bool
  oo_append :: bool
  oo_create :: bool
  oo_truncate :: bool
  oo_direct :: bool
  oo_permissions :: permissions

definition options_new :: open_options where
  "options_new =
     \<lparr>oo_read = False, oo_write = False, oo_append = False, oo_create = False, oo_truncate = False,
      oo_direct = False, oo_permissions = perms_bitor PERM_READ PERM_WRITE\<rparr>"

definition options_readable :: "bool \<Rightarrow> open_options \<Rightarrow> open_options" where
  "options_readable b o' = o'\<lparr>oo_read := b\<rparr>"

definition options_writable :: "bool \<Rightarrow> open_options \<Rightarrow> open_options" where
  "options_writable b o' = o'\<lparr>oo_write := b\<rparr>"

definition options_append :: "bool \<Rightarrow> open_options \<Rightarrow> open_options" where
  "options_append b o' = o'\<lparr>oo_append := b\<rparr>"

definition options_create :: "bool \<Rightarrow> open_options \<Rightarrow> open_options" where
  "options_create b o' = o'\<lparr>oo_create := b\<rparr>"

definition options_truncate :: "bool \<Rightarrow> open_options \<Rightarrow> open_options" where
  "options_truncate b o' = o'\<lparr>oo_truncate := b\<rparr>"

definition options_permissions :: "permissions \<Rightarrow> open_options \<Rightarrow> open_options" where
  "options_permissions p o' = o'\<lparr>oo_permissions := p\<rparr>"

definition options_direct :: "bool \<Rightarrow> open_options \<Rightarrow> open_options" where
  "options_direct b o' = o'\<lparr>oo_direct := b\<rparr>"

definition O_RDONLY :: i32 where "O_RDONLY = 0"
definition O_WRONLY :: i32 where "O_WRONLY = 1"
definition O_RDWR :: i32 where "O_RDWR = 2"
definition O_CREAT :: i32 where "O_CREAT = 0x40"
definition O_TRUNC :: i32 where "O_TRUNC = 0x200"
definition O_APPEND :: i32 where "O_APPEND = 0x400"
definition O_DIRECT :: i32 where "O_DIRECT = 0x4000"

definition access_flags :: "open_options \<Rightarrow> i32" where
  "access_flags o' =
     (case (oo_read o', oo_write o') of
        (True, True) \<Rightarrow> O_RDWR
      | (True, False) \<Rightarrow> O_RDONLY
      | (False, True) \<Rightarrow> O_WRONLY
      | (False, False) \<Rightarrow> 0)"

definition raw_opts :: "open_options \<Rightarrow> i32 \<times> u32" where
  "raw_opts o' =
     (let flags = 0 OR access_flags o';
          flags = (if oo_append o' then flags OR O_APPEND else flags);
          flags = (if oo_create o' then flags OR O_CREAT else flags);
          flags = (if oo_truncate o' then flags OR O_TRUNC else flags);
          flags = (if oo_direct o' then flags OR O_DIRECT else flags)
      in (flags, perms_as_raw (oo_permissions o')))"

datatype advice = AdviceNormal | AdviceSequential | AdviceRandom

definition advice_as_raw :: "advice \<Rightarrow> i32" where
  "advice_as_raw a = (case a of AdviceNormal \<Rightarrow> 0 | AdviceSequential \<Rightarrow> 2 | AdviceRandom \<Rightarrow> 1)"

subsection \<open>System time\<close>

record sys_time =
  sy_sec :: int
  sy_nsec :: nat

definition UNIX_EPOCH :: sys_time where "UNIX_EPOCH = \<lparr>sy_sec = 0, sy_nsec = 0\<rparr>"

definition NSEC :: nat where "NSEC = 1000000000"

definition in_i64 :: "int \<Rightarrow> bool" where
  "in_i64 s \<longleftrightarrow> - (2 ^ 63) \<le> s \<and> s < 2 ^ 63"

definition duration_new :: "u64 \<Rightarrow> u32 \<Rightarrow> panic + duration" where
  "duration_new secs nanos =
     (if unat nanos < NSEC then Inr \<lparr>dur_secs = secs, dur_nanos = nanos\<rparr>
      else (let s = unat secs + unat nanos div NSEC
            in if s < 2 ^ 64 then Inr \<lparr>dur_secs = of_nat s, dur_nanos = of_nat (unat nanos mod NSEC)\<rparr>
               else Inl Overflow))"

definition time_checked_add :: "sys_time \<Rightarrow> duration \<Rightarrow> sys_time option" where
  "time_checked_add t d =
     (let s = sy_sec t + uint (dur_secs d); n = sy_nsec t + unat (dur_nanos d)
      in if \<not> in_i64 s then None
         else if n < NSEC then Some \<lparr>sy_sec = s, sy_nsec = n\<rparr>
         else if in_i64 (s + 1) then Some \<lparr>sy_sec = s + 1, sy_nsec = n - NSEC\<rparr>
         else None)"

definition time_checked_sub :: "sys_time \<Rightarrow> duration \<Rightarrow> sys_time option" where
  "time_checked_sub t d =
     (let s = sy_sec t - uint (dur_secs d)
      in if \<not> in_i64 s then None
         else if unat (dur_nanos d) \<le> sy_nsec t then Some \<lparr>sy_sec = s, sy_nsec = sy_nsec t - unat (dur_nanos d)\<rparr>
         else if in_i64 (s - 1) then Some \<lparr>sy_sec = s - 1, sy_nsec = sy_nsec t + NSEC - unat (dur_nanos d)\<rparr>
         else None)"

text \<open>Nanoseconds since the epoch.\<close>

definition time_nanos :: "sys_time \<Rightarrow> int" where
  "time_nanos t = sy_sec t * int NSEC + int (sy_nsec t)"

subsection \<open>Metadata\<close>

record statx_time =
  tv_sec :: i64
  tv_nsec :: u32

record statx_raw =
  stx_mode :: u16
  stx_uid :: u32
  stx_gid :: u32
  stx_size :: u64
  stx_atime :: statx_time
  stx_btime :: statx_time
  stx_mtime :: statx_time

record metadata =
  md_raw :: statx_raw

definition S_IFMT :: u32 where "S_IFMT = 0xF000"
definition S_IFIFO :: u32 where "S_IFIFO = 0x1000"
definition S_IFCHR :: u32 where "S_IFCHR = 0x2000"
definition S_IFDIR :: u32 where "S_IFDIR = 0x4000"
definition S_IFBLK :: u32 where "S_IFBLK = 0x6000"
definition S_IFREG :: u32 where "S_IFREG = 0x8000"
definition S_IFLNK :: u32 where "S_IFLNK = 0xA000"
definition S_IFSOCK :: u32 where "S_IFSOCK = 0xC000"

definition md_is_dir :: "metadata \<Rightarrow> bool" where
  "md_is_dir m \<longleftrightarrow> ucast (stx_mode (md_raw m)) AND S_IFMT = S_IFDIR"

definition md_is_file :: "metadata \<Rightarrow> bool" where
  "md_is_file m \<longleftrightarrow> ucast (stx_mode (md_raw m)) AND S_IFMT = S_IFREG"

definition md_is_symlink :: "metadata \<Rightarrow> bool" where
  "md_is_symlink m \<longleftrightarrow> ucast (stx_mode (md_raw m)) AND S_IFMT = S_IFLNK"

definition md_is_block_device :: "metadata \<Rightarrow> bool" where
  "md_is_block_device m \<longleftrightarrow> ucast (stx_mode (md_raw m)) AND S_IFMT = S_IFBLK"

definition md_is_char_device :: "metadata \<Rightarrow> bool" where
  "md_is_char_device m \<longleftrightarrow> ucast (stx_mode (md_raw m)) AND S_IFMT = S_IFCHR"

definition md_is_fifo :: "metadata \<Rightarrow> bool" where
  "md_is_fifo m \<longleftrightarrow> ucast (stx_mode (md_raw m)) AND S_IFMT = S_IFIFO"

definition md_is_socket :: "metadata \<Rightarrow> bool" where
  "md_is_socket m \<longleftrightarrow> ucast (stx_mode (md_raw m)) AND S_IFMT = S_IFSOCK"

definition md_user_id :: "metadata \<Rightarrow> u16" where
  "md_user_id m = ucast (stx_uid (md_raw m))"

definition md_group_id :: "metadata \<Rightarrow> u16" where
  "md_group_id m = ucast (stx_gid (md_raw m))"

definition convert_timestamp :: "statx_time \<Rightarrow> panic + (io_error + sys_time)" where
  "convert_timestamp raw =
     (if 0 \<le>s tv_sec raw then
        mapR (\<lambda>d. case time_checked_add UNIX_EPOCH d of Some t \<Rightarrow> Inr t | None \<Rightarrow> Inl (OtherError ''Overflow''))
          (duration_new (tv_sec raw) (tv_nsec raw))
      else if tv_sec raw = - (2 ^ 63) then Inl Overflow
      else
        mapR (\<lambda>d. case time_checked_sub UNIX_EPOCH d of Some t \<Rightarrow> Inr t | None \<Rightarrow> Inl (OtherError ''Underflow''))
          (duration_new (- tv_sec raw) (tv_nsec raw)))"

definition md_accessed :: "metadata \<Rightarrow> panic + (io_error + sys_time)" where
  "md_accessed m = convert_timestamp (stx_atime (md_raw m))"

definition md_created :: "metadata \<Rightarrow> panic + (io_error + sys_time)" where
  "md_created m = convert_timestamp (stx_btime (md_raw m))"

definition md_modified :: "metadata \<Rightarrow> panic + (io_error + sys_time)" where
  "md_modified m = convert_timestamp (stx_mtime (md_raw m))"

definition md_permissions :: "metadata \<Rightarrow> permissions" where
  "md_permissions m = \<lparr>pm_raw = ucast (stx_mode (md_raw m))\<rparr>"

definition md_len :: "metadata \<Rightarrow> u64" where
  "md_len m = stx_size (md_raw m)"

definition md_is_empty :: "metadata \<Rightarrow> bool" where
  "md_is_empty m \<longleftrightarrow> md_len m = 0"

end
