(* ===== verification/FsProps.thy ===== *)
theory FsProps
  imports Fs
begin

section \<open>Properties of options, permissions and metadata\<close>

text \<open>
  \<open>Permissions\<close> implement sets of \<open>Permission\<close>; the flags of \<open>open\<close> say exactly what the
  options say; times of \<open>Metadata\<close> are exact from the epoch on and wrong before it.
\<close>

unbundle bit_operations_syntax

subsection \<open>Permissions as sets\<close>

definition flag_bit :: "permission \<Rightarrow> nat" where
  "flag_bit p =
     (case p of
        UserRead \<Rightarrow> 8 | UserWrite \<Rightarrow> 7 | UserExecute \<Rightarrow> 6
      | GroupRead \<Rightarrow> 5 | GroupWrite \<Rightarrow> 4 | GroupExecute \<Rightarrow> 3
      | OtherRead \<Rightarrow> 2 | OtherWrite \<Rightarrow> 1 | OtherExecute \<Rightarrow> 0)"

lemma raw_flag_exp: "raw_flag p = 2 ^ flag_bit p"
  by (cases p) (simp_all add: raw_flag_def flag_bit_def)

lemma flag_bit_inj [simp]: "flag_bit p = flag_bit q \<longleftrightarrow> p = q"
  by (cases p; cases q) (simp_all add: flag_bit_def)

lemma flag_bit_less: "flag_bit p < 32"
  by (cases p) (simp_all add: flag_bit_def)

lemma perms_get_bit: "perms_get p q \<longleftrightarrow> bit (pm_raw p) (flag_bit q)"
  by (simp add: perms_get_def raw_flag_exp and_exp_eq_0_iff_not_bit)

lemma raw_flag_bit: "bit (raw_flag p) (flag_bit q) \<longleftrightarrow> p = q"
  using flag_bit_less [of q] by (auto simp: raw_flag_exp bit_exp_iff)

definition perms_abs :: "permissions \<Rightarrow> permission set" where
  "perms_abs p = {q. perms_get p q}"

lemmas perms_bits = perms_abs_def perms_get_bit perms_set_def perms_unset_def perms_bitand_def perms_bitor_def
  bit_or_iff bit_and_iff bit_not_iff raw_flag_bit

lemma perms_consts:
  "perms_abs PERM_READ = {UserRead, GroupRead, OtherRead}"
  "perms_abs PERM_WRITE = {UserWrite, GroupWrite, OtherWrite}"
  "perms_abs PERM_EXECUTE = {UserExecute, GroupExecute, OtherExecute}"
proof -
  have "perms_get PERM_READ x \<longleftrightarrow> x \<in> {UserRead, GroupRead, OtherRead}"
    "perms_get PERM_WRITE x \<longleftrightarrow> x \<in> {UserWrite, GroupWrite, OtherWrite}"
    "perms_get PERM_EXECUTE x \<longleftrightarrow> x \<in> {UserExecute, GroupExecute, OtherExecute}" for x
    by (cases x; simp add: perms_get_def raw_flag_def PERM_READ_def PERM_WRITE_def PERM_EXECUTE_def)+
  then show "perms_abs PERM_READ = {UserRead, GroupRead, OtherRead}"
    "perms_abs PERM_WRITE = {UserWrite, GroupWrite, OtherWrite}"
    "perms_abs PERM_EXECUTE = {UserExecute, GroupExecute, OtherExecute}"
    by (auto simp: perms_abs_def)
qed

text \<open>C23: \<open>Permissions\<close> are a set of \<open>Permission\<close>: \<open>set\<close> adds exactly one, \<open>unset\<close> removes
  exactly one, \<open>&\<close> and \<open>|\<close> are intersection and union, \<open>get\<close> is membership, and the constants
  are the sets their names say.\<close>

theorem permissions_are_sets:
  "perms_abs (perms_set w p) = insert w (perms_abs p) \<and>
   perms_abs (perms_unset w p) = perms_abs p - {w} \<and>
   perms_abs (perms_bitand p q) = perms_abs p \<inter> perms_abs q \<and>
   perms_abs (perms_bitor p q) = perms_abs p \<union> perms_abs q \<and>
   perms_abs PERM_EMPTY = {} \<and>
   perms_abs PERM_READ = {UserRead, GroupRead, OtherRead} \<and>
   perms_abs PERM_WRITE = {UserWrite, GroupWrite, OtherWrite} \<and>
   perms_abs PERM_EXECUTE = {UserExecute, GroupExecute, OtherExecute}"
proof -
  have "perms_abs (perms_set w p) = insert w (perms_abs p)" by (auto simp: perms_bits)
  moreover have "perms_abs (perms_unset w p) = perms_abs p - {w}"
    using flag_bit_less by (auto simp: perms_bits)
  moreover have "perms_abs (perms_bitand p q) = perms_abs p \<inter> perms_abs q" by (auto simp: perms_bits)
  moreover have "perms_abs (perms_bitor p q) = perms_abs p \<union> perms_abs q" by (auto simp: perms_bits)
  moreover have "perms_abs PERM_EMPTY = {}" by (simp add: perms_bits PERM_EMPTY_def)
  ultimately show ?thesis by (simp add: perms_consts)
qed

subsection \<open>Flags of open\<close>

lemmas open_flag_defs = O_RDONLY_def O_WRONLY_def O_RDWR_def O_CREAT_def O_TRUNC_def O_APPEND_def O_DIRECT_def

definition flags_of :: "open_options \<Rightarrow> i32" where
  "flags_of o' = fst (raw_opts o')"

lemma flags_decode:
  "oo_append o' \<longleftrightarrow> flags_of o' AND O_APPEND \<noteq> 0" "oo_create o' \<longleftrightarrow> flags_of o' AND O_CREAT \<noteq> 0"
  "oo_truncate o' \<longleftrightarrow> flags_of o' AND O_TRUNC \<noteq> 0" "oo_direct o' \<longleftrightarrow> flags_of o' AND O_DIRECT \<noteq> 0"
  "oo_write o' \<longleftrightarrow> flags_of o' AND 3 \<noteq> O_RDONLY" "oo_read o' \<and> oo_write o' \<longleftrightarrow> flags_of o' AND 3 = O_RDWR"
  by (cases "oo_read o'"; cases "oo_write o'"; cases "oo_append o'"; cases "oo_create o'"; cases "oo_truncate o'";
      cases "oo_direct o'"; simp add: flags_of_def raw_opts_def access_flags_def open_flag_defs Let_def)+

lemma flags_encode:
  "flags_of o' =
    (if oo_write o' then if oo_read o' \<and> oo_write o' then O_RDWR else O_WRONLY else O_RDONLY) OR
    (if oo_append o' then O_APPEND else 0) OR (if oo_create o' then O_CREAT else 0) OR
    (if oo_truncate o' then O_TRUNC else 0) OR (if oo_direct o' then O_DIRECT else 0)"
  by (simp add: flags_of_def raw_opts_def access_flags_def open_flag_defs Let_def)

lemma raw_opts_eq: "raw_opts o1 = raw_opts o2 \<longleftrightarrow> flags_of o1 = flags_of o2 \<and> oo_permissions o1 = oo_permissions o2"
  by (cases "oo_permissions o1"; cases "oo_permissions o2") (auto simp: flags_of_def raw_opts_def perms_as_raw_def Let_def)

text \<open>C24: The flags and mode \<open>open\<close> passes to the kernel determine the options and nothing
  more: two values of \<open>OpenOptions\<close> give the same flags and mode exactly when they agree on
  append, create, truncate, direct, write and the permissions, and on whether they are both
  readable and writable. Asking for neither reading nor writing opens for reading.\<close>

theorem flags_say_the_options:
  "raw_opts o1 = raw_opts o2 \<longleftrightarrow>
    oo_append o1 = oo_append o2 \<and> oo_create o1 = oo_create o2 \<and> oo_truncate o1 = oo_truncate o2 \<and>
    oo_direct o1 = oo_direct o2 \<and> oo_permissions o1 = oo_permissions o2 \<and> oo_write o1 = oo_write o2 \<and>
    (oo_read o1 \<and> oo_write o1) = (oo_read o2 \<and> oo_write o2)"
  unfolding raw_opts_eq
proof (rule iffI)
  assume "flags_of o1 = flags_of o2 \<and> oo_permissions o1 = oo_permissions o2"
  then have e: "flags_of o1 = flags_of o2" and p: "oo_permissions o1 = oo_permissions o2" by simp_all
  have "(oo_read o1 \<and> oo_write o1) = (oo_read o2 \<and> oo_write o2)" by (simp only: flags_decode(6) e)
  then show "oo_append o1 = oo_append o2 \<and> oo_create o1 = oo_create o2 \<and> oo_truncate o1 = oo_truncate o2 \<and>
    oo_direct o1 = oo_direct o2 \<and> oo_permissions o1 = oo_permissions o2 \<and> oo_write o1 = oo_write o2 \<and>
    (oo_read o1 \<and> oo_write o1) = (oo_read o2 \<and> oo_write o2)"
    using p by (simp only: flags_decode(1-5) e simp_thms)
next
  assume h: "oo_append o1 = oo_append o2 \<and> oo_create o1 = oo_create o2 \<and> oo_truncate o1 = oo_truncate o2 \<and>
    oo_direct o1 = oo_direct o2 \<and> oo_permissions o1 = oo_permissions o2 \<and> oo_write o1 = oo_write o2 \<and>
    (oo_read o1 \<and> oo_write o1) = (oo_read o2 \<and> oo_write o2)"
  then have rw: "(oo_read o1 \<and> oo_write o1) = (oo_read o2 \<and> oo_write o2)" by blast
  have "flags_of o1 = flags_of o2"
    using h by (subst (1 2) flags_encode, subst rw, simp only:)
  then show "flags_of o1 = flags_of o2 \<and> oo_permissions o1 = oo_permissions o2" using h by blast
qed

subsection \<open>Times\<close>

lemma uint_neg_signed:
  assumes "sint (x :: i64) < 0"
  shows "uint (- x) = - sint x"
proof -
  have "uint (- x) = - sint x mod 2 ^ 64"
  proof -
    have a: "uint (- x) = - uint x mod 2 ^ 64" using uint_word_ariths(4) [of x] by simp
    have b: "uint x = sint x mod 2 ^ 64" using uint_sint [of x] by (simp add: take_bit_eq_mod)
    show ?thesis unfolding a b by (rule mod_minus_eq)
  qed
  moreover have "- sint x < 2 ^ 64" using sint_greater_eq [of x] by simp
  ultimately show ?thesis using assms by simp
qed

text \<open>C25: A time the kernel gives is converted exactly from the epoch on. Before the epoch the
  nanoseconds, which count upwards, are subtracted: the result is early by twice the fraction,
  so it is right exactly when there is none. The conversion fails for no time but the smallest.\<close>

theorem times_before_the_epoch_are_off:
  assumes "unat (tv_nsec raw) < NSEC" and "tv_sec raw \<noteq> - (2 ^ 63)"
  shows "\<exists>t. convert_timestamp raw = Inr (Inr t) \<and> sy_nsec t < NSEC \<and>
    time_nanos t = sint (tv_sec raw) * int NSEC +
      (if 0 \<le> sint (tv_sec raw) then int (unat (tv_nsec raw)) else - int (unat (tv_nsec raw)))"
proof (cases "0 \<le> sint (tv_sec raw)")
  case True
  have u: "uint (tv_sec raw) = sint (tv_sec raw)"
    using True sint_less [of "tv_sec raw"] by (simp add: uint_sint take_bit_int_eq_self_iff)
  have "in_i64 (sint (tv_sec raw))" using True sint_less [of "tv_sec raw"] by (simp add: in_i64_def)
  then show ?thesis
    using True assms(1)
    by (simp add: convert_timestamp_def word_sle_eq duration_new_def time_checked_add_def UNIX_EPOCH_def u
        time_nanos_def)
next
  case False
  have m: "sint (- (2 ^ 63) :: i64) = - (2 ^ 63)" by simp
  have "sint (tv_sec raw) \<noteq> - (2 ^ 63)" using assms(2) m by (metis signed_word_eqI)
  then have r: "- (2 ^ 63) < sint (tv_sec raw)" using sint_greater_eq [of "tv_sec raw"] by simp
  have u: "uint (- tv_sec raw) = - sint (tv_sec raw)" using False by (intro uint_neg_signed) simp
  have i: "in_i64 (sint (tv_sec raw))" "in_i64 (sint (tv_sec raw) - 1)" using False r by (simp_all add: in_i64_def)
  have d: "duration_new (- tv_sec raw) (tv_nsec raw) = Inr \<lparr>dur_secs = - tv_sec raw, dur_nanos = tv_nsec raw\<rparr>"
    using assms(1) by (simp add: duration_new_def)
  have c: "convert_timestamp raw = Inr (case time_checked_sub UNIX_EPOCH \<lparr>dur_secs = - tv_sec raw, dur_nanos = tv_nsec raw\<rparr> of
      Some t \<Rightarrow> Inr t | None \<Rightarrow> Inl (OtherError ''Underflow''))"
    using False assms(2) by (simp only: convert_timestamp_def word_sle_eq d sint_0 if_False mapR_simps)
  show ?thesis
    using False assms(1) i
    by (cases "unat (tv_nsec raw) = 0")
      (auto simp: c time_checked_sub_def UNIX_EPOCH_def u time_nanos_def Let_def algebra_simps)
qed

theorem times_before_the_epoch_are_off_witness:
  "\<exists>t. convert_timestamp \<lparr>tv_sec = - 1, tv_nsec = 500000000\<rparr> = Inr (Inr t) \<and> time_nanos t = - 1500000000"
  using times_before_the_epoch_are_off [of "\<lparr>tv_sec = - 1, tv_nsec = 500000000\<rparr>"]
  by (auto simp: NSEC_def)

end
