(* ===== verification/Async.thy ===== *)
theory Async
  imports Owned
begin

section \<open>Async functions\<close>

text \<open>
  The compiler turns an \<open>async fn\<close> into a state machine; \<open>fut\<close> is such a machine up to its
  behaviour: a poll with a waker and the state \<open>'w\<close> panics, is pending and becomes another
  future, or is ready with a value. \<open>await\<close> polls a submission, \<open>fut_bind\<close> goes on with the
  rest of the body in the same poll once the first part is ready, \<open>fut_try\<close> is the operator
  \<open>?\<close>, and \<open>fut_do\<close> code that does not wait. Dropping such a future before its end is not
  modelled. \<open>at\<close> gives the addresses of what a function allocates and pins, in order.

  \<open>resolves R wk m w a w'\<close>: polled again and again with the waker \<open>wk\<close>, the rest of the
  program doing any step of \<open>R\<close> on the state between two polls, \<open>m\<close> is ready with \<open>a\<close>.
\<close>

codatatype ('w, 'a) fut = Fut (fut_poll: "waker \<Rightarrow> 'w \<Rightarrow> panic + (('w, 'a) fut + 'a) \<times> 'w")

definition fut_return :: "'a \<Rightarrow> ('w, 'a) fut" where
  "fut_return x = Fut (\<lambda>_ w. Inr (Inr x, w))"

definition fut_panic :: "panic \<Rightarrow> ('w, 'a) fut" where
  "fut_panic p = Fut (\<lambda>_ _. Inl p)"

definition fut_do :: "('w \<Rightarrow> panic + ('a \<times> 'w)) \<Rightarrow> ('w, 'a) fut" where
  "fut_do f = Fut (\<lambda>_ w. mapR (\<lambda>(x, w'). (Inr x, w')) (f w))"

text \<open>One poll of a sequence: of its second part \<open>Inl n\<close>, or of its first \<open>Inr m\<close>.\<close>

definition seq_step ::
    "('a \<Rightarrow> ('w, 'b) fut) \<Rightarrow> ('w, 'b) fut + ('w, 'a) fut \<Rightarrow> waker \<Rightarrow> 'w \<Rightarrow>
      panic + ((('w, 'b) fut + ('w, 'a) fut) + 'b) \<times> 'w" where
  "seq_step k s wk w =
     (case s of
        Inl n \<Rightarrow> map_sum id (map_prod (map_sum Inl id) id) (fut_poll n wk w)
      | Inr m \<Rightarrow>
          (case fut_poll m wk w of
             Inl p \<Rightarrow> Inl p
           | Inr (Inl m', w') \<Rightarrow> Inr (Inl (Inr m'), w')
           | Inr (Inr a, w') \<Rightarrow> map_sum id (map_prod (map_sum Inl id) id) (fut_poll (k a) wk w')))"

primcorec fut_seq :: "('a \<Rightarrow> ('w, 'b) fut) \<Rightarrow> ('w, 'b) fut + ('w, 'a) fut \<Rightarrow> ('w, 'b) fut" where
  "fut_poll (fut_seq k s) = (\<lambda>wk w. map_sum id (map_prod (map_sum (fut_seq k) id) id) (seq_step k s wk w))"

definition fut_bind :: "('w, 'a) fut \<Rightarrow> ('a \<Rightarrow> ('w, 'b) fut) \<Rightarrow> ('w, 'b) fut" where
  "fut_bind m k = fut_seq k (Inr m)"

definition fut_try ::
    "('w, 'e + 'a) fut \<Rightarrow> ('a \<Rightarrow> ('w, 'e + 'b) fut) \<Rightarrow> ('w, 'e + 'b) fut" where
  "fut_try m k = fut_bind m (\<lambda>r. case r of Inl e \<Rightarrow> fut_return (Inl e) | Inr x \<Rightarrow> k x)"

definition fut_map :: "('a \<Rightarrow> 'b) \<Rightarrow> ('w, 'a) fut \<Rightarrow> ('w, 'b) fut" where
  "fut_map f m = fut_bind m (\<lambda>x. fut_return (f x))"

text \<open>A value that may panic when it is computed.\<close>

definition fut_let :: "panic + 'a \<Rightarrow> ('a \<Rightarrow> ('w, 'b) fut) \<Rightarrow> ('w, 'b) fut" where
  "fut_let r k = (case r of Inl p \<Rightarrow> fut_panic p | Inr x \<Rightarrow> k x)"

definition sub_step ::
    "('u, 's) env \<Rightarrow> ('o, 'out, 'w, 'z) op_ops_scheme \<Rightarrow> 'o submission \<Rightarrow> waker \<Rightarrow> 'w \<times> ('u, 's) ring cell \<Rightarrow>
      panic + ('o submission + 'out) \<times> ('w \<times> ('u, 's) ring cell)" where
  "sub_step E T s wk st =
     mapR (\<lambda>(res, s', st'). (case res of Pending \<Rightarrow> Inl s' | PollReady x \<Rightarrow> Inr x, st')) (submission_poll E T wk s st)"

primcorec await ::
    "('u, 's) env \<Rightarrow> ('o, 'out, 'w, 'z) op_ops_scheme \<Rightarrow> 'o submission \<Rightarrow> ('w \<times> ('u, 's) ring cell, 'out) fut" where
  "fut_poll (await E T s) =
     (\<lambda>wk st. map_sum id (map_prod (map_sum (await E T) id) id) (sub_step E T s wk st))"

definition run_on ::
    "('u, 's) env \<Rightarrow> ('o, 'out, 'w, 'z) op_ops_scheme \<Rightarrow> ptr \<Rightarrow> 'o \<Rightarrow> ('w \<times> ('u, 's) ring cell, 'out) fut" where
  "run_on E T this q = await E T (submission_new this q)"

subsection \<open>Polling\<close>

lemma fut_poll_return [simp]: "fut_poll (fut_return x) wk w = Inr (Inr x, w)"
  by (simp add: fut_return_def)

lemma fut_poll_panic [simp]: "fut_poll (fut_panic p) wk w = Inl p"
  by (simp add: fut_panic_def)

lemma fut_poll_do [simp]: "fut_poll (fut_do f) wk w = mapR (\<lambda>(x, w'). (Inr x, w')) (f w)"
  by (simp add: fut_do_def)

lemma seq_Inl: "fut_seq k (Inl n) = n"
  by (coinduction arbitrary: n rule: fut.coinduct_strong)
    (auto simp: seq_step_def rel_fun_def sum.rel_map prod.rel_map sum.map_comp prod.map_comp o_def
      intro!: sum.rel_refl_strong prod.rel_refl_strong)

lemma fut_poll_bind:
  "fut_poll (fut_bind m k) wk w =
    (case fut_poll m wk w of
       Inl p \<Rightarrow> Inl p
     | Inr (Inl m', w') \<Rightarrow> Inr (Inl (fut_bind m' k), w')
     | Inr (Inr a, w') \<Rightarrow> fut_poll (k a) wk w')"
  by (auto simp: fut_bind_def seq_step_def seq_Inl map_sum_def map_prod_def split: sum.splits prod.splits)

lemma fut_poll_await:
  "fut_poll (await E T s) wk st =
    mapR (\<lambda>(res, s', st'). (case res of Pending \<Rightarrow> Inl (await E T s') | PollReady x \<Rightarrow> Inr x, st'))
      (submission_poll E T wk s st)"
  by (auto simp: sub_step_def mapR_def map_sum_def map_prod_def split: sum.splits prod.splits poll.splits)

declare fut_seq.simps [simp del] await.simps [simp del]

subsection \<open>Running to the end\<close>

inductive resolves :: "('w \<Rightarrow> 'w \<Rightarrow> bool) \<Rightarrow> waker \<Rightarrow> ('w, 'a) fut \<Rightarrow> 'w \<Rightarrow> 'a \<Rightarrow> 'w \<Rightarrow> bool"
  for R wk where
  ready: "fut_poll m wk w = Inr (Inr a, w') \<Longrightarrow> resolves R wk m w a w'"
| pending: "fut_poll m wk w = Inr (Inl m', u) \<Longrightarrow> R u v \<Longrightarrow> resolves R wk m' v a w' \<Longrightarrow>
    resolves R wk m w a w'"

lemma resolves_bindI:
  "resolves R wk m w a w1 \<Longrightarrow> resolves R wk (k a) w1 b w' \<Longrightarrow> resolves R wk (fut_bind m k) w b w'"
proof (induction rule: resolves.induct)
  case (ready m w a w1)
  have e: "fut_poll (fut_bind m k) wk w = fut_poll (k a) wk w1" by (simp add: fut_poll_bind ready.hyps)
  from ready.prems show ?case
    by (cases rule: resolves.cases) (auto intro: resolves.intros simp: e)
next
  case (pending m w m' w1 w2 a w3)
  show ?case
    by (rule resolves.pending [where m' = "fut_bind m' k" and u = w1 and v = w2])
      (simp_all add: fut_poll_bind pending.hyps pending.IH [OF pending.prems])
qed

lemma resolves_bindE:
  assumes "resolves R wk (fut_bind m k) w b w'"
  shows "\<exists>a w1. resolves R wk m w a w1 \<and> resolves R wk (k a) w1 b w'"
  using assms
proof (induction "fut_bind m k" w b w' arbitrary: m rule: resolves.induct)
  case (ready w b w')
  then obtain a w1 where "fut_poll m wk w = Inr (Inr a, w1)" "fut_poll (k a) wk w1 = Inr (Inr b, w')"
    by (auto simp: fut_poll_bind split: sum.splits)
  then show ?case by (blast intro: resolves.ready)
next
  case (pending w m1 w1 w2 b w')
  show ?case
  proof (cases "fut_poll m wk w")
    case (Inl p)
    then show ?thesis using pending.hyps(1) by (simp add: fut_poll_bind)
  next
    case (Inr r)
    then obtain s ws where r: "fut_poll m wk w = Inr (s, ws)" by (cases r) auto
    show ?thesis
    proof (cases s)
      case (Inl m')
      then have "m1 = fut_bind m' k" "ws = w1" using pending.hyps(1) r by (auto simp: fut_poll_bind)
      then show ?thesis using pending.hyps(2,4) r Inl by (blast intro: resolves.pending)
    next
      case (Inr a)
      then have "fut_poll (k a) wk ws = Inr (Inl m1, w1)" using pending.hyps(1) r by (simp add: fut_poll_bind)
      then have "resolves R wk (k a) ws b w'" using pending.hyps(2,3) by (blast intro: resolves.pending)
      then show ?thesis using r Inr by (blast intro: resolves.ready)
    qed
  qed
qed

lemma resolves_bind:
  "resolves R wk (fut_bind m k) w b w' \<longleftrightarrow> (\<exists>a w1. resolves R wk m w a w1 \<and> resolves R wk (k a) w1 b w')"
  using resolves_bindE resolves_bindI by metis

lemma resolves_at_once:
  assumes "\<And>m' w1. fut_poll m wk w \<noteq> Inr (Inl m', w1)"
  shows "resolves R wk m w a w' \<longleftrightarrow> fut_poll m wk w = Inr (Inr a, w')"
proof
  assume "resolves R wk m w a w'"
  then show "fut_poll m wk w = Inr (Inr a, w')" using assms by cases auto
qed (rule resolves.ready)

lemma resolves_return [simp]: "resolves R wk (fut_return x) w a w' \<longleftrightarrow> a = x \<and> w' = w"
  by (subst resolves_at_once) auto

lemma resolves_panic [simp]: "\<not> resolves R wk (fut_panic p) w a w'"
  by (subst resolves_at_once) auto

lemma resolves_do [simp]: "resolves R wk (fut_do f) w a w' \<longleftrightarrow> f w = Inr (a, w')"
  by (subst resolves_at_once) (auto simp: mapR_Inr_iff)

lemma resolves_let: "resolves R wk (fut_let r k) w a w' \<longleftrightarrow> (\<exists>x. r = Inr x \<and> resolves R wk (k x) w a w')"
  by (cases r) (auto simp: fut_let_def)

lemma resolves_map: "resolves R wk (fut_map f m) w b w' \<longleftrightarrow> (\<exists>a. resolves R wk m w a w' \<and> b = f a)"
  by (auto simp: fut_map_def resolves_bind)

lemma resolves_try:
  "resolves R wk (fut_try m k) w b w' \<longleftrightarrow>
    (\<exists>e. resolves R wk m w (Inl e) w' \<and> b = Inl e) \<or>
    (\<exists>x w1. resolves R wk m w (Inr x) w1 \<and> resolves R wk (k x) w1 b w')"
  unfolding fut_try_def resolves_bind split_sum_ex by auto

text \<open>An operation that resolves has been submitted in its first poll.\<close>

lemma resolves_run_on:
  assumes "resolves R wk (run_on E T this q) w a w'"
  shows "\<exists>e q1 v k c. op_entry T this q (fst w) = Inr (e, q1, v) \<and> reactor_submit E e wk (snd w) = Inr (k, c)"
  using assms [unfolded run_on_def]
  by cases
    (auto simp: fut_poll_await submission_new_def submission_poll_def state_take_def submission_start_def
      mapR_Inr_iff bindR_Inr_iff)

lemmas resolves_simps = resolves_bind resolves_let resolves_map resolves_try

end
