(* ===== verification/Files.thy ===== *)
theory Files
  imports Async Fs OpsLink Adapters
begin

section \<open>Files and directories (fs/file.rs, fs/dir.rs, fs/func.rs)\<close>

text \<open>
  The async functions over files. \<open>at\<close> gives the addresses a call allocates and pins, in the
  order of the code; the state is \<open>'w\<close>, shared with other components, and the reactor's
  cell. The kernel fills the box of \<open>statx\<close>: \<open>stats\<close> reads it. A value a function owns is
  dropped where the function ends, \<open>file_drop\<close> for a \<open>File\<close>; what a panic would drop while
  unwinding is not modelled. \<open>try_slot\<close> is the parameter of \<open>DestinationSlot\<close>, \<open>join\<close> the
  one of the \<open>futures\<close> crate, and so are \<open>read_to_end\<close> and \<open>write_all\<close>.
\<close>

text \<open>The operator \<open>?\<close> where the function then drops what \<open>cleanup\<close> drops.\<close>

definition fut_try_drop ::
    "('w, 'd) fut \<Rightarrow> ('w, 'e + 'a) fut \<Rightarrow> ('a \<Rightarrow> ('w, 'e + 'b) fut) \<Rightarrow> ('w, 'e + 'b) fut" where
  "fut_try_drop cleanup m k =
     fut_bind m (\<lambda>r. case r of Inl e \<Rightarrow> fut_bind cleanup (\<lambda>_. fut_return (Inl e)) | Inr x \<Rightarrow> k x)"

lemma resolves_try_drop:
  "resolves R wk (fut_try_drop cleanup m k) w b w' \<longleftrightarrow>
    (\<exists>e w1 d. resolves R wk m w (Inl e) w1 \<and> resolves R wk cleanup w1 d w' \<and> b = Inl e) \<or>
    (\<exists>x w1. resolves R wk m w (Inr x) w1 \<and> resolves R wk (k x) w1 b w')"
  unfolding fut_try_drop_def resolves_bind split_sum_ex by (simp add: resolves_bind)

definition fd_drop :: "('u, 't) env \<Rightarrow> ptr \<Rightarrow> owned_fd \<Rightarrow> ('w \<times> ('u, 't) ring cell, unit) fut" where
  "fd_drop E this o' = fut_do (\<lambda>st. mapR (\<lambda>st'. ((), st')) (owned_fd_drop E this o' st))"

definition direct_drop :: "('u, 't) env \<Rightarrow> ptr \<Rightarrow> owned_direct \<Rightarrow> ('w \<times> ('u, 't) ring cell, unit) fut" where
  "direct_drop E this d = fut_do (\<lambda>st. mapR (\<lambda>st'. ((), st')) (owned_direct_drop E this d st))"

subsection \<open>File\<close>

record fs_file =
  fi_fd :: owned_fd

definition file_from_raw_fd :: "i32 \<Rightarrow> fs_file" where
  "file_from_raw_fd fd = \<lparr>fi_fd = owned_fd_from_raw fd\<rparr>"

definition file_into_raw_fd :: "fs_file \<Rightarrow> i32" where
  "file_into_raw_fd f = owned_fd_into_raw (fi_fd f)"

definition file_as_raw_fd :: "fs_file \<Rightarrow> i32" where
  "file_as_raw_fd f = owned_fd_as_raw (fi_fd f)"

definition file_read_source :: "fs_file \<Rightarrow> source" where
  "file_read_source f = as_source_owned_fd (fi_fd f)"

definition file_write_source :: "fs_file \<Rightarrow> source" where
  "file_write_source f = as_source_owned_fd (fi_fd f)"

record direct_file =
  df_direct :: owned_direct

definition direct_file_from_direct :: "owned_direct \<Rightarrow> direct_file" where
  "direct_file_from_direct d = \<lparr>df_direct = d\<rparr>"

definition direct_file_read_source :: "direct_file \<Rightarrow> source" where
  "direct_file_read_source f = as_source_owned_direct (df_direct f)"

definition direct_file_write_source :: "direct_file \<Rightarrow> source" where
  "direct_file_write_source f = as_source_owned_direct (df_direct f)"

definition options_open ::
    "('u, 't) env \<Rightarrow> (nat \<Rightarrow> ptr) \<Rightarrow> open_options \<Rightarrow> path \<Rightarrow> ('w \<times> ('u, 't) ring cell, io_error + fs_file) fut" where
  "options_open E at o' p =
     (let (flags, mode) = raw_opts o'
      in fut_let (openat_new (at 0) p flags) (\<lambda>q.
         fut_try (run_on E openat_op (at 1) (openat_mode mode q)) (\<lambda>fd.
         fut_return (Inr (file_from_raw_fd fd)))))"

definition options_open_direct ::
    "('u, 't) env \<Rightarrow> (nat \<Rightarrow> ptr) \<Rightarrow> open_options \<Rightarrow> path \<Rightarrow> ('w \<times> ('u, 't) ring cell, io_error + direct_file) fut" where
  "options_open_direct E at o' p =
     (let (flags, mode) = raw_opts o'
      in fut_let (openat_new (at 0) p flags) (\<lambda>q.
         fut_try (run_on E openat_auto_op (at 1) (openat_auto (openat_mode mode q))) (\<lambda>slot.
         fut_return (Inr (direct_file_from_direct (owned_direct_auto slot))))))"

definition file_options :: open_options where
  "file_options = options_new"

definition file_open :: "('u, 't) env \<Rightarrow> (nat \<Rightarrow> ptr) \<Rightarrow> path \<Rightarrow> ('w \<times> ('u, 't) ring cell, io_error + fs_file) fut" where
  "file_open E at p = options_open E at (options_readable True file_options) p"

definition file_create :: "('u, 't) env \<Rightarrow> (nat \<Rightarrow> ptr) \<Rightarrow> path \<Rightarrow> ('w \<times> ('u, 't) ring cell, io_error + fs_file) fut" where
  "file_create E at p = options_open E at (options_writable True (options_create True file_options)) p"

definition file_open_direct ::
    "('u, 't) env \<Rightarrow> (nat \<Rightarrow> ptr) \<Rightarrow> path \<Rightarrow> ('w \<times> ('u, 't) ring cell, io_error + direct_file) fut" where
  "file_open_direct E at p = options_open_direct E at (options_readable True file_options) p"

definition file_create_direct ::
    "('u, 't) env \<Rightarrow> (nat \<Rightarrow> ptr) \<Rightarrow> path \<Rightarrow> ('w \<times> ('u, 't) ring cell, io_error + direct_file) fut" where
  "file_create_direct E at p = options_open_direct E at (options_writable True (options_create True file_options)) p"

definition STATX_BASIC_STATS :: u32 where "STATX_BASIC_STATS = 0x7FF"

definition STATX_BTIME :: u32 where "STATX_BTIME = 0x800"

definition file_metadata ::
    "('u, 't) env \<Rightarrow> ('w \<Rightarrow> ptr \<Rightarrow> statx_raw) \<Rightarrow> (nat \<Rightarrow> ptr) \<Rightarrow> fs_file \<Rightarrow>
      ('w \<times> ('u, 't) ring cell, io_error + metadata) fut" where
  "file_metadata E stats at f =
     fut_try (run_on E statx_op (at 1)
         (statx_new (at 0) (owned_fd_as_raw (fi_fd f)) (or STATX_BASIC_STATS STATX_BTIME))) (\<lambda>box.
     fut_do (\<lambda>st. Inr (Inr \<lparr>md_raw = stats (fst st) box\<rparr>, st)))"

definition file_sync_data :: "('u, 't) env \<Rightarrow> ptr \<Rightarrow> fs_file \<Rightarrow> ('w \<times> ('u, 't) ring cell, io_error + unit) fut" where
  "file_sync_data E this f = run_on E fsync_op this (fsync_new as_source_owned_fd (fi_fd f))"

definition file_sync_all :: "('u, 't) env \<Rightarrow> ptr \<Rightarrow> fs_file \<Rightarrow> ('w \<times> ('u, 't) ring cell, io_error + unit) fut" where
  "file_sync_all E this f = run_on E fsync_op this (fsync_sync_meta (fsync_new as_source_owned_fd (fi_fd f)))"

definition file_truncate :: "('u, 't) env \<Rightarrow> ptr \<Rightarrow> fs_file \<Rightarrow> usize \<Rightarrow> ('w \<times> ('u, 't) ring cell, io_error + unit) fut" where
  "file_truncate E this f n = run_on E ftruncate_op this (ftruncate_new as_source_owned_fd (fi_fd f) n)"

definition file_advise :: "('u, 't) env \<Rightarrow> ptr \<Rightarrow> fs_file \<Rightarrow> advice \<Rightarrow> ('w \<times> ('u, 't) ring cell, io_error + unit) fut" where
  "file_advise E this f a =
     run_on E (fadvise_op range_full_rb) this
       (fadvise_new as_source_owned_fd (fi_fd f) (advice_as_raw a))"

definition file_make_direct :: "('u, 't) env \<Rightarrow> ptr \<Rightarrow> fs_file \<Rightarrow> ('w \<times> ('u, 't) ring cell, io_error + direct_file) fut" where
  "file_make_direct E this f =
     fut_try (run_on E register_file_op this (register_file_new (owned_fd_as_raw (fi_fd f)))) (\<lambda>slot.
     fut_return (Inr (direct_file_from_direct (Auto slot))))"

definition direct_file_sync_data :: "('u, 't) env \<Rightarrow> ptr \<Rightarrow> direct_file \<Rightarrow> ('w \<times> ('u, 't) ring cell, io_error + unit) fut" where
  "direct_file_sync_data E this f = run_on E fsync_op this (fsync_new as_source_owned_direct (df_direct f))"

definition direct_file_sync_all :: "('u, 't) env \<Rightarrow> ptr \<Rightarrow> direct_file \<Rightarrow> ('w \<times> ('u, 't) ring cell, io_error + unit) fut" where
  "direct_file_sync_all E this f =
     run_on E fsync_op this (fsync_sync_meta (fsync_new as_source_owned_direct (df_direct f)))"

definition direct_file_truncate ::
    "('u, 't) env \<Rightarrow> ptr \<Rightarrow> direct_file \<Rightarrow> usize \<Rightarrow> ('w \<times> ('u, 't) ring cell, io_error + unit) fut" where
  "direct_file_truncate E this f n = run_on E ftruncate_op this (ftruncate_new as_source_owned_direct (df_direct f) n)"

definition direct_file_advise ::
    "('u, 't) env \<Rightarrow> ptr \<Rightarrow> direct_file \<Rightarrow> advice \<Rightarrow> ('w \<times> ('u, 't) ring cell, io_error + unit) fut" where
  "direct_file_advise E this f a =
     run_on E (fadvise_op range_full_rb) this (fadvise_new as_source_owned_direct (df_direct f) (advice_as_raw a))"

definition direct_file_make_regular ::
    "('u, 't) env \<Rightarrow> ptr \<Rightarrow> direct_file \<Rightarrow> ('w \<times> ('u, 't) ring cell, io_error + fs_file) fut" where
  "direct_file_make_regular E this f =
     fut_try (run_on E install_slot_op this (install_slot_new as_slot_owned_direct (df_direct f))) (\<lambda>fd.
     fut_return (Inr (file_from_raw_fd fd)))"

definition file_drop :: "('u, 't) env \<Rightarrow> ptr \<Rightarrow> fs_file \<Rightarrow> ('w \<times> ('u, 't) ring cell, unit) fut" where
  "file_drop E this f = fd_drop E this (fi_fd f)"

subsection \<open>Directories\<close>

text \<open>
  \<open>Path::iter\<close>: the root, then the names between the separators; empty names and a \<open>.\<close> that
  is not the first name of a relative path are skipped.
\<close>

fun split_path :: "path \<Rightarrow> path \<Rightarrow> path list" where
  "split_path cur [] = [cur]"
| "split_path cur (c # cs) = (if c = 47 then cur # split_path [] cs else split_path (cur @ [c]) cs)"

definition path_iter :: "path \<Rightarrow> path list" where
  "path_iter p =
     (let names = split_path [] p;
          start = (if path_is_absolute p then [[47]] else if take 1 names = [[46]] then [[46]] else [])
      in start @ filter (\<lambda>n. n \<noteq> [] \<and> n \<noteq> [46]) names)"

record dir_builder =
  db_recursive :: bool

definition dir_builder_new :: dir_builder where
  "dir_builder_new = \<lparr>db_recursive = False\<rparr>"

definition dir_builder_recursive :: "bool \<Rightarrow> dir_builder \<Rightarrow> dir_builder" where
  "dir_builder_recursive b d = d\<lparr>db_recursive := b\<rparr>"

definition EEXIST :: i32 where "EEXIST = 17"

definition already_exists :: "io_error \<Rightarrow> bool" where
  "already_exists e \<longleftrightarrow> e = OsError EEXIST"

definition make_dir :: "('u, 't) env \<Rightarrow> (nat \<Rightarrow> ptr) \<Rightarrow> path \<Rightarrow> ('w \<times> ('u, 't) ring cell, io_error + unit) fut" where
  "make_dir E at p = fut_let (mkdirat_new (at 0) p) (\<lambda>q. run_on E mkdirat_op (at 1) (mkdirat_mode 0x1FF q))"

fun create_items ::
    "('u, 't) env \<Rightarrow> (nat \<Rightarrow> ptr) \<Rightarrow> path list \<Rightarrow> path \<Rightarrow> ('w \<times> ('u, 't) ring cell, io_error + unit) fut" where
  "create_items E at [] buf = fut_return (Inr ())"
| "create_items E at (item # items) buf =
     fut_bind (make_dir E at (buf @ item)) (\<lambda>res.
     case res of
       Inl e \<Rightarrow>
         if \<not> already_exists e then fut_return (Inl e)
         else create_items E (\<lambda>i. at (i + 2)) items (buf @ item @ [47])
     | Inr _ \<Rightarrow> create_items E (\<lambda>i. at (i + 2)) items (buf @ item @ [47]))"

definition create_recursive ::
    "('u, 't) env \<Rightarrow> (nat \<Rightarrow> ptr) \<Rightarrow> path \<Rightarrow> ('w \<times> ('u, 't) ring cell, io_error + unit) fut" where
  "create_recursive E at p = create_items E at (path_iter p) []"

definition dir_create ::
    "('u, 't) env \<Rightarrow> (nat \<Rightarrow> ptr) \<Rightarrow> dir_builder \<Rightarrow> path \<Rightarrow> ('w \<times> ('u, 't) ring cell, io_error + unit) fut" where
  "dir_create E at d p = (if db_recursive d then create_recursive E at p else make_dir E at p)"

subsection \<open>Functions of the module fs\<close>

definition reserve_unwrap :: "('w \<times> ('u, 't) ring cell, owned_direct) fut" where
  "reserve_unwrap =
     fut_do (\<lambda>(w, c).
       bindR (owned_direct_reserve c) (\<lambda>(res, c').
       case res of Inl e \<Rightarrow> Inl UnwrapErr | Inr d \<Rightarrow> Inr (d, w, c')))"

definition exists_path ::
    "('u, 't) env \<Rightarrow> (u32 \<Rightarrow> bool) \<Rightarrow> (nat \<Rightarrow> ptr) \<Rightarrow> path \<Rightarrow> ('w \<times> ('u, 't) ring cell, bool) fut" where
  "exists_path E try_slot at p =
     fut_bind reserve_unwrap (\<lambda>direct.
     fut_let (openat_new (at 0) p O_WRONLY) (\<lambda>q.
     fut_let (openat_direct try_slot as_slot_owned_direct q direct) (\<lambda>qd.
     fut_bind (run_on E openat_direct_op (at 1) qd) (\<lambda>res.
     fut_bind (direct_drop E (at 2) direct) (\<lambda>_.
     fut_return (case res of Inr _ \<Rightarrow> True | Inl _ \<Rightarrow> False))))))"

definition write_buf ::
    "('u, 't) env \<Rightarrow> (u32 \<Rightarrow> bool) \<Rightarrow> 'c stable_buffer \<Rightarrow>
      (('w \<times> ('u, 't) ring cell, io_error + unit) fut \<Rightarrow>
       ('w \<times> ('u, 't) ring cell, 'c \<times> (io_error + usize)) fut \<Rightarrow>
       ('w \<times> ('u, 't) ring cell, (io_error + unit) \<times> ('c \<times> (io_error + usize))) fut) \<Rightarrow>
      (nat \<Rightarrow> ptr) \<Rightarrow> path \<Rightarrow> 'c \<Rightarrow> ('w \<times> ('u, 't) ring cell, 'c \<times> (io_error + unit)) fut" where
  "write_buf E try_slot D join at p contents =
     fut_bind reserve_unwrap (\<lambda>direct.
     fut_let (openat_new (at 0) p (or (or O_WRONLY O_CREAT) O_TRUNC)) (\<lambda>q.
     fut_let (openat_direct try_slot as_slot_owned_direct (openat_mode 0x1B6 q) direct) (\<lambda>qd.
     fut_bind (join (run_on E (chain_op openat_direct_op) (at 1) (chain_new qd))
                    (run_on E (chain_op (write_op D)) (at 2)
                      (chain_new (write_new as_source_owned_direct direct contents)))) (\<lambda>(open, buf, wrote).
     fut_bind
       (case (open, wrote) of
          (Inl e, _) \<Rightarrow> fut_return (buf, Inl e)
        | (Inr _, Inl e) \<Rightarrow> fut_return (buf, Inl e)
        | (Inr _, Inr n) \<Rightarrow> if sb_size D buf = n then fut_return (buf, Inr ()) else fut_panic AssertFailed) (\<lambda>res.
     fut_bind (direct_drop E (at 3) direct) (\<lambda>_.
     fut_return res))))))"

definition read_buf ::
    "('u, 't) env \<Rightarrow> (u32 \<Rightarrow> bool) \<Rightarrow> 'b stable_buffer \<Rightarrow>
      (('w \<times> ('u, 't) ring cell, io_error + unit) fut \<Rightarrow>
       ('w \<times> ('u, 't) ring cell, 'b \<times> (io_error + usize)) fut \<Rightarrow>
       ('w \<times> ('u, 't) ring cell, (io_error + unit) \<times> ('b \<times> (io_error + usize))) fut) \<Rightarrow>
      (nat \<Rightarrow> ptr) \<Rightarrow> path \<Rightarrow> 'b \<Rightarrow> ('w \<times> ('u, 't) ring cell, 'b \<times> (io_error + usize)) fut" where
  "read_buf E try_slot D join at p buffer =
     fut_bind reserve_unwrap (\<lambda>direct.
     fut_let (openat_new (at 0) p O_RDWR) (\<lambda>q.
     fut_let (openat_direct try_slot as_slot_owned_direct q direct) (\<lambda>qd.
     fut_bind (join (run_on E (chain_op openat_direct_op) (at 1) (chain_new qd))
                    (run_on E (chain_op (read_op D)) (at 2)
                      (chain_new (read_new as_source_owned_direct direct buffer)))) (\<lambda>(open, buf, read).
     fut_bind (direct_drop E (at 3) direct) (\<lambda>_.
     fut_return
       (case (open, read) of
          (Inl e, _) \<Rightarrow> (buf, Inl e)
        | (Inr _, Inl e) \<Rightarrow> (buf, Inl e)
        | (Inr _, Inr n) \<Rightarrow> (buf, Inr n)))))))"

text \<open>
  A reader or writer owns its file and its buffer: dropping it closes the file and drops the
  future of a transfer in flight.
\<close>

definition file_reader_drop ::
    "('u, 't) env \<Rightarrow> ptr \<Rightarrow> fs_file box_reader \<Rightarrow> ('w \<times> ('u, 't) ring cell, unit) fut" where
  "file_reader_drop E this r =
     fut_bind (file_drop E this (br_source r)) (\<lambda>_.
     case br_state r of
       ReaderPending f \<Rightarrow>
         fut_do (\<lambda>(w, c). mapR (\<lambda>(c', ev). ((), w, c')) (submission_drop E
           (read_op boxed_slice_buffer :: (u8 boxed_slice read_op, u8 boxed_slice \<times> (io_error + usize), 'w) op_ops) f c))
     | _ \<Rightarrow> fut_return ())"

definition file_writer_drop ::
    "('u, 't) env \<Rightarrow> ptr \<Rightarrow> fs_file box_writer \<Rightarrow> ('w \<times> ('u, 't) ring cell, unit) fut" where
  "file_writer_drop E this r =
     fut_bind
       (case bw_state r of
          WriterPending f \<Rightarrow>
            fut_do (\<lambda>(w, c). mapR (\<lambda>(c', ev). ((), w, c'))
              (submission_drop E
                (write_op (view_buffer boxed_slice_buffer range_to_rb) ::
                  ((u8 boxed_slice, range_to) view write_op, (u8 boxed_slice, range_to) view \<times> (io_error + usize), 'w) op_ops)
                f c))
        | _ \<Rightarrow> fut_return ()) (\<lambda>_.
     file_drop E this (bw_sink r))"

text \<open>\<open>read\<close> and \<open>read_to_string\<close> differ in \<open>read_to_end\<close> only.\<close>

definition read_file ::
    "('u, 't) env \<Rightarrow> (fs_file box_reader \<Rightarrow> ('w \<times> ('u, 't) ring cell, (io_error + 'd) \<times> fs_file box_reader) fut) \<Rightarrow>
      (nat \<Rightarrow> ptr) \<Rightarrow> path \<Rightarrow> ('w \<times> ('u, 't) ring cell, io_error + 'd) fut" where
  "read_file E read_to_end at p =
     fut_try (file_open E at p) (\<lambda>f.
     fut_try_drop (file_drop E (at 3) f) (file_advise E (at 2) f AdviceSequential) (\<lambda>_.
     fut_bind (read_to_end (bufreader_new (at 4) f)) (\<lambda>(res, reader).
     fut_bind (file_reader_drop E (at 5) reader) (\<lambda>_.
     fut_return res))))"

definition write_file ::
    "('u, 't) env \<Rightarrow>
      (u8 list \<Rightarrow> fs_file box_writer \<Rightarrow> ('w \<times> ('u, 't) ring cell, (io_error + unit) \<times> fs_file box_writer) fut) \<Rightarrow>
      (fs_file box_writer \<Rightarrow> ('w \<times> ('u, 't) ring cell, (io_error + unit) \<times> fs_file box_writer) fut) \<Rightarrow>
      (nat \<Rightarrow> ptr) \<Rightarrow> path \<Rightarrow> u8 list \<Rightarrow> ('w \<times> ('u, 't) ring cell, io_error + unit) fut" where
  "write_file E write_all flush at p contents =
     fut_try (file_create E at p) (\<lambda>f.
     fut_bind (write_all contents (bufwriter_new (at 2) f)) (\<lambda>(res, writer).
     case res of
       Inl e \<Rightarrow> fut_bind (file_writer_drop E (at 3) writer) (\<lambda>_. fut_return (Inl e))
     | Inr _ \<Rightarrow>
         fut_bind (flush writer) (\<lambda>(res', writer').
         fut_bind (file_writer_drop E (at 3) writer') (\<lambda>_.
         fut_return res'))))"

definition path_metadata ::
    "('u, 't) env \<Rightarrow> ('w \<Rightarrow> ptr \<Rightarrow> statx_raw) \<Rightarrow> (nat \<Rightarrow> ptr) \<Rightarrow> path \<Rightarrow>
      ('w \<times> ('u, 't) ring cell, io_error + metadata) fut" where
  "path_metadata E stats at p =
     fut_try (file_open E at p) (\<lambda>f.
     fut_bind (file_metadata E stats (\<lambda>i. at (i + 2)) f) (\<lambda>res.
     fut_bind (file_drop E (at 4) f) (\<lambda>_.
     fut_return res)))"

definition create_file :: "('u, 't) env \<Rightarrow> (nat \<Rightarrow> ptr) \<Rightarrow> path \<Rightarrow> ('w \<times> ('u, 't) ring cell, io_error + unit) fut" where
  "create_file E at p =
     fut_try (file_create E at p) (\<lambda>f.
     fut_bind (file_drop E (at 2) f) (\<lambda>_.
     fut_return (Inr ())))"

definition create_dir :: "('u, 't) env \<Rightarrow> (nat \<Rightarrow> ptr) \<Rightarrow> path \<Rightarrow> ('w \<times> ('u, 't) ring cell, io_error + unit) fut" where
  "create_dir E at p = dir_create E at dir_builder_new p"

definition create_dir_all :: "('u, 't) env \<Rightarrow> (nat \<Rightarrow> ptr) \<Rightarrow> path \<Rightarrow> ('w \<times> ('u, 't) ring cell, io_error + unit) fut" where
  "create_dir_all E at p = dir_create E at (dir_builder_recursive True dir_builder_new) p"

definition hard_link :: "('u, 't) env \<Rightarrow> (nat \<Rightarrow> ptr) \<Rightarrow> path \<Rightarrow> path \<Rightarrow> ('w \<times> ('u, 't) ring cell, io_error + unit) fut" where
  "hard_link E at p target = fut_let (linkat_absolute (at 0) (at 1) p target) (run_on E (linkat_op (at 3)) (at 2))"

definition soft_link :: "('u, 't) env \<Rightarrow> (nat \<Rightarrow> ptr) \<Rightarrow> path \<Rightarrow> path \<Rightarrow> ('w \<times> ('u, 't) ring cell, io_error + unit) fut" where
  "soft_link E at p target = fut_let (symlinkat_new (at 0) (at 1) p target) (run_on E (symlinkat_op (at 3)) (at 2))"

definition remove_file :: "('u, 't) env \<Rightarrow> (nat \<Rightarrow> ptr) \<Rightarrow> path \<Rightarrow> ('w \<times> ('u, 't) ring cell, io_error + unit) fut" where
  "remove_file E at p = fut_let (unlinkat_new (at 0) p) (run_on E unlinkat_op (at 1))"

definition remove_dir :: "('u, 't) env \<Rightarrow> (nat \<Rightarrow> ptr) \<Rightarrow> path \<Rightarrow> ('w \<times> ('u, 't) ring cell, io_error + unit) fut" where
  "remove_dir E at p = fut_let (mapR unlinkat_dir (unlinkat_new (at 0) p)) (run_on E unlinkat_op (at 1))"

end
