(* ===== verification/Net.thy ===== *)
theory Net
  imports Files OpsNet
begin

section \<open>TCP, timeouts and chains (net/tcp.rs, time.rs, util.rs)\<close>

text \<open>
  Listeners, streams and their direct variants. \<open>ToSocketAddrs\<close> belongs to the standard
  library: \<open>addrs\<close> is what it resolves to. \<open>join3\<close> is the parameter of the \<open>futures\<close> crate.
  The accepting operations take the storage of the peer's address from \<open>uninit\<close>.
\<close>

definition DEFAULT_LISTEN_BACKLOG :: u32 where "DEFAULT_LISTEN_BACKLOG = 256"

text \<open>\<open>for_each_addr\<close>; the \<open>k\<close>-th attempt takes its addresses from \<open>at k\<close>.\<close>

fun try_addrs ::
    "io_error option \<Rightarrow> nat \<Rightarrow> (nat \<Rightarrow> socket_addr \<Rightarrow> ('w, io_error + 'a) fut) \<Rightarrow> socket_addr list \<Rightarrow> ('w, io_error + 'a) fut" where
  "try_addrs last_error k f [] =
     fut_return (Inl (case last_error of Some e \<Rightarrow> e | None \<Rightarrow> InvalidInput ''could not resolve any addresses''))"
| "try_addrs last_error k f (a # addrs) =
     fut_bind (f k a) (\<lambda>r. case r of Inr x \<Rightarrow> fut_return (Inr x) | Inl e \<Rightarrow> try_addrs (Some e) (k + 1) f addrs)"

definition for_each_addr ::
    "io_error + socket_addr list \<Rightarrow> (nat \<Rightarrow> socket_addr \<Rightarrow> ('w, io_error + 'a) fut) \<Rightarrow> ('w, io_error + 'a) fut" where
  "for_each_addr addrs f = (case addrs of Inl e \<Rightarrow> fut_return (Inl e) | Inr as \<Rightarrow> try_addrs None 0 f as)"

definition chain3 ::
    "('w, (io_error + 'a) \<times> (io_error + 'b) \<times> (io_error + 'c)) fut \<Rightarrow> ('w, io_error + ('a \<times> 'b \<times> 'c)) fut" where
  "chain3 joined =
     fut_bind joined (\<lambda>(r1, r2, r3).
     fut_return (bindR r1 (\<lambda>t1. bindR r2 (\<lambda>t2. bindR r3 (\<lambda>t3. Inr (t1, t2, t3))))))"

subsection \<open>TcpStream and DirectTcpStream\<close>

record tcp_stream =
  ts_sock :: owned_fd

record direct_tcp_stream =
  dts_direct :: owned_direct

record tcp_listener =
  tl_sock :: owned_fd

record direct_tcp_listener =
  dtl_direct :: owned_direct

definition tcp_stream_from_raw_fd :: "i32 \<Rightarrow> tcp_stream" where
  "tcp_stream_from_raw_fd fd = \<lparr>ts_sock = owned_fd_from_raw fd\<rparr>"

definition tcp_stream_into_raw_fd :: "tcp_stream \<Rightarrow> i32" where
  "tcp_stream_into_raw_fd s = owned_fd_into_raw (ts_sock s)"

definition tcp_stream_as_raw_fd :: "tcp_stream \<Rightarrow> i32" where
  "tcp_stream_as_raw_fd s = owned_fd_as_raw (ts_sock s)"

definition tcp_stream_read_source :: "tcp_stream \<Rightarrow> source" where
  "tcp_stream_read_source s = as_source_owned_fd (ts_sock s)"

definition tcp_stream_write_source :: "tcp_stream \<Rightarrow> source" where
  "tcp_stream_write_source s = as_source_owned_fd (ts_sock s)"

definition direct_stream_from_direct :: "owned_direct \<Rightarrow> direct_tcp_stream" where
  "direct_stream_from_direct d = \<lparr>dts_direct = d\<rparr>"

definition direct_stream_read_source :: "direct_tcp_stream \<Rightarrow> source" where
  "direct_stream_read_source s = as_source_owned_direct (dts_direct s)"

definition direct_stream_write_source :: "direct_tcp_stream \<Rightarrow> source" where
  "direct_stream_write_source s = as_source_owned_direct (dts_direct s)"

definition connect_one ::
    "('u, 't) env \<Rightarrow> (nat \<Rightarrow> ptr) \<Rightarrow> socket_addr \<Rightarrow> ('w \<times> ('u, 't) ring cell, io_error + tcp_stream) fut" where
  "connect_one E at addr =
     fut_try (run_on E socket_op (at 0) (socket_stream_from_addr addr)) (\<lambda>fd.
     let sock = owned_fd_from_raw fd in
     fut_try_drop (fd_drop E (at 2) sock) (run_on E connect_ops (at 1) (connect_new as_source_owned_fd sock addr)) (\<lambda>_.
     fut_return (Inr \<lparr>ts_sock = sock\<rparr>)))"

definition tcp_connect ::
    "('u, 't) env \<Rightarrow> (nat \<Rightarrow> nat \<Rightarrow> ptr) \<Rightarrow> io_error + socket_addr list \<Rightarrow>
      ('w \<times> ('u, 't) ring cell, io_error + tcp_stream) fut" where
  "tcp_connect E at addrs = for_each_addr addrs (\<lambda>k. connect_one E (at k))"

definition connect_direct_one ::
    "('u, 't) env \<Rightarrow> (nat \<Rightarrow> ptr) \<Rightarrow> socket_addr \<Rightarrow> ('w \<times> ('u, 't) ring cell, io_error + direct_tcp_stream) fut" where
  "connect_direct_one E at addr =
     fut_try (run_on E socket_auto_op (at 0) (socket_direct (socket_stream_from_addr addr))) (\<lambda>slot.
     let direct = owned_direct_auto slot in
     fut_try_drop (direct_drop E (at 2) direct)
       (run_on E connect_ops (at 1) (connect_new as_source_owned_direct direct addr)) (\<lambda>_.
     fut_return (Inr (direct_stream_from_direct direct))))"

definition tcp_connect_direct ::
    "('u, 't) env \<Rightarrow> (nat \<Rightarrow> nat \<Rightarrow> ptr) \<Rightarrow> io_error + socket_addr list \<Rightarrow>
      ('w \<times> ('u, 't) ring cell, io_error + direct_tcp_stream) fut" where
  "tcp_connect_direct E at addrs = for_each_addr addrs (\<lambda>k. connect_direct_one E (at k))"

definition tcp_stream_shutdown ::
    "('u, 't) env \<Rightarrow> ptr \<Rightarrow> tcp_stream \<Rightarrow> how \<Rightarrow> ('w \<times> ('u, 't) ring cell, io_error + unit) fut" where
  "tcp_stream_shutdown E this s how = run_on E shutdown_op this (shutdown_new as_source_owned_fd (ts_sock s) how)"

definition tcp_stream_local_addr ::
    "(i32 \<Rightarrow> u32 \<Rightarrow> i32 \<times> addr_repr \<times> u32) \<Rightarrow> io_error \<Rightarrow> tcp_stream \<Rightarrow> panic + (io_error + socket_addr)" where
  "tcp_stream_local_addr call err s = getsockname call err (owned_fd_as_raw (ts_sock s))"

definition tcp_stream_peer_addr ::
    "(i32 \<Rightarrow> u32 \<Rightarrow> i32 \<times> addr_repr \<times> u32) \<Rightarrow> io_error \<Rightarrow> tcp_stream \<Rightarrow> panic + (io_error + socket_addr)" where
  "tcp_stream_peer_addr call err s = getpeername call err (owned_fd_as_raw (ts_sock s))"

definition tcp_stream_make_direct ::
    "('u, 't) env \<Rightarrow> ptr \<Rightarrow> tcp_stream \<Rightarrow> ('w \<times> ('u, 't) ring cell, io_error + direct_tcp_stream) fut" where
  "tcp_stream_make_direct E this s =
     fut_try (run_on E register_file_op this (register_file_new (owned_fd_as_raw (ts_sock s)))) (\<lambda>slot.
     fut_return (Inr (direct_stream_from_direct (Auto slot))))"

definition direct_stream_shutdown ::
    "('u, 't) env \<Rightarrow> ptr \<Rightarrow> direct_tcp_stream \<Rightarrow> how \<Rightarrow> ('w \<times> ('u, 't) ring cell, io_error + unit) fut" where
  "direct_stream_shutdown E this s how =
     run_on E shutdown_op this (shutdown_new as_source_owned_direct (dts_direct s) how)"

definition direct_stream_make_regular ::
    "('u, 't) env \<Rightarrow> ptr \<Rightarrow> direct_tcp_stream \<Rightarrow> ('w \<times> ('u, 't) ring cell, io_error + tcp_stream) fut" where
  "direct_stream_make_regular E this s =
     fut_try (run_on E install_slot_op this (install_slot_new as_slot_owned_direct (dts_direct s))) (\<lambda>fd.
     fut_return (Inr (tcp_stream_from_raw_fd fd)))"

text \<open>The body of \<open>drop\<close>; the field is dropped after it.\<close>

definition direct_stream_drop ::
    "('u, 't) env \<Rightarrow> ptr \<Rightarrow> direct_tcp_stream \<Rightarrow> 'w \<times> ('u, 't) ring cell \<Rightarrow> panic + ('w \<times> ('u, 't) ring cell)" where
  "direct_stream_drop E this s st =
     bindR (run_detached E (chain_op shutdown_op) this
         (chain_new (shutdown_new as_source_owned_direct (dts_direct s) ShutdownBoth)) st) (\<lambda>(_, st').
     owned_direct_drop E this (dts_direct s) st')"

subsection \<open>Listeners\<close>

definition bind_one ::
    "('u, 't) env \<Rightarrow> (nat \<Rightarrow> ptr) \<Rightarrow> socket_addr \<Rightarrow> ('w \<times> ('u, 't) ring cell, io_error + tcp_listener) fut" where
  "bind_one E at addr =
     fut_try (run_on E socket_op (at 0) (socket_stream_from_addr addr)) (\<lambda>fd.
     let sock = owned_fd_from_raw fd in
     fut_try_drop (fd_drop E (at 3) sock) (run_on E bind_ops (at 1) (bind_new as_source_owned_fd sock addr)) (\<lambda>_.
     fut_try_drop (fd_drop E (at 3) sock)
       (run_on E listen_ops (at 2) (listen_new as_source_owned_fd sock DEFAULT_LISTEN_BACKLOG)) (\<lambda>_.
     fut_return (Inr \<lparr>tl_sock = sock\<rparr>))))"

definition tcp_bind ::
    "('u, 't) env \<Rightarrow> (nat \<Rightarrow> nat \<Rightarrow> ptr) \<Rightarrow> io_error + socket_addr list \<Rightarrow>
      ('w \<times> ('u, 't) ring cell, io_error + tcp_listener) fut" where
  "tcp_bind E at addrs = for_each_addr addrs (\<lambda>k. bind_one E (at k))"

definition bind_direct_one ::
    "('u, 't) env \<Rightarrow> (u32 \<Rightarrow> bool) \<Rightarrow>
      (('w \<times> ('u, 't) ring cell, io_error + unit) fut \<Rightarrow> ('w \<times> ('u, 't) ring cell, io_error + unit) fut \<Rightarrow>
       ('w \<times> ('u, 't) ring cell, io_error + unit) fut \<Rightarrow>
       ('w \<times> ('u, 't) ring cell, (io_error + unit) \<times> (io_error + unit) \<times> (io_error + unit)) fut) \<Rightarrow>
      (nat \<Rightarrow> ptr) \<Rightarrow> socket_addr \<Rightarrow> ('w \<times> ('u, 't) ring cell, io_error + direct_tcp_listener) fut" where
  "bind_direct_one E try_slot join3 at addr =
     fut_bind reserve_unwrap (\<lambda>direct.
     fut_let (socket_fixed try_slot as_slot_owned_direct (socket_stream_from_addr addr) direct) (\<lambda>q.
     fut_try_drop (direct_drop E (at 3) direct)
       (chain3
         (join3 (run_on E socket_fixed_op (at 0) q)
           (run_on E (chain_op bind_ops) (at 1) (chain_new (bind_new as_source_owned_direct direct addr)))
           (run_on E listen_ops (at 2) (listen_new as_source_owned_direct direct DEFAULT_LISTEN_BACKLOG)))) (\<lambda>_.
     fut_return (Inr \<lparr>dtl_direct = direct\<rparr>))))"

definition tcp_bind_direct ::
    "('u, 't) env \<Rightarrow> (u32 \<Rightarrow> bool) \<Rightarrow>
      (('w \<times> ('u, 't) ring cell, io_error + unit) fut \<Rightarrow> ('w \<times> ('u, 't) ring cell, io_error + unit) fut \<Rightarrow>
       ('w \<times> ('u, 't) ring cell, io_error + unit) fut \<Rightarrow>
       ('w \<times> ('u, 't) ring cell, (io_error + unit) \<times> (io_error + unit) \<times> (io_error + unit)) fut) \<Rightarrow>
      (nat \<Rightarrow> nat \<Rightarrow> ptr) \<Rightarrow> io_error + socket_addr list \<Rightarrow>
      ('w \<times> ('u, 't) ring cell, io_error + direct_tcp_listener) fut" where
  "tcp_bind_direct E try_slot join3 at addrs = for_each_addr addrs (\<lambda>k. bind_direct_one E try_slot join3 (at k))"

definition tcp_listener_local_addr ::
    "(i32 \<Rightarrow> u32 \<Rightarrow> i32 \<times> addr_repr \<times> u32) \<Rightarrow> io_error \<Rightarrow> tcp_listener \<Rightarrow> panic + (io_error + socket_addr)" where
  "tcp_listener_local_addr call err l = getsockname call err (owned_fd_as_raw (tl_sock l))"

definition tcp_accept ::
    "('u, 't) env \<Rightarrow> (nat \<Rightarrow> ptr) \<Rightarrow> addr_repr \<times> u32 \<Rightarrow> tcp_listener \<Rightarrow>
      ('w \<times> ('u, 't) ring cell, io_error + (tcp_stream \<times> socket_addr)) fut" where
  "tcp_accept E at uninit l =
     fut_try (run_on E accept_op (at 1) (accept_new as_source_owned_fd (at 0) uninit (tl_sock l))) (\<lambda>(sock, peer).
     fut_return (Inr (tcp_stream_from_raw_fd sock, peer)))"

definition direct_accept ::
    "('u, 't) env \<Rightarrow> (nat \<Rightarrow> ptr) \<Rightarrow> addr_repr \<times> u32 \<Rightarrow> direct_tcp_listener \<Rightarrow>
      ('w \<times> ('u, 't) ring cell, io_error + (direct_tcp_stream \<times> socket_addr)) fut" where
  "direct_accept E at uninit l =
     fut_try (run_on E accept_auto_op (at 1)
         (accept_direct (accept_new as_source_owned_direct (at 0) uninit (dtl_direct l)))) (\<lambda>(slot, peer).
     fut_return (Inr (direct_stream_from_direct (owned_direct_auto slot), peer)))"

definition tcp_listener_from_raw_fd :: "i32 \<Rightarrow> tcp_listener" where
  "tcp_listener_from_raw_fd fd = \<lparr>tl_sock = owned_fd_from_raw fd\<rparr>"

definition tcp_listener_into_raw_fd :: "tcp_listener \<Rightarrow> i32" where
  "tcp_listener_into_raw_fd l = owned_fd_into_raw (tl_sock l)"

definition tcp_listener_as_raw_fd :: "tcp_listener \<Rightarrow> i32" where
  "tcp_listener_as_raw_fd l = owned_fd_as_raw (tl_sock l)"

subsection \<open>Incoming connections\<close>

record incoming =
  in_listener :: tcp_listener
  in_stream :: "accept_multi submission"

definition incoming_new :: "ptr \<Rightarrow> tcp_listener \<Rightarrow> incoming" where
  "incoming_new this l =
     \<lparr>in_listener = l, in_stream = submission_new this (accept_multi_new as_source_owned_fd (tl_sock l))\<rparr>"

definition incoming_poll_next ::
    "('u, 't) env \<Rightarrow> waker \<Rightarrow> incoming \<Rightarrow> 'w \<times> ('u, 't) ring cell \<Rightarrow>
      panic + ((io_error + tcp_stream) option poll \<times> incoming \<times> 'w \<times> ('u, 't) ring cell \<times> event list)" where
  "incoming_poll_next E wk i st =
     mapR (\<lambda>(p, s, w, c, ev).
       (case p of Pending \<Rightarrow> Pending | PollReady next \<Rightarrow> PollReady (map_option (mapR tcp_stream_from_raw_fd) next),
        i\<lparr>in_stream := s\<rparr>, w, c, ev))
     (submission_poll_next E accept_multi_op wk (in_stream i) st)"

record direct_incoming =
  din_listener :: direct_tcp_listener
  din_stream :: "accept_multi_auto submission"

definition direct_incoming_new :: "ptr \<Rightarrow> direct_tcp_listener \<Rightarrow> direct_incoming" where
  "direct_incoming_new this l =
     \<lparr>din_listener = l,
      din_stream = submission_new this (accept_multi_direct (accept_multi_new as_source_owned_direct (dtl_direct l)))\<rparr>"

definition direct_incoming_poll_next ::
    "('u, 't) env \<Rightarrow> waker \<Rightarrow> direct_incoming \<Rightarrow> 'w \<times> ('u, 't) ring cell \<Rightarrow>
      panic + ((io_error + direct_tcp_stream) option poll \<times> direct_incoming \<times> 'w \<times> ('u, 't) ring cell \<times> event list)" where
  "direct_incoming_poll_next E wk i st =
     mapR (\<lambda>(p, s, w, c, ev).
       (case p of
          Pending \<Rightarrow> Pending
        | PollReady next \<Rightarrow> PollReady (map_option (mapR (\<lambda>slot. direct_stream_from_direct (owned_direct_auto slot))) next),
        i\<lparr>din_stream := s\<rparr>, w, c, ev))
     (submission_poll_next E accept_multi_auto_op wk (din_stream i) st)"

subsection \<open>Timeouts (time.rs)\<close>

definition timer_new :: "ptr \<Rightarrow> duration \<Rightarrow> timeout submission" where
  "timer_new this d = submission_new this (timeout_new d)"

definition sleep :: "ptr \<Rightarrow> duration \<Rightarrow> timeout submission" where
  "sleep this d = timer_new this d"

definition timer_poll ::
    "('u, 't) env \<Rightarrow> bool \<Rightarrow> waker \<Rightarrow> timeout submission \<Rightarrow> 'w \<times> ('u, 't) ring cell \<Rightarrow>
      panic + (unit poll \<times> timeout submission \<times> 'w \<times> ('u, 't) ring cell)" where
  "timer_poll E debug wk sub st = submission_poll E (timeout_op debug) wk sub st"

definition timer_is_terminated :: "timeout submission \<Rightarrow> bool" where
  "timer_is_terminated sub \<longleftrightarrow> submission_is_terminated sub"

definition instant_new :: "ptr \<Rightarrow> nop submission" where
  "instant_new this = submission_new this Nop"

definition instant_poll ::
    "('u, 't) env \<Rightarrow> waker \<Rightarrow> nop submission \<Rightarrow> 'w \<times> ('u, 't) ring cell \<Rightarrow>
      panic + (unit poll \<times> nop submission \<times> 'w \<times> ('u, 't) ring cell)" where
  "instant_poll E wk sub st = submission_poll E nop_op wk sub st"

definition instant_is_terminated :: "nop submission \<Rightarrow> bool" where
  "instant_is_terminated sub \<longleftrightarrow> submission_is_terminated sub"

end
