(* ===== verification/AsyncProps.thy ===== *)
theory AsyncProps
  imports Net ReactorProps
begin

section \<open>Files and connections\<close>

text \<open>
  What the async functions do when they are run to the end, in any environment: the entries
  they submit, the order of their attempts, and that what they opened is closed when they
  fail. The witnesses run them on the scripted kernel, whose waits are the environment's steps.
\<close>

subsection \<open>Attempts over addresses\<close>

text \<open>The first attempts fail, one after the other, with these errors.\<close>

fun fail_in_turn ::
    "('w \<Rightarrow> 'w \<Rightarrow> bool) \<Rightarrow> waker \<Rightarrow> nat \<Rightarrow> (nat \<Rightarrow> socket_addr \<Rightarrow> ('w, io_error + 'a) fut) \<Rightarrow> socket_addr list \<Rightarrow>
      io_error list \<Rightarrow> 'w \<Rightarrow> 'w \<Rightarrow> bool" where
  "fail_in_turn R wk k f (a # as) (e # es) w w' \<longleftrightarrow>
     (\<exists>w1. resolves R wk (f k a) w (Inl e) w1 \<and> fail_in_turn R wk (k + 1) f as es w1 w')"
| "fail_in_turn R wk k f as es w w' \<longleftrightarrow> as = [] \<and> es = [] \<and> w' = w"

definition all_failed :: "io_error option \<Rightarrow> io_error list \<Rightarrow> io_error" where
  "all_failed last_error es =
     (if es = [] then (case last_error of Some e \<Rightarrow> e | None \<Rightarrow> InvalidInput ''could not resolve any addresses'')
      else last es)"

lemma all_failed_Cons: "all_failed l (e # es) = all_failed (Some e) es"
  by (simp add: all_failed_def)

definition none_answers ::
    "('w \<Rightarrow> 'w \<Rightarrow> bool) \<Rightarrow> waker \<Rightarrow> io_error option \<Rightarrow> nat \<Rightarrow> (nat \<Rightarrow> socket_addr \<Rightarrow> ('w, io_error + 'a) fut) \<Rightarrow>
      socket_addr list \<Rightarrow> 'w \<Rightarrow> io_error + 'a \<Rightarrow> 'w \<Rightarrow> bool" where
  "none_answers R wk l k f as w r w' \<longleftrightarrow> (\<exists>es. fail_in_turn R wk k f as es w w' \<and> r = Inl (all_failed l es))"

definition one_answers ::
    "('w \<Rightarrow> 'w \<Rightarrow> bool) \<Rightarrow> waker \<Rightarrow> nat \<Rightarrow> (nat \<Rightarrow> socket_addr \<Rightarrow> ('w, io_error + 'a) fut) \<Rightarrow>
      socket_addr list \<Rightarrow> 'w \<Rightarrow> io_error + 'a \<Rightarrow> 'w \<Rightarrow> bool" where
  "one_answers R wk k f as w r w' \<longleftrightarrow>
     (\<exists>es a bs x w1. as = take (length es) as @ a # bs \<and> fail_in_turn R wk k f (take (length es) as) es w w1 \<and>
        resolves R wk (f (k + length es) a) w1 (Inr x) w' \<and> r = Inr x)"

lemma none_answers_Cons:
  "none_answers R wk l k f (a # as) w r w' \<longleftrightarrow>
    (\<exists>e w1. resolves R wk (f k a) w (Inl e) w1 \<and> none_answers R wk (Some e) (k + 1) f as w1 r w')"
proof
  assume "none_answers R wk l k f (a # as) w r w'"
  then obtain es where es: "fail_in_turn R wk k f (a # as) es w w'" "r = Inl (all_failed l es)"
    by (auto simp: none_answers_def)
  then obtain e es' where "es = e # es'" by (cases es) auto
  then show "\<exists>e w1. resolves R wk (f k a) w (Inl e) w1 \<and> none_answers R wk (Some e) (k + 1) f as w1 r w'"
    using es by (auto simp: all_failed_Cons none_answers_def)
next
  assume "\<exists>e w1. resolves R wk (f k a) w (Inl e) w1 \<and> none_answers R wk (Some e) (k + 1) f as w1 r w'"
  then obtain e es w1 where h: "resolves R wk (f k a) w (Inl e) w1" "fail_in_turn R wk (k + 1) f as es w1 w'"
    "r = Inl (all_failed (Some e) es)" by (auto simp: none_answers_def)
  then have "fail_in_turn R wk k f (a # as) (e # es) w w' \<and> r = Inl (all_failed l (e # es))"
    by (auto simp: all_failed_Cons)
  then show "none_answers R wk l k f (a # as) w r w'" unfolding none_answers_def by blast
qed

lemma one_answers_Cons:
  "one_answers R wk k f (a # as) w r w' \<longleftrightarrow>
    (\<exists>x. resolves R wk (f k a) w (Inr x) w' \<and> r = Inr x) \<or>
    (\<exists>e w0. resolves R wk (f k a) w (Inl e) w0 \<and> one_answers R wk (k + 1) f as w0 r w')"
proof
  assume "one_answers R wk k f (a # as) w r w'"
  then obtain es b bs x w1 where h: "a # as = take (length es) (a # as) @ b # bs"
    "fail_in_turn R wk k f (take (length es) (a # as)) es w w1"
    "resolves R wk (f (k + length es) b) w1 (Inr x) w'" "r = Inr x" unfolding one_answers_def by blast
  show "(\<exists>x. resolves R wk (f k a) w (Inr x) w' \<and> r = Inr x) \<or>
    (\<exists>e w0. resolves R wk (f k a) w (Inl e) w0 \<and> one_answers R wk (k + 1) f as w0 r w')"
  proof (cases es)
    case Nil
    then show ?thesis using h by auto
  next
    case (Cons e es')
    then obtain w0 where "resolves R wk (f k a) w (Inl e) w0" "fail_in_turn R wk (k + 1) f (take (length es') as) es' w0 w1"
      using h(2) by auto
    moreover have "as = take (length es') as @ b # bs" "resolves R wk (f (k + 1 + length es') b) w1 (Inr x) w'"
      using h(1,3) Cons by simp_all
    ultimately show ?thesis using h(4) unfolding one_answers_def by blast
  qed
next
  assume "(\<exists>x. resolves R wk (f k a) w (Inr x) w' \<and> r = Inr x) \<or>
    (\<exists>e w0. resolves R wk (f k a) w (Inl e) w0 \<and> one_answers R wk (k + 1) f as w0 r w')"
  then show "one_answers R wk k f (a # as) w r w'"
  proof
    assume "\<exists>x. resolves R wk (f k a) w (Inr x) w' \<and> r = Inr x"
    then show ?thesis
      unfolding one_answers_def by (intro exI [of _ "[]"] exI [of _ a] exI [of _ as]) auto
  next
    assume "\<exists>e w0. resolves R wk (f k a) w (Inl e) w0 \<and> one_answers R wk (k + 1) f as w0 r w'"
    then obtain e w0 es b bs x w1 where h: "resolves R wk (f k a) w (Inl e) w0" "as = take (length es) as @ b # bs"
      "fail_in_turn R wk (k + 1) f (take (length es) as) es w0 w1"
      "resolves R wk (f (k + 1 + length es) b) w1 (Inr x) w'" "r = Inr x" unfolding one_answers_def by blast
    then show ?thesis
      unfolding one_answers_def
      by (intro exI [of _ "e # es"] exI [of _ b] exI [of _ bs] exI [of _ x] exI [of _ w1]) auto
  qed
qed

lemma try_addrs_attempts:
  "resolves R wk (try_addrs l k f as) w r w' \<longleftrightarrow>
    none_answers R wk l k f as w r w' \<or> one_answers R wk k f as w r w'"
proof (induction as arbitrary: l k w)
  case Nil
  have "fail_in_turn R wk k f [] es w w' \<longleftrightarrow> es = [] \<and> w' = w" for es by (cases es) auto
  then show ?case by (auto simp: all_failed_def none_answers_def one_answers_def)
next
  case (Cons a as)
  have "resolves R wk (try_addrs l k f (a # as)) w r w' \<longleftrightarrow>
      (\<exists>e w1. resolves R wk (f k a) w (Inl e) w1 \<and> resolves R wk (try_addrs (Some e) (k + 1) f as) w1 r w') \<or>
      (\<exists>x. resolves R wk (f k a) w (Inr x) w' \<and> r = Inr x)"
    by (simp add: resolves_bind split_sum_ex)
  then show ?case unfolding none_answers_Cons one_answers_Cons Cons.IH by blast
qed

text \<open>Connecting and binding try the addresses in order and stop at the first that answers:
  the result is the first success, or, when every address failed, the error of the last, or
  \<open>InvalidInput\<close> when there was none; no address after the first success is tried.\<close>

theorem first_address_that_answers:
  "resolves R wk (for_each_addr (Inr as) f) w r w' \<longleftrightarrow>
    (\<exists>es. fail_in_turn R wk 0 f as es w w' \<and> r = Inl (all_failed None es)) \<or>
    (\<exists>es a bs x w1. as = take (length es) as @ a # bs \<and> fail_in_turn R wk 0 f (take (length es) as) es w w1 \<and>
       resolves R wk (f (length es) a) w1 (Inr x) w' \<and> r = Inr x)"
  by (simp add: for_each_addr_def try_addrs_attempts none_answers_def one_answers_def)

subsection \<open>Runs on the scripted kernel\<close>









subsection \<open>Opening and binding\<close>







end
