(* ===== verification/Streams.thy ===== *)
theory Streams
  imports Adapters
begin

section \<open>Buffers over buffers (impl_bufreader!, impl_bufwriter!, compat/stream.rs)\<close>

text \<open>
  A buffered reader writes through to its source, a buffered writer reads through to its
  sink: the traits of the inner value are function arguments (\<open>poll\<close>, \<open>consume\<close>), and the
  value they return replaces the inner one. The three streams of compat/stream.rs are a
  writer over a reader and use both.
\<close>

subsection \<open>Reading through a writer\<close>

definition bufwriter_poll_read ::
    "(waker \<Rightarrow> u8 list \<Rightarrow> 's \<Rightarrow> 'w \<Rightarrow> panic + ('res \<times> 's \<times> 'x)) \<Rightarrow> waker \<Rightarrow> u8 list \<Rightarrow> ('s, 'b, 'f, 'a) buf_writer \<Rightarrow> 'w \<Rightarrow>
      panic + ('res \<times> ('s, 'b, 'f, 'a) buf_writer \<times> 'x)" where
  "bufwriter_poll_read poll wk buf r w =
     mapR (\<lambda>(res, s, x). (res, r\<lparr>bw_sink := s\<rparr>, x)) (poll wk buf (bw_sink r) w)"

definition bufwriter_poll_fill_buf ::
    "(waker \<Rightarrow> 's \<Rightarrow> 'w \<Rightarrow> panic + ('res \<times> 's \<times> 'x)) \<Rightarrow> waker \<Rightarrow> ('s, 'b, 'f, 'a) buf_writer \<Rightarrow> 'w \<Rightarrow>
      panic + ('res \<times> ('s, 'b, 'f, 'a) buf_writer \<times> 'x)" where
  "bufwriter_poll_fill_buf poll wk r w = mapR (\<lambda>(res, s, x). (res, r\<lparr>bw_sink := s\<rparr>, x)) (poll wk (bw_sink r) w)"

definition bufwriter_consume ::
    "(usize \<Rightarrow> 's \<Rightarrow> 'w \<Rightarrow> panic + ('s \<times> 'w)) \<Rightarrow> usize \<Rightarrow> ('s, 'b, 'f, 'a) buf_writer \<Rightarrow> 'w \<Rightarrow>
      panic + (('s, 'b, 'f, 'a) buf_writer \<times> 'w)" where
  "bufwriter_consume consume amt r w = mapR (\<lambda>(s, w'). (r\<lparr>bw_sink := s\<rparr>, w')) (consume amt (bw_sink r) w)"

subsection \<open>Writing through a reader\<close>

definition bufreader_poll_write ::
    "(waker \<Rightarrow> u8 list \<Rightarrow> 's \<Rightarrow> 'w \<Rightarrow> panic + ('res \<times> 's \<times> 'x)) \<Rightarrow> waker \<Rightarrow> u8 list \<Rightarrow> ('s, 'b, 'f, 'a) buf_reader \<Rightarrow> 'w \<Rightarrow>
      panic + ('res \<times> ('s, 'b, 'f, 'a) buf_reader \<times> 'x)" where
  "bufreader_poll_write poll wk buf r w =
     mapR (\<lambda>(res, s, x). (res, r\<lparr>br_source := s\<rparr>, x)) (poll wk buf (br_source r) w)"

definition bufreader_poll_flush ::
    "(waker \<Rightarrow> 's \<Rightarrow> 'w \<Rightarrow> panic + ('res \<times> 's \<times> 'x)) \<Rightarrow> waker \<Rightarrow> ('s, 'b, 'f, 'a) buf_reader \<Rightarrow> 'w \<Rightarrow>
      panic + ('res \<times> ('s, 'b, 'f, 'a) buf_reader \<times> 'x)" where
  "bufreader_poll_flush poll wk r w = mapR (\<lambda>(res, s, x). (res, r\<lparr>br_source := s\<rparr>, x)) (poll wk (br_source r) w)"

definition bufreader_poll_close ::
    "(waker \<Rightarrow> 's \<Rightarrow> 'w \<Rightarrow> panic + ('res \<times> 's \<times> 'x)) \<Rightarrow> waker \<Rightarrow> ('s, 'b, 'f, 'a) buf_reader \<Rightarrow> 'w \<Rightarrow>
      panic + ('res \<times> ('s, 'b, 'f, 'a) buf_reader \<times> 'x)" where
  "bufreader_poll_close poll wk r w = mapR (\<lambda>(res, s, x). (res, r\<lparr>br_source := s\<rparr>, x)) (poll wk (br_source r) w)"

subsection \<open>BufStream, FixedBufStream and ShareBufStream\<close>

type_synonym ('s, 'b, 'f, 'a, 'c, 'g, 'd) duplex = "(('s, 'b, 'f, 'a) buf_reader, 'c, 'g, 'd) buf_writer"

definition buf_stream_new :: "ptr \<Rightarrow> ptr \<Rightarrow> 's \<Rightarrow> 's box_reader box_writer" where
  "buf_stream_new mem_w mem_r s = bufwriter_new mem_w (bufreader_new mem_r s)"

definition fixed_buf_stream_new ::
    "('u, 't) env \<Rightarrow> ptr \<Rightarrow> ptr \<Rightarrow> 's \<Rightarrow> ('u, 't) ring cell \<Rightarrow>
      panic + ((io_error + 's fixed_buf_reader fixed_buf_writer) \<times> ('u, 't) ring cell)" where
  "fixed_buf_stream_new E mem_w mem_r s c =
     bindR (bufreader_fix E (bufreader_new mem_r s) c) (\<lambda>(res, c').
     case res of
       Inl e \<Rightarrow> Inr (Inl e, c')
     | Inr r \<Rightarrow> bufwriter_fix E (bufwriter_new mem_w r) c')"

definition share_buf_stream_new :: "'s \<Rightarrow> share_group \<Rightarrow> 's group_buf_reader group_buf_writer" where
  "share_buf_stream_new s g = share_supply_to g s"

definition stream_poll_read ::
    "'b stable_buffer \<Rightarrow> ('s, 'b, 'f, 'a, 'w) reader_adapter \<Rightarrow> waker \<Rightarrow> u8 list \<Rightarrow> ('s, 'b, 'f, 'a, 'c, 'g, 'd) duplex \<Rightarrow> 'w \<Rightarrow>
      panic + ((io_error + usize) poll \<times> ('s, 'b, 'f, 'a, 'c, 'g, 'd) duplex \<times> 'w \<times> u8 list)" where
  "stream_poll_read D A wk buf r w = bufwriter_poll_read (reader_poll_read D A) wk buf r w"

definition stream_poll_fill_buf ::
    "'b stable_buffer \<Rightarrow> ('s, 'b, 'f, 'a, 'w) reader_adapter \<Rightarrow> waker \<Rightarrow> ('s, 'b, 'f, 'a, 'c, 'g, 'd) duplex \<Rightarrow> 'w \<Rightarrow>
      panic + ((io_error + u8 list) poll \<times> ('s, 'b, 'f, 'a, 'c, 'g, 'd) duplex \<times> 'w)" where
  "stream_poll_fill_buf D A wk r w = bufwriter_poll_fill_buf (poll_fill_buf D A) wk r w"

definition stream_consume ::
    "('s, 'b, 'f, 'a, 'w) reader_adapter \<Rightarrow> usize \<Rightarrow> ('s, 'b, 'f, 'a, 'c, 'g, 'd) duplex \<Rightarrow> 'w \<Rightarrow>
      panic + (('s, 'b, 'f, 'a, 'c, 'g, 'd) duplex \<times> 'w)" where
  "stream_consume A amt r w = bufwriter_consume (reader_consume A) amt r w"

definition stream_poll_write ::
    "'c stable_buffer \<Rightarrow> (('s, 'b, 'f, 'a) buf_reader, 'c, 'g, 'd, 'w) writer_adapter \<Rightarrow> nat \<Rightarrow> waker \<Rightarrow> u8 list \<Rightarrow>
      ('s, 'b, 'f, 'a, 'c, 'g, 'd) duplex \<Rightarrow> 'w \<Rightarrow>
      (panic + ((io_error + usize) poll \<times> ('s, 'b, 'f, 'a, 'c, 'g, 'd) duplex \<times> 'w)) option" where
  "stream_poll_write D A n wk buf r w = writer_poll_write D A n wk buf r w"

definition stream_poll_flush ::
    "(('s, 'b, 'f, 'a) buf_reader, 'c, 'g, 'd, 'w) writer_adapter \<Rightarrow> waker \<Rightarrow> ('s, 'b, 'f, 'a, 'c, 'g, 'd) duplex \<Rightarrow> 'w \<Rightarrow>
      panic + ((io_error + unit) poll \<times> ('s, 'b, 'f, 'a, 'c, 'g, 'd) duplex \<times> 'w)" where
  "stream_poll_flush A wk r w = writer_poll_flush A wk r w"

definition stream_poll_close ::
    "('s, 'b, 'f, 'a, 'c, 'g, 'd) duplex \<Rightarrow> 'w \<Rightarrow>
      panic + ((io_error + unit) poll \<times> ('s, 'b, 'f, 'a, 'c, 'g, 'd) duplex \<times> 'w)" where
  "stream_poll_close r w = writer_poll_close r w"

end
