(* ===== verification/ShareBuild.thy ===== *)
theory ShareBuild
  imports Adapters Async
begin

section \<open>Building shared sets (inel/src/group.rs)\<close>

text \<open>
  \<open>with_buffers\<close> collects the operations that provide a set's buffers into a
  \<open>FuturesUnordered\<close> and drives it with \<open>for_each_concurrent\<close>, both of the crate \<open>futures\<close>: the
  parameter \<open>drive\<close>, given the limit and the futures. \<open>rc\<close> is the address of the new \<open>Rc\<close>,
  \<open>this\<close> and \<open>mem\<close> are those of the pinned operations and of the boxes. The write sets are in a
  store of their own, so what \<open>build\<close> does to them is the function it resolves to.
\<close>

definition read_set_with_buffers ::
    "('u, 't) env \<Rightarrow> 's gslab \<Rightarrow>
      (nat \<Rightarrow> ('s groups \<times> ('u, 't) ring cell, io_error + unit) fut list \<Rightarrow> ('s groups \<times> ('u, 't) ring cell, unit) fut) \<Rightarrow>
      ptr \<Rightarrow> (nat \<Rightarrow> ptr) \<Rightarrow> (nat \<Rightarrow> ptr) \<Rightarrow> u16 \<Rightarrow> usize \<Rightarrow>
      ('s groups \<times> ('u, 't) ring cell, io_error + read_buffer_set) fut" where
  "read_set_with_buffers E sl drive rc this mem k capacity =
     fut_try (fut_do (read_set_empty sl rc)) (\<lambda>rs.
     fut_bind (drive PROVIDE_BATCH_SIZE (map (await E (provide_buffer_op sl)) (read_set_provides this mem k capacity rs)))
       (\<lambda>_. fut_return (Inr rs)))"

definition share_build ::
    "('u, 't) env \<Rightarrow> 's gslab \<Rightarrow>
      (nat \<Rightarrow> ('s groups \<times> ('u, 't) ring cell, io_error + unit) fut list \<Rightarrow> ('s groups \<times> ('u, 't) ring cell, unit) fut) \<Rightarrow>
      ptr \<Rightarrow> ptr \<Rightarrow> (nat \<Rightarrow> ptr) \<Rightarrow> (nat \<Rightarrow> ptr) \<Rightarrow> (nat \<Rightarrow> ptr) \<Rightarrow> share_options \<Rightarrow>
      ('s groups \<times> ('u, 't) ring cell, io_error + (write_sets \<Rightarrow> share_group \<times> write_sets)) fut" where
  "share_build E sl drive rc rc_w this mem mem_w o' =
     fut_try (read_set_with_buffers E sl drive rc this mem (so_reads o') (so_capacity o')) (\<lambda>rs.
     fut_return (Inr (\<lambda>w.
       let (ws, w') = write_set_with_buffers rc_w mem_w (so_writes o') (so_capacity o') w
       in (\<lparr>sg_read = rs, sg_write = ws\<rparr>, w'))))"

definition share_new ::
    "('u, 't) env \<Rightarrow> 's gslab \<Rightarrow>
      (nat \<Rightarrow> ('s groups \<times> ('u, 't) ring cell, io_error + unit) fut list \<Rightarrow> ('s groups \<times> ('u, 't) ring cell, unit) fut) \<Rightarrow>
      ptr \<Rightarrow> ptr \<Rightarrow> (nat \<Rightarrow> ptr) \<Rightarrow> (nat \<Rightarrow> ptr) \<Rightarrow> (nat \<Rightarrow> ptr) \<Rightarrow>
      ('s groups \<times> ('u, 't) ring cell, io_error + (write_sets \<Rightarrow> share_group \<times> write_sets)) fut" where
  "share_new E sl drive rc rc_w this mem mem_w = share_build E sl drive rc rc_w this mem mem_w share_options_default"

end
