(* ===== verification/ShareProps.thy ===== *)
theory ShareProps
  imports Share ReactorProps
begin

section \<open>Shared buffers and the lives of operations\<close>

text \<open>
  Where the buffers of a shared set are: given to the kernel under an id, taken back by the
  read that used it, or recycled after a cancelled read; registered buffers, whose slot and
  memory are returned together; and the two ways the code loses a multi-shot operation.
\<close>

subsection \<open>Buffer groups\<close>

context group_slab
begin

lemma insert_puts:
  assumes g: "w rc = Some g" "valid (rg_buffers g)" "sl_len sl (rg_buffers g) < 2 ^ 32"
    and i: "read_set_insert E sl this \<lparr>rbs_inner = rc\<rparr> b (w, c) = Inr st'"
  shows "\<exists>g'. fst st' = w(rc \<mapsto> g') \<and> valid (rg_buffers g') \<and> rg_id g' = rg_id g \<and>
    rg_cancelled g' = rg_cancelled g \<and> sl_len sl (rg_buffers g') = Suc (sl_len sl (rg_buffers g)) \<and>
    ran (group_map sl g') = insert b (ran (group_map sl g))"
proof -
  obtain k s' where k: "sl_insert sl b (rg_buffers g) = (k, s')" by fastforce
  let ?g = "g\<lparr>rg_buffers := s'\<rparr>"
  have "fst st' = w(rc \<mapsto> ?g)"
    using i g k by (auto simp: read_set_insert_def run_detached_def provide_buffer_op_def provide_buffer_new_def
        provide_buffer_entry_def at_group_def group_put_def mapR_Inr_iff bindR_Inr_iff)
  moreover have "ran (group_map sl ?g) = insert b (ran (group_map sl g))"
    using insert_fresh [OF g(2) k] get_insert [OF g(2) k] by (simp add: group_map_def)
  ultimately show ?thesis
    using insert_small [OF g(2) k g(3)] len_insert [OF g(2,3) k] by (intro exI [of _ ?g]) simp
qed

lemma recycle_all:
  assumes "read_set_recycle E sl this rs st = Inr st'" "fst st (rbs_inner rs) = Some g" "valid (rg_buffers g)"
    and "sl_len sl (rg_buffers g) + length (rg_cancelled g) < 2 ^ 32"
  shows "\<exists>g'. fst st' = (fst st)(rbs_inner rs \<mapsto> g') \<and> valid (rg_buffers g') \<and> rg_id g' = rg_id g \<and>
    rg_cancelled g' = [] \<and> sl_len sl (rg_buffers g') = sl_len sl (rg_buffers g) + length (rg_cancelled g) \<and>
    ran (group_map sl g') = ran (group_map sl g) \<union> set (rg_cancelled g)"
  using assms
proof (induction "length (rg_cancelled g)" arbitrary: st g)
  case 0
  then have "pop_cancelled (rbs_inner rs) (fst st) = Inr (None, (fst st)(rbs_inner rs \<mapsto> g))"
    by (simp add: pop_cancelled_def at_group_def group_get_cancelled_def vec_pop_def)
  then show ?case using 0 by (auto simp: read_set_recycle.simps [of E sl this rs st])
next
  case (Suc n)
  let ?rc = "rbs_inner rs"
  obtain b xs where b: "rg_cancelled g = xs @ [b]"
    using Suc(2) by (cases "rg_cancelled g" rule: rev_cases) auto
  let ?g1 = "g\<lparr>rg_cancelled := xs\<rparr>" and ?w1 = "(fst st)(rbs_inner rs \<mapsto> g\<lparr>rg_cancelled := xs\<rparr>)"
  have pop: "pop_cancelled ?rc (fst st) = Inr (Some b, ?w1)"
    using Suc(4) b by (simp add: pop_cancelled_def at_group_def group_get_cancelled_def vec_pop_def)
  have rs: "\<lparr>rbs_inner = rbs_inner rs\<rparr> = rs" by simp
  obtain st1 where ins: "read_set_insert E sl this rs b (?w1, snd st) = Inr st1"
    and rec: "read_set_recycle E sl this rs st1 = Inr st'"
    using Suc(3) pop by (auto simp: read_set_recycle.simps [of E sl this rs st] split: sum.splits)
  from insert_puts [of ?w1 ?rc ?g1 E this b "snd st" st1] ins Suc(5,6) b obtain g2 where
    g2: "fst st1 = ?w1(?rc \<mapsto> g2)" "valid (rg_buffers g2)" "rg_id g2 = rg_id g" "rg_cancelled g2 = xs"
      "sl_len sl (rg_buffers g2) = Suc (sl_len sl (rg_buffers g))"
      "ran (group_map sl g2) = insert b (ran (group_map sl g))"
    unfolding rs by (auto simp: group_map_def)
  have "n = length (rg_cancelled g2)" using Suc(2) b g2(4) by simp
  from Suc(1) [OF this rec _ g2(2)] g2 Suc(6) b show ?case by auto
qed

end


definition small_box :: "ptr \<Rightarrow> u8 boxed_slice" where
  "small_box p = \<lparr>bs_ptr = p, bs_data = [0, 0]\<rparr>"

definition sample_group :: "u8 boxed_slice option list read_group" where
  "sample_group = \<lparr>rg_id = BufferGroupId (SlotKey 0), rg_buffers = [None, Some (small_box 64)],
     rg_cancelled = [small_box 96, small_box 128]\<rparr>"

lemmas group_eval = read_set_insert_def run_detached_def provide_buffer_op_def provide_buffer_new_def provide_buffer_entry_def
  pop_cancelled_def at_group_def group_put_def group_get_cancelled_def sample_group_def small_box_def vec_pop_def
  reactor_submit_detached_def ring_submit_detached_def



text \<open>C34: A buffer given to the kernel comes back: the entry \<open>ProvideBuffer\<close> submits names the
  buffer's memory, its length and an id, and a \<open>ReadGroup\<close> that the kernel completes with
  that id yields exactly this buffer and leaves the group as it was.\<close>

theorem provided_buffers_come_back:
  assumes "group_slab sl valid" and "w rc = Some g" and "valid (rg_buffers g)"
    and "fst (sl_insert sl b (rg_buffers g)) < 2 ^ 16" and "sl_len sl (rg_buffers g) < 2 ^ 32"
    and "provide_buffer_entry sl this (provide_buffer_new rc b) w = Inr (e, q, w')"
  shows "\<exists>i. sq_op e = OpProvideBuffers (At (bs_ptr b)) (of_nat (length (bs_data b))) 1 (buffer_group_id_index (rg_id g)) i \<and>
    (\<forall>res src. buffer_id cq res = Some i \<longrightarrow>
      (\<exists>g'. group_map sl g' = group_map sl g \<and> rg_cancelled g' = rg_cancelled g \<and> rg_id g' = rg_id g \<and>
        read_group_result cq sl (read_group_new as_src src rc) res w' =
          mapR (\<lambda>n. ((Some b, n), w(rc \<mapsto> g'))) (expect_positive res)))"
proof -
  obtain k s' where ks: "sl_insert sl b (rg_buffers g) = (k, s')" by fastforce
  let ?i = "fst (group_put sl b g)" and ?g = "snd (group_put sl b g)"
  have put: "unat ?i = k" "group_map sl g k = None" "group_map sl ?g = (group_map sl g)(k \<mapsto> b)" "valid (rg_buffers ?g)"
    using group_slab.put_fresh [OF assms(1,3) ks _ assms(5)] assms(4) ks by auto
  have same: "rg_id ?g = rg_id g" "rg_cancelled ?g = rg_cancelled g" by (simp_all add: group_put_def split_beta)
  have w': "w' = w(rc \<mapsto> ?g)"
    and op: "sq_op e = OpProvideBuffers (At (bs_ptr b)) (of_nat (length (bs_data b))) 1 (buffer_group_id_index (rg_id g)) ?i"
    using assms(2,6) same
    by (auto simp: provide_buffer_entry_def provide_buffer_new_def at_group_def split_beta sqe_build_def boxed_slice_buffer_def)
  have "group_map sl ?g (unat ?i) = Some b" by (simp add: put)
  from group_slab.take_present [OF assms(1) put(4) this] obtain g' where
    t: "group_take sl ?i ?g = Inr (b, g')" "group_map sl g' = (group_map sl ?g)(unat ?i := None)"
      "rg_cancelled g' = rg_cancelled g" "rg_id g' = rg_id g"
    using same by auto
  have "group_map sl g' = group_map sl g" using t(2) put(1-3) by auto
  moreover have "read_group_result cq sl (read_group_new as_src src rc) res w' =
      mapR (\<lambda>n. ((Some b, n), w(rc \<mapsto> g'))) (expect_positive res)" if "buffer_id cq res = Some ?i" for res src
    using that t(1) by (simp add: w' read_group_result_def read_group_new_def at_group_def taken_buffer_def)
  ultimately show ?thesis using op t(3,4) by blast
qed

theorem provided_buffers_come_back_witness:
  "\<exists>g'. read_group_result cq_abi vec_slab (read_group_new as_source_fd 3 9) \<lparr>ret = 2, flags = 1\<rparr>
      [9 \<mapsto> sample_group\<lparr>rg_buffers := [Some (small_box 96), Some (small_box 64)]\<rparr>] =
      Inr ((Some (small_box 96), Inr 2), [9 \<mapsto> g']) \<and> group_map vec_slab g' = group_map vec_slab sample_group"
proof -
  obtain e q where e: "provide_buffer_entry vec_slab 500 (provide_buffer_new 9 (small_box 96)) [9 \<mapsto> sample_group] =
      Inr (e, q, [9 \<mapsto> sample_group\<lparr>rg_buffers := [Some (small_box 96), Some (small_box 64)]\<rparr>])"
    "sq_op e = OpProvideBuffers (At 96) 2 1 0 0"
    by (simp add: group_eval vec_slab_def vec_insert_def sqe_build_def boxed_slice_buffer_def buffer_group_id_index_def)
  have id: "buffer_id cq_abi \<lparr>ret = 2, flags = 1\<rparr> = Some 0" by (simp add: buffer_id_def cq_abi_def)
  have pre: "vec_valid (rg_buffers sample_group)" "fst (sl_insert vec_slab (small_box 96) (rg_buffers sample_group)) < 2 ^ 16"
    "sl_len vec_slab (rg_buffers sample_group) < 2 ^ 32"
    by (simp_all add: sample_group_def vec_slab_def vec_insert_def vec_len_def vec_valid_def)
  have r: "expect_positive \<lparr>ret = 2, flags = 1\<rparr> = Inr (Inr 2)" by (simp add: expect_positive_def word_sless_alt)
  from provided_buffers_come_back [OF vec_group.group_slab_axioms fun_upd_same pre e(1), of cq_abi as_source_fd] e(2) id
  obtain g' where "group_map vec_slab g' = group_map vec_slab sample_group"
    "read_group_result cq_abi vec_slab (read_group_new as_source_fd 3 9) \<lparr>ret = 2, flags = 1\<rparr>
      [9 \<mapsto> sample_group\<lparr>rg_buffers := [Some (small_box 96), Some (small_box 64)]\<rparr>] =
      mapR (\<lambda>n. ((Some (small_box 96), n), [9 \<mapsto> g'])) (expect_positive \<lparr>ret = 2, flags = 1\<rparr>)"
    by fastforce
  then show ?thesis by (intro exI [of _ g']) (simp add: r)
qed

subsection \<open>Registered buffers\<close>

text \<open>C35: A registered buffer gives back what it took: \<open>Fixed::register\<close> takes one slot no one
  else has and tells the kernel the memory of exactly that buffer, and dropping the value,
  whatever happened to the other slots in between, returns that slot alone and frees the
  memory once.\<close>

theorem registered_buffers_return_their_slot:
  fixes E :: "('u, 't) env" and r :: "('u, 't) ring"
  assumes "sr_inv (fixed_buffers r)" and "fixed_register E b (Ready r) = Inr (Inr f, c)"
  shows "\<exists>r' slot. c = Ready r' \<and> f = \<lparr>fx_inner = Some b, fx_slot = slot\<rparr> \<and> sr_inv (fixed_buffers r') \<and>
    slot \<notin> sr_live wrap_buffer_slot (fixed_buffers r) \<and>
    sr_live wrap_buffer_slot (fixed_buffers r') = insert slot (sr_live wrap_buffer_slot (fixed_buffers r)) \<and>
    ur_register_buffers_update (env_ur E) (buffer_slot_index slot) [(bs_ptr b, length (bs_data b))] (uring r) = Inr (uring r') \<and>
    (\<forall>r1 :: ('u, 't) ring. sr_inv (fixed_buffers r1) \<and> slot \<in> sr_live wrap_buffer_slot (fixed_buffers r1) \<longrightarrow>
      (\<exists>r2. fixed_drop f (Ready r1) = Inr (Ready r2, slice_release b) \<and> sr_inv (fixed_buffers r2) \<and>
        sr_live wrap_buffer_slot (fixed_buffers r2) = sr_live wrap_buffer_slot (fixed_buffers r1) - {slot} \<and>
        uring r2 = uring r1 \<and> completions r2 = completions r1))"
proof -
  obtain slot sr' u where s: "sr_get wrap_buffer_slot (fixed_buffers r) = Some (slot, sr')"
    and u: "ur_register_buffers_update (env_ur E) (buffer_slot_index slot) [(bs_ptr b, length (bs_data b))] (uring r) = Inr u"
    and f: "f = \<lparr>fx_inner = Some b, fx_slot = slot\<rparr>" "c = Ready (r\<lparr>fixed_buffers := sr', uring := u\<rparr>)"
    using assms(2)
    by (auto simp: fixed_register_def register_buffer_Ready ring_register_buffer_def mapR_Inr_iff boxed_slice_buffer_def Let_def
        split: option.splits sum.splits)
  have "\<exists>r2. fixed_drop f (Ready r1) = Inr (Ready r2, slice_release b) \<and> sr_inv (fixed_buffers r2) \<and>
      sr_live wrap_buffer_slot (fixed_buffers r2) = sr_live wrap_buffer_slot (fixed_buffers r1) - {slot} \<and>
      uring r2 = uring r1 \<and> completions r2 = completions r1"
    if "sr_inv (fixed_buffers r1)" "slot \<in> sr_live wrap_buffer_slot (fixed_buffers r1)" for r1 :: "('u, 't) ring"
    using buffer_pool.pool.put_live [OF that]
    by (simp add: fixed_drop_def f(1) reactor_unregister_buffer_def ring_unregister_buffer_def)
  then show ?thesis
    using f u buffer_pool.pool.get_Some [OF assms(1) s]
    by (intro exI [of _ "r\<lparr>fixed_buffers := sr', uring := u\<rparr>"] exI [of _ slot]) simp
qed

lemma sample_registers:
  "fixed_register (script_env []) (small_box 64) (Ready (idle_ring [])) =
    Inr (Inr \<lparr>fx_inner = Some (small_box 64), fx_slot = BufferSlot (SlotKey 0)\<rparr>,
      Ready ((idle_ring [])\<lparr>fixed_buffers := (fixed_buffers (idle_ring []))\<lparr>sr_len := 1\<rparr>\<rparr>))"
  by (simp add: fixed_register_def register_buffer_Ready ring_register_buffer_def idle_ring_def new_ring_def sr_get_def
      sr_new_def default_options_def wrap_buffer_slot_def script_env_def script_uring_def vec_pop_def Let_def)

theorem registered_buffers_return_their_slot_witness:
  "\<exists>r'. fixed_register (script_env []) (small_box 64) (Ready (idle_ring [])) =
      Inr (Inr \<lparr>fx_inner = Some (small_box 64), fx_slot = BufferSlot (SlotKey 0)\<rparr>, Ready r') \<and>
    sr_live wrap_buffer_slot (fixed_buffers r') = {BufferSlot (SlotKey 0)} \<and>
    (\<exists>r2. fixed_drop \<lparr>fx_inner = Some (small_box 64), fx_slot = BufferSlot (SlotKey 0)\<rparr> (Ready r') =
       Inr (Ready r2, slice_release (small_box 64)) \<and> sr_live wrap_buffer_slot (fixed_buffers r2) = {})"
proof -
  have new: "sr_inv (fixed_buffers (idle_ring []))" "sr_live wrap_buffer_slot (fixed_buffers (idle_ring [])) = {}"
    by (simp_all add: idle_ring_def new_ring_def sr_inv_new)
  from registered_buffers_return_their_slot [OF new(1) sample_registers] show ?thesis
    unfolding sample_registers new(2) by fastforce
qed

subsection \<open>Multi-shot operations\<close>

text \<open>C36: A cancelled multi-shot operation is let go too early: when the kernel posts a completion
  for it that announces more, \<open>notify\<close> drops what the kernel still uses and forgets the
  operation, and the next completion of the same operation panics with an unexpected key.\<close>

theorem cancelled_multishot_is_freed_early:
  assumes "slab sl valid" and "cs_inv sl valid s" and "cs_abs sl s key = Some (Gone d)" and "has_more cq res"
  shows "\<exists>s'. cs_notify cq sl key res s = Inr ((), s', cancel_consume d res @ drop_raw d) \<and> cs_abs sl s' key = None \<and>
    cs_notify cq sl key res' s' = Inl UnexpectedKey"
proof -
  from completion_slab.notify_refines [OF completion_slab.intro [OF assms(1)] assms(2,3), of cq res]
  obtain s' where s': "cs_notify cq sl key res s = Inr ((), s', cancel_consume d res @ drop_raw d)"
    "cs_abs sl s' = (cs_abs sl s)(key := None)"
    by (auto simp: expects_more_def)
  then have "cs_notify cq sl key res' s' = Inl UnexpectedKey"
    unfolding cs_notify_def by (intro completion_slab.unknown_key [OF completion_slab.intro [OF assms(1)]]) simp
  with s' show ?thesis by auto
qed

definition cancelled_set :: "completion option list completion_set" where
  "cancelled_set = \<lparr>slab_of = [Some (Cancelled (cancel_from_boxed_slice (small_box 64)))], rqueues = rq_with_capacity 4\<rparr>"

theorem cancelled_multishot_is_freed_early_witness:
  "\<exists>s'. cs_notify cq_abi vec_slab (Key 0) \<lparr>ret = 7, flags = 2\<rparr> cancelled_set = Inr ((), s', slice_release (small_box 64)) \<and>
    cs_notify cq_abi vec_slab (Key 0) \<lparr>ret = 8, flags = 0\<rparr> s' = Inl UnexpectedKey"
proof -
  let ?c = "Cancelled (cancel_from_boxed_slice (small_box 64))"
  have g: "sl_get vec_slab (slab_of cancelled_set) = [0 \<mapsto> ?c]"
    by (auto simp: vec_slab_def vec_get_def cancelled_set_def fun_eq_iff)
  have "cs_ok (update (\<lambda>_. None) 0 ?c) (rq_with_capacity 4)"
    using cs_ok_update_plain [OF cs_ok_empty, of 0 ?c] by (simp add: held_def)
  then have "cs_inv vec_slab vec_valid cancelled_set"
    by (simp only: cs_inv_def g) (simp add: cancelled_set_def vec_valid_def update_def)
  moreover have "cs_abs vec_slab cancelled_set (Key 0) = Some (Gone (cancel_from_boxed_slice (small_box 64)))"
    by (simp add: cs_abs_def abs_map_def g key_as_usize_def abs_comp_def)
  moreover have "has_more cq_abi \<lparr>ret = 7, flags = 2\<rparr>" by (simp add: has_more_def cq_abi_def)
  ultimately show ?thesis
    using cancelled_multishot_is_freed_early [OF vec.slab_axioms] by (fastforce simp: cancel_from_boxed_slice_def cancel_consume_def slice_release_def)
qed

text \<open>C37: A multi-shot operation polled as a future breaks: a completion that announces more
  resolves the future and moves the operation out, but leaves the submission submitted, so
  the next result, and dropping the submission, take the operation a second time.\<close>

theorem multishot_polled_as_future_breaks:
  assumes "sub_state s = Submitted k" and "sub_op s = Some q"
    and "reactor_check_result E k (snd st) = Inr (Some res, c)" and "has_more (env_cq E) res"
    and "op_result T q res (fst st) = Inr (out, w)"
    and "reactor_check_result E k c1 = Inr (Some res1, c2)"
  shows "\<exists>s'. submission_poll E T wk s st = Inr (PollReady out, s', w, c) \<and>
    submission_poll E T wk1 s' (w1, c1) = Inl UseAfterMove \<and> submission_drop E T s' c1 = Inl UseAfterMove"
  using assms
  by (auto simp: submission_poll_def state_take_def state_update_def manually_take_def submission_drop_def
      submission_cancel_def Let_def)

definition multi_ring :: "(script_kernel, completion option list) ring" where
  "multi_ring = (idle_ring [])\<lparr>completions :=
     \<lparr>slab_of = [Some (Multiple 3 (QueueHandle 3) True)],
      rqueues = \<lparr>queues = [[], [], [], [\<lparr>ret = 4, flags = 2\<rparr>, \<lparr>ret = 6, flags = 2\<rparr>]], unused = map QueueHandle [0, 1, 2]\<rparr>\<rparr>\<rparr>"

definition multi_sub :: "read_group_multi submission" where
  "multi_sub = \<lparr>sub_op = Some (read_group_multi_new as_source_fd 5 9), sub_state = Submitted (Key 0), sub_at = 100\<rparr>"

lemma multi_run:
  "\<exists>c c2. reactor_check_result (script_env []) (Key 0) (Ready multi_ring) = Inr (Some \<lparr>ret = 4, flags = 2\<rparr>, c) \<and>
    reactor_check_result (script_env []) (Key 0) c = Inr (Some \<lparr>ret = 6, flags = 2\<rparr>, c2)"
  by (simp add: run_eval multi_ring_def rq_pop_front_def rq_get_def rq_modify_def handle_index_def)

theorem multishot_polled_as_future_breaks_witness:
  "\<exists>s' st1. submission_poll (script_env []) (read_group_multi_ops cq_abi vec_slab) 3 multi_sub
      ([9 \<mapsto> sample_group], Ready multi_ring) = Inr (PollReady (None, Inr 4), s', st1) \<and>
    submission_poll (script_env []) (read_group_multi_ops cq_abi vec_slab) 3 s' st1 = Inl UseAfterMove"
proof -
  obtain c c2 where c: "reactor_check_result (script_env []) (Key 0) (Ready multi_ring) = Inr (Some \<lparr>ret = 4, flags = 2\<rparr>, c)"
    "reactor_check_result (script_env []) (Key 0) c = Inr (Some \<lparr>ret = 6, flags = 2\<rparr>, c2)"
    using multi_run by blast
  have more: "has_more (env_cq (script_env [])) \<lparr>ret = 4, flags = 2\<rparr>" by (simp add: has_more_def cq_abi_def script_env_def)
  have out: "op_result (read_group_multi_ops cq_abi vec_slab) (read_group_multi_new as_source_fd 5 9) \<lparr>ret = 4, flags = 2\<rparr>
      [9 \<mapsto> sample_group] = Inr ((None, Inr 4), [9 \<mapsto> sample_group])"
    by (simp add: read_group_multi_ops_def read_group_multi_next_def read_group_multi_new_def at_group_def taken_buffer_def
        buffer_id_def cq_abi_def expect_positive_def word_sless_alt)
  from multishot_polled_as_future_breaks [where s = multi_sub and k = "Key 0" and q = "read_group_multi_new as_source_fd 5 9"
      and st = "([9 \<mapsto> sample_group], Ready multi_ring)" and wk = 3 and ?wk1.0 = 3 and ?w1.0 = "[9 \<mapsto> sample_group]",
      unfolded fst_conv snd_conv, OF _ _ c(1) more out c(2)]
  show ?thesis by (auto simp: multi_sub_def)
qed

end
