(* ===== verification/Compat.thy ===== *)
theory Compat
  imports Streams Net
begin

section \<open>Adapters for hyper, rustls and axum (compat/)\<close>

text \<open>
  The third-party crates are arguments: \<open>accept\<close>, \<open>connect\<close>, \<open>handshake\<close> and the \<open>ha_\<close> and
  \<open>co_\<close> fields are their functions, \<open>poll\<close> the trait method of the inner stream,
  \<open>cursor_api\<close> hyper's \<open>ReadBufCursor\<close>, \<open>filter_map\<close> and \<open>for_each\<close> the combinators of the
  \<open>futures\<close> crate. \<open>crate::spawn\<close> hands a future to the executor (\<open>executor_spawn\<close>); a future
  is a function of the state here, so the executor's table cannot be part of the state, and
  \<open>rt_spawn\<close> and \<open>rt_forget\<close> (dropping the join handle) are arguments too. \<open>Arc\<close>, cloning
  and logging are left out.
\<close>

record ('f, 'w) runtime_api =
  rt_spawn :: "'f \<Rightarrow> 'w \<Rightarrow> panic + (nat \<times> 'w)"
  rt_forget :: "nat \<Rightarrow> 'w \<Rightarrow> panic + 'w"

definition spawn_detached :: "('f, 'w) runtime_api \<Rightarrow> 'f \<Rightarrow> 'w \<Rightarrow> panic + 'w" where
  "spawn_detached X f w = bindR (rt_spawn X f w) (\<lambda>(c, w'). rt_forget X c w')"

subsection \<open>rustls.rs\<close>

record 'a tls_acceptor =
  ta_inner :: 'a

record 'a tls_connector =
  tc_inner :: 'a

record 't tls_stream =
  tls_inner :: 't

definition tls_acceptor_from :: "('cfg \<Rightarrow> 'a) \<Rightarrow> 'cfg \<Rightarrow> 'a tls_acceptor" where
  "tls_acceptor_from from config = \<lparr>ta_inner = from config\<rparr>"

definition tls_connector_from :: "('cfg \<Rightarrow> 'a) \<Rightarrow> 'cfg \<Rightarrow> 'a tls_connector" where
  "tls_connector_from from config = \<lparr>tc_inner = from config\<rparr>"

definition tls_accept ::
    "('a \<Rightarrow> 's \<Rightarrow> ('w, io_error + 'i) fut) \<Rightarrow> ('i \<Rightarrow> 't) \<Rightarrow> 'a tls_acceptor \<Rightarrow> 's \<Rightarrow> ('w, io_error + 't tls_stream) fut" where
  "tls_accept accept server a s = fut_map (mapR (\<lambda>i. \<lparr>tls_inner = server i\<rparr>)) (accept (ta_inner a) s)"

definition tls_connect ::
    "('a \<Rightarrow> 'd \<Rightarrow> 's \<Rightarrow> ('w, io_error + 'i) fut) \<Rightarrow> ('i \<Rightarrow> 't) \<Rightarrow> 'a tls_connector \<Rightarrow> 'd \<Rightarrow> 's \<Rightarrow>
      ('w, io_error + 't tls_stream) fut" where
  "tls_connect connect client a domain s =
     fut_map (mapR (\<lambda>i. \<lparr>tls_inner = client i\<rparr>)) (connect (tc_inner a) domain s)"

definition tls_poll_read ::
    "(waker \<Rightarrow> u8 list \<Rightarrow> 't \<Rightarrow> 'w \<Rightarrow> panic + ('res \<times> 't \<times> 'x)) \<Rightarrow> waker \<Rightarrow> u8 list \<Rightarrow> 't tls_stream \<Rightarrow> 'w \<Rightarrow>
      panic + ('res \<times> 't tls_stream \<times> 'x)" where
  "tls_poll_read poll wk buf r w = mapR (\<lambda>(res, t, x). (res, r\<lparr>tls_inner := t\<rparr>, x)) (poll wk buf (tls_inner r) w)"

definition tls_poll_write ::
    "(waker \<Rightarrow> u8 list \<Rightarrow> 't \<Rightarrow> 'w \<Rightarrow> panic + ('res \<times> 't \<times> 'x)) \<Rightarrow> waker \<Rightarrow> u8 list \<Rightarrow> 't tls_stream \<Rightarrow> 'w \<Rightarrow>
      panic + ('res \<times> 't tls_stream \<times> 'x)" where
  "tls_poll_write poll wk buf r w = mapR (\<lambda>(res, t, x). (res, r\<lparr>tls_inner := t\<rparr>, x)) (poll wk buf (tls_inner r) w)"

definition tls_poll_flush ::
    "(waker \<Rightarrow> 't \<Rightarrow> 'w \<Rightarrow> panic + ('res \<times> 't \<times> 'x)) \<Rightarrow> waker \<Rightarrow> 't tls_stream \<Rightarrow> 'w \<Rightarrow>
      panic + ('res \<times> 't tls_stream \<times> 'x)" where
  "tls_poll_flush poll wk r w = mapR (\<lambda>(res, t, x). (res, r\<lparr>tls_inner := t\<rparr>, x)) (poll wk (tls_inner r) w)"

definition tls_poll_close ::
    "(waker \<Rightarrow> 't \<Rightarrow> 'w \<Rightarrow> panic + ('res \<times> 't \<times> 'x)) \<Rightarrow> waker \<Rightarrow> 't tls_stream \<Rightarrow> 'w \<Rightarrow>
      panic + ('res \<times> 't tls_stream \<times> 'x)" where
  "tls_poll_close poll wk r w = mapR (\<lambda>(res, t, x). (res, r\<lparr>tls_inner := t\<rparr>, x)) (poll wk (tls_inner r) w)"

subsection \<open>hyper.rs\<close>

definition execute :: "('f, 'w) runtime_api \<Rightarrow> 'f \<Rightarrow> 'w \<Rightarrow> panic + 'w" where
  "execute X f w = spawn_detached X f w"

record 's hyper_stream =
  hs_inner :: 's

definition hyper_stream_new :: "'s \<Rightarrow> 's hyper_stream" where
  "hyper_stream_new s = \<lparr>hs_inner = s\<rparr>"

text \<open>The unfilled part of a cursor, filling it in place, and marking bytes of it as filled.\<close>

record 'k cursor_api =
  cu_as_mut :: "'k \<Rightarrow> u8 list"
  cu_store :: "u8 list \<Rightarrow> 'k \<Rightarrow> 'k"
  cu_advance :: "usize \<Rightarrow> 'k \<Rightarrow> panic + 'k"

definition hyper_poll_read ::
    "'k cursor_api \<Rightarrow>
      (waker \<Rightarrow> u8 list \<Rightarrow> 's \<Rightarrow> 'w \<Rightarrow> panic + ((io_error + usize) poll \<times> 's \<times> 'w \<times> u8 list)) \<Rightarrow>
      waker \<Rightarrow> 'k \<Rightarrow> 's hyper_stream \<Rightarrow> 'w \<Rightarrow>
      panic + ((io_error + unit) poll \<times> 's hyper_stream \<times> 'w \<times> 'k)" where
  "hyper_poll_read K poll wk cursor r w =
     bindR (poll wk (cu_as_mut K cursor) (hs_inner r) w) (\<lambda>(res, s, w', buf).
     let cursor' = cu_store K buf cursor; r' = r\<lparr>hs_inner := s\<rparr>
     in case res of
          Pending \<Rightarrow> Inr (Pending, r', w', cursor')
        | PollReady (Inl e) \<Rightarrow> Inr (PollReady (Inl e), r', w', cursor')
        | PollReady (Inr read) \<Rightarrow> mapR (\<lambda>k. (PollReady (Inr ()), r', w', k)) (cu_advance K read cursor'))"

definition hyper_poll_write ::
    "(waker \<Rightarrow> u8 list \<Rightarrow> 's \<Rightarrow> 'w \<Rightarrow> panic + ('res \<times> 's \<times> 'x)) \<Rightarrow> waker \<Rightarrow> u8 list \<Rightarrow> 's hyper_stream \<Rightarrow> 'w \<Rightarrow>
      panic + ('res \<times> 's hyper_stream \<times> 'x)" where
  "hyper_poll_write poll wk buf r w = mapR (\<lambda>(res, s, x). (res, r\<lparr>hs_inner := s\<rparr>, x)) (poll wk buf (hs_inner r) w)"

definition hyper_poll_flush ::
    "(waker \<Rightarrow> 's \<Rightarrow> 'w \<Rightarrow> panic + ('res \<times> 's \<times> 'x)) \<Rightarrow> waker \<Rightarrow> 's hyper_stream \<Rightarrow> 'w \<Rightarrow>
      panic + ('res \<times> 's hyper_stream \<times> 'x)" where
  "hyper_poll_flush poll wk r w = mapR (\<lambda>(res, s, x). (res, r\<lparr>hs_inner := s\<rparr>, x)) (poll wk (hs_inner r) w)"

text \<open>\<open>poll_close\<close> is the close of the inner stream.\<close>

definition hyper_poll_shutdown ::
    "(waker \<Rightarrow> 's \<Rightarrow> 'w \<Rightarrow> panic + ('res \<times> 's \<times> 'x)) \<Rightarrow> waker \<Rightarrow> 's hyper_stream \<Rightarrow> 'w \<Rightarrow>
      panic + ('res \<times> 's hyper_stream \<times> 'x)" where
  "hyper_poll_shutdown poll_close wk r w =
     mapR (\<lambda>(res, s, x). (res, r\<lparr>hs_inner := s\<rparr>, x)) (poll_close wk (hs_inner r) w)"

datatype ('h1, 'h2) hyper_client = ClientHttp1 'h1 | ClientHttp2 'h2

definition handshake_http1 ::
    "('f, 'w) runtime_api \<Rightarrow> ('s hyper_stream \<Rightarrow> ('w, 'e + ('h1 \<times> 'f)) fut) \<Rightarrow> 's \<Rightarrow>
      ('w, 'e + ('h1, 'h2) hyper_client) fut" where
  "handshake_http1 X handshake stream =
     fut_try (handshake (hyper_stream_new stream)) (\<lambda>(sender, connection).
     fut_do (\<lambda>w. mapR (\<lambda>w'. (Inr (ClientHttp1 sender), w')) (spawn_detached X connection w)))"

definition handshake_http2 ::
    "('f, 'w) runtime_api \<Rightarrow> (('f \<Rightarrow> 'w \<Rightarrow> panic + 'w) \<Rightarrow> 's hyper_stream \<Rightarrow> ('w, 'e + ('h2 \<times> 'f)) fut) \<Rightarrow> 's \<Rightarrow>
      ('w, 'e + ('h1, 'h2) hyper_client) fut" where
  "handshake_http2 X handshake stream =
     fut_try (handshake (execute X) (hyper_stream_new stream)) (\<lambda>(sender, connection).
     fut_do (\<lambda>w. mapR (\<lambda>w'. (Inr (ClientHttp2 sender), w')) (spawn_detached X connection w)))"

definition send_request ::
    "('h1 \<Rightarrow> 'q \<Rightarrow> ('w, ('e + 'p) \<times> 'h1) fut) \<Rightarrow> ('h2 \<Rightarrow> 'q \<Rightarrow> ('w, ('e + 'p) \<times> 'h2) fut) \<Rightarrow>
      ('h1, 'h2) hyper_client \<Rightarrow> 'q \<Rightarrow> ('w, ('e + 'p) \<times> ('h1, 'h2) hyper_client) fut" where
  "send_request send1 send2 c req =
     (case c of
        ClientHttp1 sender \<Rightarrow> fut_map (\<lambda>(r, sender'). (r, ClientHttp1 sender')) (send1 sender req)
      | ClientHttp2 sender \<Rightarrow> fut_map (\<lambda>(r, sender'). (r, ClientHttp2 sender')) (send2 sender req))"

definition is_ready ::
    "('h1 \<Rightarrow> bool \<times> 'h1) \<Rightarrow> ('h2 \<Rightarrow> bool \<times> 'h2) \<Rightarrow> ('h1, 'h2) hyper_client \<Rightarrow> bool \<times> ('h1, 'h2) hyper_client" where
  "is_ready ready1 ready2 c =
     (case c of
        ClientHttp1 sender \<Rightarrow> map_prod id ClientHttp1 (ready1 sender)
      | ClientHttp2 sender \<Rightarrow> map_prod id ClientHttp2 (ready2 sender))"

text \<open>What hyper does with a connection of the two protocols; the second gets the executor.\<close>

record ('s, 'svc, 'w) http_api =
  ha_http1 :: "'s hyper_stream \<Rightarrow> 'svc \<Rightarrow> ('w, string + unit) fut"
  ha_http2 :: "(('w, unit) fut \<Rightarrow> 'w \<Rightarrow> panic + 'w) \<Rightarrow> 's hyper_stream \<Rightarrow> 'svc \<Rightarrow> ('w, string + unit) fut"

definition serve_http1 :: "('s, 'svc, 'w) http_api \<Rightarrow> 's \<Rightarrow> 'svc \<Rightarrow> ('w, string + unit) fut" where
  "serve_http1 H stream app = ha_http1 H (hyper_stream_new stream) app"

definition serve_http2 ::
    "(('w, unit) fut, 'w) runtime_api \<Rightarrow> ('s, 'svc, 'w) http_api \<Rightarrow> 's \<Rightarrow> 'svc \<Rightarrow> ('w, string + unit) fut" where
  "serve_http2 X H stream app = ha_http2 H (execute X) (hyper_stream_new stream) app"

end
