(* ===== verification/Axum.thy ===== *)
theory Axum
  imports Compat
begin

section \<open>Serving axum applications (compat/axum.rs)\<close>

text \<open>
  \<open>Serve\<close> is a builder of four choices; a connection goes through them in turn: the buffers
  around the accepted stream, the handshake, the protocol, and then its handler is spawned.
  Streams of three types are served, plain or under TLS: \<open>conn_api\<close> collects what the
  third-party crates do with one of them, \<open>drop_s\<close> drops a stream. \<open>service\<close> is
  \<open>service_fn\<close> with the closure that calls the application.
\<close>

datatype descriptors = Raw | Direct
datatype buffering = Simple | Fixed | Group share_group
datatype 'a tls = NoTls | Rustls "'a tls_acceptor"
datatype http_proto = Http1 | Http2

record 'a serve =
  sv_descriptors :: descriptors
  sv_buffering :: buffering
  sv_security :: "'a tls"
  sv_http :: http_proto

definition serve_default :: "'a serve" where
  "serve_default = \<lparr>sv_descriptors = Raw, sv_buffering = Simple, sv_security = NoTls, sv_http = Http1\<rparr>"

definition serve_builder :: "'a serve" where
  "serve_builder = serve_default"

definition with_direct_descriptors :: "'a serve \<Rightarrow> 'a serve" where
  "with_direct_descriptors sv = sv\<lparr>sv_descriptors := Direct\<rparr>"

definition with_fixed_buffers :: "'a serve \<Rightarrow> 'a serve" where
  "with_fixed_buffers sv = sv\<lparr>sv_buffering := Fixed\<rparr>"

definition with_shared_buffers :: "share_group \<Rightarrow> 'a serve \<Rightarrow> 'a serve" where
  "with_shared_buffers share sv = sv\<lparr>sv_buffering := Group share\<rparr>"

definition with_tls :: "('cfg \<Rightarrow> 'a) \<Rightarrow> 'cfg \<Rightarrow> 'a serve \<Rightarrow> 'a serve" where
  "with_tls from config sv = sv\<lparr>sv_security := Rustls (tls_acceptor_from from config)\<rparr>"

definition with_http2 :: "'a serve \<Rightarrow> 'a serve" where
  "with_http2 sv = sv\<lparr>sv_http := Http2\<rparr>"

subsection \<open>One connection\<close>

record ('s, 'a, 'i, 't, 'svc, 'w) conn_api =
  co_plain :: "('s, 'svc, 'w) http_api"
  co_tls :: "('t tls_stream, 'svc, 'w) http_api"
  co_accept :: "'a \<Rightarrow> 's \<Rightarrow> ('w, io_error + 'i) fut"
  co_server :: "'i \<Rightarrow> 't"

definition handle_http1 :: "('s, 'svc, 'w) http_api \<Rightarrow> ('app \<Rightarrow> 'svc) \<Rightarrow> 's \<Rightarrow> 'app \<Rightarrow> ('w, unit) fut" where
  "handle_http1 H service stream app = fut_map (\<lambda>_. ()) (serve_http1 H stream (service app))"

definition handle_http2 ::
    "(('w, unit) fut, 'w) runtime_api \<Rightarrow> ('s, 'svc, 'w) http_api \<Rightarrow> ('app \<Rightarrow> 'svc) \<Rightarrow> 's \<Rightarrow> 'app \<Rightarrow> ('w, unit) fut" where
  "handle_http2 X H service stream app = fut_map (\<lambda>_. ()) (serve_http2 X H stream (service app))"

definition with_stream ::
    "(('w, unit) fut, 'w) runtime_api \<Rightarrow> ('s, 'svc, 'w) http_api \<Rightarrow> ('app \<Rightarrow> 'svc) \<Rightarrow> 'a serve \<Rightarrow> 's \<Rightarrow> 'app \<Rightarrow>
      ('w, unit) fut" where
  "with_stream X H service sv stream app =
     fut_do (\<lambda>w. mapR (Pair ()) (spawn_detached X
       (case sv_http sv of
          Http1 \<Rightarrow> handle_http1 H service stream app
        | Http2 \<Rightarrow> handle_http2 X H service stream app) w))"

definition with_raw_stream ::
    "(('w, unit) fut, 'w) runtime_api \<Rightarrow> ('s, 'a, 'i, 't, 'svc, 'w) conn_api \<Rightarrow> ('app \<Rightarrow> 'svc) \<Rightarrow> 'a serve \<Rightarrow> 's \<Rightarrow> 'app \<Rightarrow>
      ('w, unit) fut" where
  "with_raw_stream X C service sv stream app =
     (case sv_security sv of
        NoTls \<Rightarrow> with_stream X (co_plain C) service sv stream app
      | Rustls acceptor \<Rightarrow>
          fut_bind (tls_accept (co_accept C) (co_server C) acceptor stream) (\<lambda>r.
          case r of
            Inl _ \<Rightarrow> fut_return ()
          | Inr tls_stream \<Rightarrow> with_stream X (co_tls C) service sv tls_stream app))"

text \<open>The closure of \<open>for_each\<close>; \<open>mem_w\<close> and \<open>mem_r\<close> are the addresses of the new boxes.\<close>

definition serve_stream ::
    "('u, 't) env \<Rightarrow> (('v \<times> ('u, 't) ring cell, unit) fut, 'v \<times> ('u, 't) ring cell) runtime_api \<Rightarrow>
      ('s box_reader box_writer, 'a, 'i, 'k, 'svc, 'v \<times> ('u, 't) ring cell) conn_api \<Rightarrow>
      ('s fixed_buf_reader fixed_buf_writer, 'a, 'j, 'l, 'svc, 'v \<times> ('u, 't) ring cell) conn_api \<Rightarrow>
      ('s group_buf_reader group_buf_writer, 'a, 'h, 'm, 'svc, 'v \<times> ('u, 't) ring cell) conn_api \<Rightarrow>
      ('s \<Rightarrow> 'v \<times> ('u, 't) ring cell \<Rightarrow> panic + ('v \<times> ('u, 't) ring cell)) \<Rightarrow> ('app \<Rightarrow> 'svc) \<Rightarrow> ptr \<Rightarrow> ptr \<Rightarrow>
      'a serve \<Rightarrow> 'app \<Rightarrow> 's \<Rightarrow> ('v \<times> ('u, 't) ring cell, unit) fut" where
  "serve_stream E X CB CF CG drop_s service mem_w mem_r sv app stream =
     (case sv_buffering sv of
        Simple \<Rightarrow> with_raw_stream X CB service sv (buf_stream_new mem_w mem_r stream) app
      | Fixed \<Rightarrow>
          fut_bind
            (fut_do (\<lambda>(v, c). bindR (fixed_buf_stream_new E mem_w mem_r stream c) (\<lambda>(r, c').
               case r of
                 Inl _ \<Rightarrow> mapR (Pair None) (drop_s stream (v, c'))
               | Inr fixed \<Rightarrow> Inr (Some fixed, v, c')))) (\<lambda>r.
          case r of
            None \<Rightarrow> fut_return ()
          | Some fixed \<Rightarrow> with_raw_stream X CF service sv fixed app)
      | Group share \<Rightarrow> with_raw_stream X CG service sv (share_buf_stream_new stream share) app)"

subsection \<open>The server\<close>

text \<open>
  \<open>n\<close> counts the connections: the \<open>n\<close>-th gets its addresses from \<open>at n\<close>. \<open>drive\<close> is
  \<open>incoming.filter_map(ok).for_each(closure)\<close> of the \<open>futures\<close> crate.
\<close>

definition with_incoming ::
    "((io_error + 's \<Rightarrow> 's option) \<Rightarrow> 'inc \<Rightarrow> (nat \<Rightarrow> 's \<Rightarrow> ('w, unit) fut) \<Rightarrow> ('w, unit) fut) \<Rightarrow>
      (nat \<Rightarrow> 's \<Rightarrow> ('w, unit) fut) \<Rightarrow> 'inc \<Rightarrow> ('w, unit) fut" where
  "with_incoming drive closure incoming =
     drive (\<lambda>stream. case stream of Inl _ \<Rightarrow> None | Inr s \<Rightarrow> Some s) incoming closure"

type_synonym ('w, 'u, 't) chain_join =
  "('w \<times> ('u, 't) ring cell, io_error + unit) fut \<Rightarrow> ('w \<times> ('u, 't) ring cell, io_error + unit) fut \<Rightarrow>
   ('w \<times> ('u, 't) ring cell, io_error + unit) fut \<Rightarrow>
   ('w \<times> ('u, 't) ring cell, (io_error + unit) \<times> (io_error + unit) \<times> (io_error + unit)) fut"

definition serve_addr ::
    "('u, 't) env \<Rightarrow> (u32 \<Rightarrow> bool) \<Rightarrow> ('w, 'u, 't) chain_join \<Rightarrow> (nat \<Rightarrow> nat \<Rightarrow> ptr) \<Rightarrow> ptr \<Rightarrow>
      ('a serve \<Rightarrow> incoming \<Rightarrow> ('w \<times> ('u, 't) ring cell, unit) fut) \<Rightarrow>
      ('a serve \<Rightarrow> direct_incoming \<Rightarrow> ('w \<times> ('u, 't) ring cell, unit) fut) \<Rightarrow>
      'a serve \<Rightarrow> io_error + socket_addr list \<Rightarrow> ('w \<times> ('u, 't) ring cell, io_error + unit) fut" where
  "serve_addr E try_slot join3 at this with_raw with_direct sv addrs =
     (case sv_descriptors sv of
        Raw \<Rightarrow> fut_try (tcp_bind E at addrs) (\<lambda>listener. fut_map Inr (with_raw sv (incoming_new this listener)))
      | Direct \<Rightarrow>
          fut_try (tcp_bind_direct E try_slot join3 at addrs) (\<lambda>listener.
          fut_map Inr (with_direct sv (direct_incoming_new this listener))))"

text \<open>The two functions of the module: \<open>go\<close> is \<open>serve_addr\<close> of the address.\<close>

definition axum_serve :: "('a serve \<Rightarrow> ('w, io_error + unit) fut) \<Rightarrow> ('w, io_error + unit) fut" where
  "axum_serve go = go serve_builder"

definition axum_serve_tls ::
    "('a serve \<Rightarrow> ('w, io_error + unit) fut) \<Rightarrow> ('cfg \<Rightarrow> 'a) \<Rightarrow> 'cfg \<Rightarrow> ('w, io_error + unit) fut" where
  "axum_serve_tls go from config = go (with_tls from config serve_builder)"

end
