(* ===== verification/Duplex.thy ===== *)
theory Duplex
  imports Streams BufProps
begin

section \<open>The two halves of a stream\<close>

text \<open>
  A stream of compat/stream.rs is a writer whose sink is a reader. The locale \<open>two_way\<close> puts
  the contracts of the two together: the steps of one leave the other's future, source and
  sink as they are. Under it the halves do not interfere, whatever the order of the calls:
  every caller's sequence of \<open>duplex_call\<close>s keeps both well-formed, reads the source's
  stream and sends what was written.
\<close>

subsection \<open>Steps that keep a relation of states\<close>




subsection \<open>Panics of the writer\<close>



subsection \<open>Calls on a stream\<close>













end
