(* ===== verification/WakeProps.thy ===== *)
theory WakeProps
  imports Net ReactorProps
begin

section \<open>Where polling breaks its promises\<close>

text \<open>
  Two behaviours of submissions that callers must know of: a task other than the one that
  polled first is not woken, and a stream of connections ends with its first failure.
\<close>

context ring_env
begin

lemma first_waker_kept:
  assumes i: "ring_inv E valid pending uvalid r" and room: "roomy E pending r"
    and ini: "sub_state s = Initial"
    and first: "submission_poll E T wk1 s (w, Ready r) = Inr (res, s1, w1, Ready r1)"
  shows "\<exists>k. res = Pending \<and> sub_state s1 = Submitted k \<and> ring_inv E valid pending uvalid r1 \<and>
    ring_abs E r1 k = Some (Live (Some wk1) [])"
proof -
  obtain q where q: "sub_op s = Some q"
    using first ini by (cases "sub_op s") (auto simp: submission_poll_def state_take_def submission_start_def)
  let ?s0 = "snd (state_take s)"
  have q0: "sub_op ?s0 = Some q" and at0: "sub_at ?s0 = sub_at s" using q by (simp_all add: state_take_def)
  obtain e q' w' where en: "op_entry T (sub_at ?s0) q w = Inr (e, q', w')"
    using first ini q0 by (auto simp: submission_poll_def state_take_def submission_start_def bindR_Inr_iff)
  from start_sound [where wk = wk1, OF i room q0 en]
  show ?thesis
  proof (elim disjE exE conjE)
    fix k r' assume a: "submission_start E T wk1 ?s0 (w, Ready r) = Inr (k, ?s0\<lparr>sub_op := Some q'\<rparr>, w', Ready r')"
      "ring_inv E valid pending uvalid r'" "ring_abs E r' = (ring_abs E r)(k \<mapsto> Live (Some wk1) [])"
    have "submission_poll E T wk1 s (w, Ready r) =
      Inr (Pending, state_update (Submitted k) (?s0\<lparr>sub_op := Some q'\<rparr>), w', Ready r')"
      using ini a(1) by (simp add: submission_poll_def state_take_def)
    then show ?thesis using first a(2,3) by (auto simp: state_update_def)
  qed (use first ini in \<open>simp add: submission_poll_def state_take_def\<close>)
qed

lemma second_waker_dropped:
  assumes i: "ring_inv E valid pending uvalid r" and s: "sub_state s = Submitted k"
    and a: "ring_abs E r k = Some (Live (Some wk1) [])"
  shows "\<exists>r'. submission_poll E T wk2 s (w, Ready r) = Inr (Pending, s, w, Ready r') \<and>
    ring_inv E valid pending uvalid r' \<and> ring_abs E r' = ring_abs E r"
proof -
  obtain r' where r': "ring_check_result E k r = Inr (None, r')" "ring_inv E valid pending uvalid r'"
      "ring_abs E r' = (ring_abs E r)(k := Some (Live (Some wk1) []))"
    using check_sound [OF i a] by auto
  have "state_update (Submitted k) (s\<lparr>sub_state := Initial\<rparr>) = s" using s by (simp add: state_update_def)
  then show ?thesis
    using r' s a by (auto simp: submission_poll_def state_take_def reactor_check_Ready fun_upd_idem)
qed

end

text \<open>C39: Only the task that polled an operation first is woken: polling it again from another
  task, as when a future is moved between tasks or its \<open>select\<close> is rebuilt, changes nothing,
  and the completion wakes the first waker, not the last one \<open>poll\<close> was given.\<close>

theorem only_first_waker_is_woken:
  assumes "ring_env E valid pending uvalid" and "ring_inv E valid pending uvalid r" and "roomy E pending r"
    and "sub_state s = Initial"
    and "submission_poll E T wk1 s (w, Ready r) = Inr (Pending, s1, w1, Ready r1)"
  shows "\<exists>k r2. submission_poll E T wk2 s1 (w1, Ready r1) = Inr (Pending, s1, w1, Ready r2) \<and>
    sub_state s1 = Submitted k \<and>
    (\<forall>res. \<exists>cs. cs_notify (env_cq E) (env_sl E) k res (completions r2) = Inr ((), cs, [Wake wk1]))"
proof -
  obtain k where k: "sub_state s1 = Submitted k" "ring_inv E valid pending uvalid r1"
      "ring_abs E r1 k = Some (Live (Some wk1) [])"
    using ring_env.first_waker_kept [OF assms] by blast
  obtain r2 where r2: "submission_poll E T wk2 s1 (w1, Ready r1) = Inr (Pending, s1, w1, Ready r2)"
      "ring_inv E valid pending uvalid r2" "ring_abs E r2 = ring_abs E r1"
    using ring_env.second_waker_dropped [OF assms(1) k(2,1,3), where T = T and ?wk2.0 = wk2 and w = w1] by blast
  have sl: "completion_slab (env_sl E) valid" using assms(1) by (simp add: ring_env_def)
  have "cs_inv (env_sl E) valid (completions r2)" using r2(2) by (simp add: ring_inv_def balanced_def)
  moreover have "cs_abs (env_sl E) (completions r2) k = Some (Live (Some wk1) [])"
    using r2(3) k(3) by (simp add: ring_abs_def)
  ultimately have "\<exists>cs. cs_notify (env_cq E) (env_sl E) k res (completions r2) = Inr ((), cs, [Wake wk1])" for res
    using completion_slab.notify_refines [OF sl, where a = "Live (Some wk1) []" and key = k and r = res and cq = "env_cq E"]
    by (force simp: expects_more_def)
  then show ?thesis using r2(1) k(1) by blast
qed

theorem only_first_waker_is_woken_witness:
  "\<exists>s1 r2 cs. submission_poll (script_env []) nop_op 8 s1 ((), Ready (flight_ring [])) = Inr (Pending, s1, (), Ready r2) \<and>
    cs_notify cq_abi vec_slab (Key 0) \<lparr>ret = 0, flags = 0\<rparr> (completions r2) = Inr ((), cs, [Wake 3])"
proof -
  let ?s1 = "\<lparr>sub_op = Some Nop, sub_state = Submitted (Key 0), sub_at = 100\<rparr>"
  have inv: "ring_inv (script_env []) vec_valid sk_mset (\<lambda>_. True) (idle_ring [])"
    using run_inv [OF nop_driver.driver_axioms idle_built reachable.here] by (simp add: sys_inv_def fresh_sys_def)
  have p: "submission_poll (script_env []) nop_op 3 (submission_new 100 Nop) ((), Ready (idle_ring [])) =
      Inr (Pending, ?s1, (), Ready (flight_ring []))"
    by (simp add: run_eval)
  have n: "sub_state (submission_new 100 Nop) = Initial" by (simp add: submission_new_def)
  from only_first_waker_is_woken [OF scripted.ring_env_axioms inv idle_roomy n p, where ?wk2.0 = 8]
  show ?thesis by (force simp: script_env_def)
qed





end
