(* ===== verification/Wakers.thy ===== *)
theory Wakers
  imports SystemSafe
begin

section \<open>Who owns the wakers in the ring\<close>

text \<open>
  A \<open>Completion\<close> that still waits owns a clone of the waker its operation was submitted with;
  the ring drops it with the last notification or when the operation is cancelled. This theory
  counts the wakers of the abstract map (\<open>wakers_of\<close>) and follows the count through every
  operation of a system of single-shot operations (\<open>plain\<close>): submitting adds the waker given,
  taking a result leaves the count, cancelling removes the waker of that key, and a wait
  removes exactly those it wakes. \<open>waker_held\<close> is the waker the code drops when it cancels a
  key, read off the concrete set.
\<close>

subsection \<open>Counting\<close>

definition waker_in :: "acompletion option \<Rightarrow> waker multiset" where
  "waker_in a = (case a of Some (Live (Some w) _) \<Rightarrow> {#w#} | _ \<Rightarrow> {#})"

definition wakers_of :: "(key \<rightharpoonup> acompletion) \<Rightarrow> waker multiset" where
  "wakers_of m = (\<Sum>k\<in>dom m. waker_in (m k))"

lemma waker_in_simps [simp]:
  "waker_in None = {#}" "waker_in (Some (Live (Some w) rs)) = {#w#}" "waker_in (Some (Live None rs)) = {#}"
  "waker_in (Some (Gone d)) = {#}"
  by (simp_all add: waker_in_def)

lemma wakers_of_empty [simp]: "wakers_of Map.empty = {#}"
  by (simp add: wakers_of_def)

lemma wakers_of_support:
  "finite K \<Longrightarrow> dom m \<subseteq> K \<Longrightarrow> wakers_of m = (\<Sum>k\<in>K. waker_in (m k))"
  unfolding wakers_of_def by (rule sum.mono_neutral_left) (auto simp: dom_def)

lemma wakers_of_update:
  assumes "finite (dom m)"
  shows "wakers_of (m(k := a)) + waker_in (m k) = wakers_of m + waker_in a"
proof -
  let ?K = "insert k (dom m)"
  have K: "finite ?K" "k \<in> ?K" using assms by simp_all
  have "wakers_of (m(k := a)) = (\<Sum>j\<in>?K. waker_in ((m(k := a)) j))"
    by (rule wakers_of_support [OF K(1)]) auto
  also have "\<dots> = waker_in a + (\<Sum>j\<in>?K - {k}. waker_in ((m(k := a)) j))"
    using sum.remove [OF K, of "\<lambda>j. waker_in ((m(k := a)) j)"] by simp
  also have "(\<Sum>j\<in>?K - {k}. waker_in ((m(k := a)) j)) = (\<Sum>j\<in>?K - {k}. waker_in (m j))"
    by (rule sum.cong) auto
  finally have 1: "wakers_of (m(k := a)) = waker_in a + (\<Sum>j\<in>?K - {k}. waker_in (m j))" .
  have "wakers_of m = (\<Sum>j\<in>?K. waker_in (m j))" by (rule wakers_of_support [OF K(1)]) auto
  then have 2: "wakers_of m = waker_in (m k) + (\<Sum>j\<in>?K - {k}. waker_in (m j))"
    using sum.remove [OF K, of "\<lambda>j. waker_in (m j)"] by simp
  show ?thesis unfolding 1 2 by (simp add: ac_simps)
qed

text \<open>The wakers a list of events wakes, in order.\<close>

fun woken :: "event list \<Rightarrow> waker list" where
  "woken [] = []"
| "woken (Wake w # es) = w # woken es"
| "woken (_ # es) = woken es"

lemma woken_append [simp]: "woken (xs @ ys) = woken xs @ woken ys"
  by (induction xs rule: woken.induct) simp_all

lemma woken_none: "list_all (\<lambda>e. \<forall>w. e \<noteq> Wake w) es \<Longrightarrow> woken es = []"
  by (induction es rule: woken.induct) simp_all

lemma woken_drop_raw [simp]: "woken (drop_raw c) = []"
  by (rule woken_none) (use drop_raw_frees [of c] in \<open>auto simp: list_all_iff is_freed_def split: event.splits\<close>)

lemma woken_consume [simp]: "woken (cancel_consume c r) = []"
  by (simp add: cancel_consume_def split: option.split)

text \<open>A final result for an operation takes its waker out of the set and wakes it.\<close>

lemma notify_wakers:
  assumes "\<not> has_more cq r"
  shows "waker_in (Some a) = waker_in (fst (a_notify cq r a)) + mset (woken (snd (a_notify cq r a)))"
  using assms by (cases "(cq, r, a)" rule: a_notify.cases) simp_all

lemma a_entry_wakers:
  assumes "finite (dom m)" "\<not> has_more cq (from_completion c)"
  shows "wakers_of m = wakers_of (fst (a_entry cq c m)) + mset (woken (snd (a_entry cq c m)))"
proof -
  let ?k = "key_from_u64 (cqe_user_data c)" and ?r = "from_completion c"
  show ?thesis
  proof (cases "cqe_user_data c = IGNORE_KEY")
    case False
    show ?thesis
    proof (cases "m ?k")
      case (Some a)
      let ?a = "fst (a_notify cq ?r a)" and ?ev = "snd (a_notify cq ?r a)"
      have "wakers_of (m(?k := ?a)) + mset (woken ?ev) + waker_in ?a = wakers_of m + waker_in ?a"
        using wakers_of_update [OF assms(1), of ?k ?a] notify_wakers [OF assms(2), of a] Some
        by (simp add: ac_simps del: fun_upd_apply)
      then show ?thesis using False Some by (simp add: a_entry_def Let_def)
    qed (use False in \<open>simp add: a_entry_def Let_def\<close>)
  qed (simp add: a_entry_def)
qed

lemma a_entry_finite: "finite (dom m) \<Longrightarrow> finite (dom (fst (a_entry cq c m)))"
  by (rule finite_subset [of _ "insert (key_from_u64 (cqe_user_data c)) (dom m)"])
    (auto simp: a_entry_def Let_def split: option.splits if_splits)

lemma a_entries_wakers:
  "finite (dom m) \<Longrightarrow> list_all (\<lambda>c. \<not> has_more cq (from_completion c)) cs \<Longrightarrow>
    wakers_of m = wakers_of (fst (a_entries cq cs m)) + mset (woken (snd (a_entries cq cs m)))"
proof (induction cs arbitrary: m)
  case (Cons c cs)
  let ?m = "fst (a_entry cq c m)"
  have "wakers_of m = wakers_of ?m + mset (woken (snd (a_entry cq c m)))"
    by (rule a_entry_wakers) (use Cons.prems in simp_all)
  moreover have "wakers_of ?m = wakers_of (fst (a_entries cq cs ?m)) + mset (woken (snd (a_entries cq cs ?m)))"
    by (rule Cons.IH) (use Cons.prems in \<open>simp_all add: a_entry_finite\<close>)
  ultimately show ?case by (simp add: split_beta ac_simps)
qed simp

subsection \<open>Single-shot operations\<close>

text \<open>Nothing the kernel has pending is multi-shot, and no entry of the set has a queue of results.\<close>

definition plain :: "('u \<Rightarrow> sqe multiset) \<Rightarrow> ('u, 's) ring \<Rightarrow> bool" where
  "plain pending r \<longleftrightarrow> (\<forall>e. e \<in># pending (uring r) \<longrightarrow> \<not> multishot e)"

definition is_multiple :: "completion \<Rightarrow> bool" where
  "is_multiple c = (case c of Multiple _ _ _ \<Rightarrow> True | _ \<Rightarrow> False)"

definition singles :: "('s, completion) slab_ops \<Rightarrow> ('s \<Rightarrow> bool) \<Rightarrow> 's completion_set \<Rightarrow> bool" where
  "singles sl valid s \<longleftrightarrow> valid (slab_of s) \<and> (\<forall>k c. sl_get sl (slab_of s) k = Some c \<longrightarrow> \<not> is_multiple c)"

text \<open>The waker inside a \<open>Completion\<close>, dropped when another value is assigned to it.\<close>

definition completion_waker :: "completion \<Rightarrow> waker option" where
  "completion_waker c = (case c of Vacant w \<Rightarrow> Some w | Multiple w _ _ \<Rightarrow> Some w | _ \<Rightarrow> None)"

definition waker_held :: "('u, 's) env \<Rightarrow> key \<Rightarrow> ('u, 's) ring \<Rightarrow> waker option" where
  "waker_held E k r =
     (case sl_get (env_sl E) (slab_of (completions r)) (key_as_usize k) of
        None \<Rightarrow> None
      | Some c \<Rightarrow> completion_waker c)"

lemma waker_held_in:
  assumes "singles (env_sl E) valid (completions r)"
  shows "waker_in (ring_abs E r k) = (case waker_held E k r of None \<Rightarrow> {#} | Some w \<Rightarrow> {#w#})"
proof (cases "sl_get (env_sl E) (slab_of (completions r)) (key_as_usize k)")
  case (Some c)
  then have "\<not> is_multiple c" using assms by (auto simp: singles_def)
  then show ?thesis
    using Some
    by (cases c) (simp_all add: waker_held_def completion_waker_def ring_abs_def cs_abs_def abs_map_def abs_comp_def is_multiple_def)
qed (simp add: waker_held_def ring_abs_def cs_abs_def abs_map_def)

definition keeps_single ::
    "(completion \<Rightarrow> result_queues \<Rightarrow> panic + ('t \<times> completion \<times> result_queues \<times> event list)) \<Rightarrow> bool" where
  "keeps_single fn \<longleftrightarrow>
     (\<forall>c q v c' q' ev. fn c q = Inr (v, c', q', ev) \<longrightarrow> \<not> is_multiple c \<longrightarrow> \<not> is_multiple c')"

lemma cancel_keeps_single: "keeps_single (try_cancel d)"
  by (auto simp: keeps_single_def is_multiple_def try_cancel_def split: completion.splits)

lemma result_keeps_single: "keeps_single take_result"
  by (auto simp: keeps_single_def is_multiple_def take_result_def split: completion.splits)

lemma notify_keeps_single: "\<not> has_more cq r \<Longrightarrow> keeps_single (try_notify cq r)"
  by (auto simp: keeps_single_def is_multiple_def try_notify_def split: completion.splits)

context completion_slab
begin

lemma with_completion_single:
  assumes s: "singles sl valid s" and fn: "keeps_single fn" and w: "with_completion sl key fn s = Inr (v, s', ev)"
  shows "singles sl valid s'"
proof -
  let ?k = "key_as_usize key"
  have v: "valid (slab_of s)" using s by (simp add: singles_def)
  obtain c where c: "sl_get sl (slab_of s) ?k = Some c" using w by (auto simp: with_completion_def split: option.splits)
  obtain v1 c' q' ev1 where f: "fn c (rqueues s) = Inr (v1, c', q', ev1)"
    using w c by (auto simp: with_completion_def bindR_Inr_iff)
  have "\<not> is_multiple c" using s c by (simp add: singles_def)
  then have n: "\<not> is_multiple c'" using fn f unfolding keeps_single_def by blast
  have occ: "sl_get sl (slab_of s) ?k \<noteq> None" using c by simp
  note v1 = valid_set [OF v occ, of c'] and g1 = get_set [OF v occ, of c']
  show ?thesis
  proof (cases "is_finished c'")
    case True
    have "sl_get sl (sl_set sl ?k c' (slab_of s)) ?k = Some c'" by (simp add: g1)
    from remove_occupied [OF v1 this] show ?thesis
      using w c f True s by (auto simp: with_completion_def singles_def g1 split: if_splits)
  next
    case False
    then show ?thesis using w c f n s v1 by (auto simp: with_completion_def singles_def g1 split: if_splits)
  qed
qed

lemma insert_single:
  assumes "singles sl valid s" "cs_insert sl w s = (k, s')" "sl_len sl (slab_of s) < 2 ^ 32"
  shows "singles sl valid s'"
proof -
  obtain i slab' where i: "sl_insert sl (Vacant w) (slab_of s) = (i, slab')" "s' = s\<lparr>slab_of := slab'\<rparr>"
    using assms(2) by (auto simp: cs_insert_def completion_new_def split: prod.splits)
  have v: "valid (slab_of s)" using assms(1) by (simp add: singles_def)
  show ?thesis
    using assms(1) insert_small [OF v i(1) assms(3)] get_insert [OF v i(1)] i(2)
    by (auto simp: singles_def is_multiple_def)
qed

end

subsection \<open>The ring\<close>

definition tidy ::
    "('u, 's) env \<Rightarrow> ('s \<Rightarrow> bool) \<Rightarrow> ('u \<Rightarrow> sqe multiset) \<Rightarrow> ('u, 's) ring \<Rightarrow> bool" where
  "tidy E valid pending r \<longleftrightarrow> plain pending r \<and> singles (env_sl E) valid (completions r)"

context ring_env
begin

lemma build_tidy:
  assumes "ring_build E os opts st = (Inr r, st')"
  shows "tidy E valid pending r"
proof -
  have "\<exists>n. completions r = cs_with_capacity (env_sl E) n"
    using assms by (auto simp: ring_build_def Let_def bindR_Inr_iff new_ring_def split: prod.splits)
  then show ?thesis
    using build_sound [OF assms]
    by (auto simp: tidy_def plain_def singles_def cs_with_capacity_def valid_new get_new)
qed

lemma plain_entries:
  assumes "ring_inv E valid pending uvalid r"
  shows "plain pending r \<longleftrightarrow> (\<forall>k e. e \<in># entries_of pending r k \<longrightarrow> \<not> multishot e)"
proof
  assume a: "\<forall>k e. e \<in># entries_of pending r k \<longrightarrow> \<not> multishot e"
  have c: "counted (pending (uring r)) r (ring_abs E r)" using inv_parts [OF assms] by simp
  have "\<not> multishot e" if e: "e \<in># pending (uring r)" for e
  proof -
    have "sq_user_data e \<in># owed (unat (detached r)) (waiting (ring_abs E r))"
      using e c unfolding counted_def by (metis image_eqI set_image_mset)
    moreover have "finite (waiting (ring_abs E r))" using c by (simp add: counted_def finite_waiting)
    ultimately consider "sq_user_data e = IGNORE_KEY" | k where "sq_user_data e = key_as_u64 k"
      by (auto simp: owed_mem)
    then show ?thesis
    proof cases
      case 1
      then show ?thesis using e c by (simp add: counted_def)
    next
      case (2 k)
      then have "e \<in># entries_of pending r k" using e by (simp add: entries_of_def)
      then show ?thesis using a by blast
    qed
  qed
  then show "plain pending r" by (simp add: plain_def)
qed (auto simp: plain_def entries_of_def)

lemma plain_final:
  assumes "plain pending r" "uvalid u" "pending u = pending (uring r)" "ur_completion (env_ur E) u = (cs, u')"
  shows "list_all (\<lambda>c. \<not> has_more (env_cq E) (from_completion c)) cs"
proof -
  have "reaped (env_cq E) cs (pending u) (pending u')" using completion_reaped [OF assms(2,4)] by simp
  then show ?thesis
    using assms(1,3) reaped_more [of "env_cq E" cs "pending u" "pending u'"] by (force simp: list_all_iff plain_def)
qed

lemma plain_calm: "plain pending r \<Longrightarrow> calm E pending uvalid r"
  using plain_final [of r] by (force simp: calm_def quiet_def list_all_iff)

lemma reaped_plain: "plain pending r \<Longrightarrow> reaped cq cs (pending (uring r)) (pending (uring r')) \<Longrightarrow> plain pending r'"
  unfolding plain_def using reaped_subset mset_subset_eqD by metis

lemma entry_single:
  assumes "singles (env_sl E) valid (completions r)" "\<not> has_more (env_cq E) (from_completion c)"
    "ring_handle_entry E c r = Inr (r', ev)"
  shows "singles (env_sl E) valid (completions r')"
  using assms with_completion_single [OF assms(1) notify_keeps_single [OF assms(2)]]
  by (auto simp: ring_handle_entry_def cs_notify_def mapR_Inr_iff bindR_Inr_iff Let_def split: if_splits)

lemma entries_single:
  "singles (env_sl E) valid (completions r) \<Longrightarrow> list_all (\<lambda>c. \<not> has_more (env_cq E) (from_completion c)) cs \<Longrightarrow>
    ring_handle_entries E cs r = Inr (r', ev) \<Longrightarrow> singles (env_sl E) valid (completions r')"
proof (induction cs arbitrary: r ev)
  case (Cons c cs)
  then show ?case by (auto simp: bindR_Inr_iff dest: entry_single)
qed simp

lemma submit_tidy:
  assumes "tidy E valid pending r" "ring_inv E valid pending uvalid r" "roomy E pending r" "\<not> multishot e"
    and s: "ring_submit E e w r = Inr (k, r')"
  shows "tidy E valid pending r' \<and> wakers_of (ring_abs E r') = add_mset w (wakers_of (ring_abs E r))"
proof -
  have r': "ring_abs E r k = None" "ring_abs E r' = (ring_abs E r)(k \<mapsto> Live (Some w) [])"
      "pending (uring r') = add_mset (sqe_with_user_data (key_as_u64 k) e) (pending (uring r))"
    using submit_sound [OF assms(2,3), of e w] s by auto
  obtain k' cs where ins: "cs_insert (env_sl E) w (completions r) = (k', cs)" by fastforce
  have "completions r' = cs" using s ins by (auto simp: ring_submit_def ring_push_def bindR_Inr_iff mapR_Inr_iff)
  then have "singles (env_sl E) valid (completions r')"
    using insert_single [OF _ ins] assms(1,3) by (simp add: tidy_def roomy_def)
  moreover have "plain pending r'" using assms(1,4) r'(3) by (auto simp: tidy_def plain_def)
  moreover have "finite (dom (ring_abs E r))" using inv_parts(2) [OF assms(2)] finite_abs by (simp add: ring_abs_def)
  ultimately show ?thesis
    using wakers_of_update [of "ring_abs E r" k "Some (Live (Some w) [])"] r' by (simp add: tidy_def)
qed

lemma detached_tidy:
  assumes "tidy E valid pending r" "ring_inv E valid pending uvalid r" "roomy E pending r" "\<not> multishot e"
    and s: "ring_submit_detached E e r = Inr r'"
  shows "tidy E valid pending r' \<and> ring_abs E r' = ring_abs E r"
proof -
  have r': "ring_abs E r' = ring_abs E r"
      "pending (uring r') = add_mset (sqe_with_user_data IGNORE_KEY e) (pending (uring r))"
    using detached_sound [OF assms(2,3,4)] s by auto
  moreover have "completions r' = completions r"
    using s by (auto simp: ring_submit_detached_def ring_push_def bindR_Inr_iff mapR_Inr_iff)
  ultimately show ?thesis using assms(1,4) by (auto simp: tidy_def plain_def)
qed

lemma check_tidy:
  assumes "tidy E valid pending r" "ring_inv E valid pending uvalid r" "ring_abs E r k = Some a"
    and s: "ring_check_result E k r = Inr (x, r')"
  shows "tidy E valid pending r' \<and> wakers_of (ring_abs E r') = wakers_of (ring_abs E r)"
proof -
  have r': "ring_abs E r' = (ring_abs E r)(k := snd (a_result a))" "uring r' = uring r"
    using check_sound [OF assms(2,3)] s by auto
  have "singles (env_sl E) valid (completions r')"
    using s assms(1) with_completion_single [OF _ result_keeps_single]
    by (auto simp: ring_check_result_def mapR_Inr_iff cs_result_def tidy_def)
  moreover have "waker_in (snd (a_result a)) = waker_in (Some a)"
    by (cases a rule: a_result.cases) (auto simp: waker_in_def)
  moreover have "finite (dom (ring_abs E r))" using inv_parts(2) [OF assms(2)] finite_abs by (simp add: ring_abs_def)
  ultimately show ?thesis
    using wakers_of_update [of "ring_abs E r" k "snd (a_result a)"] r' assms(1,3) by (simp add: tidy_def plain_def)
qed

lemma cancel_tidy:
  assumes "tidy E valid pending r" "ring_inv E valid pending uvalid r" "roomy E pending r" "detachable eo"
    and k: "ring_abs E r k = Some (Live wo rs)" and s: "ring_cancel E k eo d r = Inr (r', ev)"
  shows "tidy E valid pending r' \<and> wakers_of (ring_abs E r) = wakers_of (ring_abs E r') + waker_in (ring_abs E r k)"
proof -
  let ?a = "fst (snd (a_cancel d (Live wo rs)))"
  have r': "ring_inv E valid pending uvalid r'" "ring_abs E r' = (ring_abs E r)(k := ?a)"
      "entries_of pending r' = entries_of pending r"
    using cancel_sound [where d = d, OF assms(2-5)] s by (auto simp del: a_cancel.simps)
  have "singles (env_sl E) valid (completions r')"
    using s assms(1) with_completion_single [OF _ cancel_keeps_single]
    by (auto simp: ring_cancel_def bindR_Inr_iff cs_cancel_def tidy_def ring_push_def mapR_Inr_iff Let_def
        split: if_splits option.splits)
  moreover have "plain pending r'"
    using assms(1) plain_entries [OF assms(2)] plain_entries [OF r'(1)] r'(3) by (simp add: tidy_def)
  moreover have "waker_in ?a = {#}" by (simp add: Let_def)
  moreover have "finite (dom (ring_abs E r))" using inv_parts(2) [OF assms(2)] finite_abs by (simp add: ring_abs_def)
  ultimately show ?thesis using wakers_of_update [of "ring_abs E r" k ?a] r'(2) by (simp add: tidy_def)
qed

lemma wait_tidy:
  assumes "tidy E valid pending r" "ring_inv E valid pending uvalid r" "roomy E pending r"
    and s: "ring_wait E r = Inr (r', ev)"
  shows "tidy E valid pending r' \<and> wakers_of (ring_abs E r) = wakers_of (ring_abs E r') + mset (woken ev)"
proof -
  obtain r1 where r1: "ring_submit_and_wait E r = Inr r1" "ring_handle_completions E r1 = Inr (r', ev)"
    using s by (auto simp: ring_wait_def bindR_Inr_iff)
  obtain cs u where cs: "ur_completion (env_ur E) (uring r1) = (cs, u)" by fastforce
  have i1: "ring_inv E valid pending uvalid r1" "ring_abs E r1 = ring_abs E r" "pending (uring r1) = pending (uring r)"
      "canceled r1 = 0"
    using submit_and_wait_sound [OF assms(2,3)] r1(1) by auto
  have "singles (env_sl E) valid (completions r1)"
    using r1(1) assms(1) by (auto simp: ring_submit_and_wait_def bindR_Inr_iff tidy_def split: if_splits)
  moreover have fin: "list_all (\<lambda>c. \<not> has_more (env_cq E) (from_completion c)) cs"
    using plain_final [OF _ inv_parts(1) [OF i1(1)] i1(3) cs] assms(1) by (simp add: tidy_def)
  ultimately have "singles (env_sl E) valid (completions r')"
    using entries_single [of "r1\<lparr>uring := u\<rparr>" cs r' ev] r1(2) cs by (simp add: ring_handle_completions_def)
  moreover have "plain pending r' \<and> wakers_of (ring_abs E r) = wakers_of (ring_abs E r') + mset (woken ev)"
  proof -
    have p: "plain pending r" using assms(1) by (simp add: tidy_def)
    obtain ds where ds: "ev = snd (a_entries (env_cq E) ds (ring_abs E r))" "ring_abs E r' = fst (a_entries (env_cq E) ds (ring_abs E r))"
        "reaped (env_cq E) ds (pending (uring r)) (pending (uring r'))"
      using wait_sound [OF assms(2,3) plain_calm [OF p]] s by auto
    have "list_all (\<lambda>c. \<not> has_more (env_cq E) (from_completion c)) ds"
      using reaped_more [OF ds(3)] p by (force simp: list_all_iff plain_def)
    moreover have "finite (dom (ring_abs E r))" using inv_parts(2) [OF assms(2)] finite_abs by (simp add: ring_abs_def)
    ultimately show ?thesis using a_entries_wakers reaped_plain [OF p ds(3)] ds(1,2) by metis
  qed
  ultimately show ?thesis by (simp add: tidy_def)
qed

end

subsection \<open>Submissions\<close>

context driver
begin

lemma entry_single_shot:
  "(\<And>q. \<not> multi q) \<Longrightarrow> op_entry T this q w = Inr (e, q', w') \<Longrightarrow> \<not> multishot e"
  using agrees unfolding multi_agrees_def by blast

text \<open>The first poll of a submission adds the waker it is polled with; the other polls leave the count.\<close>

lemma poll_tidy:
  assumes single: "\<And>q. \<not> multi q" and t: "tidy E valid pending r"
    and i: "ring_inv E valid pending uvalid r" and room: "roomy E pending r"
    and si: "subs_inv E pending ok multi r subs" and s: "subs n = Some s"
    and p: "submission_poll E T wk s (w, Ready r) = Inr (out, s', w', Ready r')"
  shows "tidy E valid pending r' \<and>
    wakers_of (ring_abs E r') = wakers_of (ring_abs E r) + (if sub_state s = Initial then {#wk#} else {#})"
proof -
  have "sub_ok s" using si s by (auto simp: subs_inv_def)
  then show ?thesis
  proof (cases rule: sub_ok_cases)
    case (initial q)
    then obtain e q' k where e: "op_entry T (sub_at s) q w = Inr (e, q', w')" "ring_submit E e wk r = Inr (k, r')"
      using p by (auto simp: submission_poll_def state_take_def submission_start_def reactor_submit_Ready
          bindR_Inr_iff mapR_Inr_iff)
    show ?thesis
      using submit_tidy [OF t i room entry_single_shot [OF single e(1)] e(2)] initial by simp
  next
    case (submitted q k)
    obtain wo rs where k: "ring_abs E r k = Some (Live wo rs)"
      using owner_live [OF si s submitted(1)] by (auto simp: live_at_def)
    obtain x where "ring_check_result E k r = Inr (x, r')"
      using p submitted
      by (auto simp: submission_poll_def state_take_def reactor_check_Ready bindR_Inr_iff mapR_Inr_iff
          split: option.splits)
    from check_tidy [OF t i k this] show ?thesis using submitted by simp
  next
    case completed
    then show ?thesis using p by (simp add: submission_poll_def state_take_def)
  qed
qed

lemma drop_tidy:
  assumes t: "tidy E valid pending r"
    and i: "ring_inv E valid pending uvalid r" and room: "roomy E pending r"
    and si: "subs_inv E pending ok multi r subs" and s: "subs n = Some s"
    and d: "submission_drop E T s (Ready r) = Inr (Ready r', ev)"
  shows "tidy E valid pending r' \<and>
    wakers_of (ring_abs E r) = wakers_of (ring_abs E r') +
      (case sub_state s of Submitted k \<Rightarrow> waker_in (ring_abs E r k) | _ \<Rightarrow> {#})"
proof -
  have "sub_ok s" using si s by (auto simp: subs_inv_def)
  then show ?thesis
  proof (cases rule: sub_ok_cases)
    case (submitted q k)
    obtain wo rs where k: "ring_abs E r k = Some (Live wo rs)"
      using owner_live [OF si s submitted(1)] by (auto simp: live_at_def)
    obtain c ev' where "ring_cancel E k (op_entry_cancel T (key_as_u64 k)) c r = Inr (r', ev')"
      using d submitted
      by (auto simp: submission_drop_def submission_cancel_def manually_take_def reactor_cancel_Ready
          bindR_Inr_iff mapR_Inr_iff split: prod.splits)
    from cancel_tidy [OF t i room plain_cancel k this] show ?thesis using submitted by simp
  qed (use d t in \<open>auto simp: submission_drop_def submission_cancel_def manually_take_def\<close>)
qed

lemma detach_tidy:
  assumes single: "\<And>q. \<not> multi q" and t: "tidy E valid pending r"
    and i: "ring_inv E valid pending uvalid r" and room: "roomy E pending r"
    and d: "run_detached E T this q (w, Ready r) = Inr (q', w', Ready r')"
  shows "tidy E valid pending r' \<and> ring_abs E r' = ring_abs E r"
proof -
  obtain e where e: "op_entry T this q w = Inr (e, q', w')" "ring_submit_detached E e r = Inr r'"
    using d by (auto simp: run_detached_def reactor_submit_detached_def bindR_Inr_iff mapR_Inr_iff)
  show ?thesis by (rule detached_tidy [OF t i room entry_single_shot [OF single e(1)] e(2)])
qed

end

end
