(* ===== verification/Runtime.thy ===== *)
theory Runtime
  imports Wakers ExecutorSafe
begin

section \<open>The whole runtime: tasks of the executor over one ring\<close>

text \<open>
  \<open>inel::block_on\<close> runs the executor with \<open>GlobalReactor\<close>, so a waker in the ring's completion
  set is a counted reference to a task of the executor, and dropping it may free that task.
  Here the two are put together: \<open>runtime_env\<close> is the environment of the executor whose state
  is a system of submissions over a ring (\<open>sys\<close>) and whose futures are programs.

  A \<open>program\<close> is what an async function does to the runtime, one call after the other: it makes
  submissions (named by numbers), polls them with the task's waker, submits operations
  detached, spawns tasks, polls the future of a join handle or tries it, drops what it holds in
  any order, wakes itself and yields. A task holds its submissions and its join handles in a list:
  \<open>Fork j\<close> moves all but the first \<open>j\<close> of them into the task it spawns and holds that task's
  handle instead. Dropping a task drops what it holds. A program that does not hold what it
  names panics with \<open>IndexOutOfBounds\<close>.

  A submission dropped in flight drops the waker its completion holds while \<open>REACTOR\<close> is
  borrowed mutably (\<open>Completion::try_cancel\<close> under \<open>GlobalReactor::with\<close>). \<open>rt_lent\<close> is the ring
  behind that borrow: \<open>rt_unlend\<close> ends it, after all that the dropped waker caused. Notifying
  drops a waker too, but after a wake, so it never drops the last reference. A join that is
  pending keeps a clone of the waker in the channel, and drops the clone that was there.
\<close>

codatatype ('o, 'out, 'v) program =
    Finish 'v
  | Make ptr 'o "('o, 'out, 'v) program"
  | PollSub nat "'out poll \<Rightarrow> ('o, 'out, 'v) program"
  | Discard nat "('o, 'out, 'v) program"
  | SubmitDetached ptr 'o "('o, 'out, 'v) program"
  | Fork nat "('o, 'out, 'v) program" "('o, 'out, 'v) program"
  | Join nat "'v option option \<Rightarrow> ('o, 'out, 'v) program"
  | TryJoin nat "'v option \<Rightarrow> ('o, 'out, 'v) program"
  | WakeMe "('o, 'out, 'v) program"
  | Yield "('o, 'out, 'v) program"

text \<open>
  A task: its program, what it holds, and what its last call has left to do: to end a borrow of
  the ring, or to drop a waker it took out of a channel.
\<close>

datatype holding = Sub nat | Handle chan

datatype leftover = Release nat | Stale task_id

record ('o, 'out, 'v) task_state =
  ts_code :: "('o, 'out, 'v) program"
  ts_held :: "holding list"
  ts_left :: "leftover option"

record ('o, 'w, 'u, 's, 'c) world =
  rt_sys :: "('o, 'w, 'u, 's) sys"
  rt_next :: nat
  rt_lent :: "(nat \<times> ('u, 's) ring) option"
  rt_chans :: 'c

datatype destructor = DropHeld holding | EndLeft leftover

text \<open>The functions of \<open>futures::channel::oneshot\<close> the executor uses.\<close>

record ('c, 'v) oneshot_ops =
  os_new :: "'c \<Rightarrow> chan \<times> 'c"
  os_send :: "chan \<Rightarrow> 'v \<Rightarrow> 'c \<Rightarrow> 'c \<times> waker_call option"
  os_close :: "chan \<Rightarrow> 'c \<Rightarrow> 'c \<times> waker_call option"
  os_forget :: "chan \<Rightarrow> 'c \<Rightarrow> 'c \<times> waker_call option"
  os_try_recv :: "chan \<Rightarrow> 'c \<Rightarrow> (unit + 'v option) \<times> 'c"
  os_recv :: "chan \<Rightarrow> task_id \<Rightarrow> 'c \<Rightarrow> ((unit + 'v) + task_id option) \<times> 'c"

definition on_chans :: "('c \<Rightarrow> 'x \<times> 'c) \<Rightarrow> ('o, 'w, 'u, 's, 'c) world \<Rightarrow> 'x \<times> ('o, 'w, 'u, 's, 'c) world" where
  "on_chans g w = (let (x, c) = g (rt_chans w) in (x, w\<lparr>rt_chans := c\<rparr>))"

definition on_chans_call ::
    "('c \<Rightarrow> 'c \<times> waker_call option) \<Rightarrow> ('o, 'w, 'u, 's, 'c) world \<Rightarrow> ('o, 'w, 'u, 's, 'c) world \<times> waker_call option" where
  "on_chans_call g w = (let (c, cl) = g (rt_chans w) in (w\<lparr>rt_chans := c\<rparr>, cl))"

subsection \<open>Operations on the ring\<close>

text \<open>
  The reactor is modelled up to \<open>2 ^ 32 - 1\<close> operations in its set and in the kernel; an
  operation on a ring that is \<open>crowded\<close> stops as the panic \<open>Overflow\<close>.
\<close>

definition crowded :: "('u, 's) env \<Rightarrow> ('u, 's) ring cell \<Rightarrow> bool" where
  "crowded E c \<longleftrightarrow>
     (case c of
        Ready r \<Rightarrow>
          \<not> (sl_len (env_sl E) (slab_of (completions r)) < 2 ^ 32 - 1 \<and>
             unat (active r) + unat (detached r) < 2 ^ 32 - 1)
      | _ \<Rightarrow> False)"

definition on_ring :: "('u, 's) env \<Rightarrow> ('o, 'w, 'u, 's, 'c) world \<Rightarrow> (panic + 'x) \<Rightarrow> panic + 'x" where
  "on_ring E w m = (if crowded E (sys_cell (rt_sys w)) then Inl Overflow else m)"

definition rt_make :: "ptr \<Rightarrow> 'o \<Rightarrow> ('o, 'w, 'u, 's, 'c) world \<Rightarrow> ('o, 'w, 'u, 's, 'c) world" where
  "rt_make this q w =
     w\<lparr>rt_sys := (rt_sys w)\<lparr>sys_subs := (sys_subs (rt_sys w))(rt_next w \<mapsto> submission_new this q)\<rparr>,
       rt_next := rt_next w + 1\<rparr>"

definition rt_poll ::
    "('u, 's) env \<Rightarrow> ('o, 'out, 'w, 'z) multi_ops_scheme \<Rightarrow> nat \<Rightarrow> task_id \<Rightarrow> ('o, 'w, 'u, 's, 'c) world \<Rightarrow>
      panic + ('out poll \<times> bool \<times> ('o, 'w, 'u, 's, 'c) world)" where
  "rt_poll E T n i w =
     (case sys_subs (rt_sys w) n of
        None \<Rightarrow> Inl UnwrapNone
      | Some s \<Rightarrow>
          on_ring E w (mapR (\<lambda>(out, s', v, c).
            (out, sub_state s = Initial,
             w\<lparr>rt_sys := \<lparr>sys_subs = (sys_subs (rt_sys w))(n \<mapsto> s'), sys_world = v, sys_cell = c\<rparr>\<rparr>))
          (submission_poll E T i s (sys_world (rt_sys w), sys_cell (rt_sys w)))))"

definition dropped_waker :: "('u, 's) env \<Rightarrow> 'o submission \<Rightarrow> ('u, 's) ring cell \<Rightarrow> waker option" where
  "dropped_waker E s c =
     (case (sub_state s, c) of (Submitted k, Ready r) \<Rightarrow> waker_held E k r | _ \<Rightarrow> None)"

text \<open>
  Dropping a submission: the waker in its completion, if any, is dropped while the reactor is
  borrowed.
\<close>

definition rt_drop ::
    "('u, 's) env \<Rightarrow> ('o, 'out, 'w, 'z) multi_ops_scheme \<Rightarrow> nat \<Rightarrow> ('o, 'w, 'u, 's, 'c) world \<Rightarrow>
      panic + (('o, 'w, 'u, 's, 'c) world \<times> waker_call option)" where
  "rt_drop E T n w =
     (case sys_subs (rt_sys w) n of
        None \<Rightarrow> Inl UnwrapNone
      | Some s \<Rightarrow>
          on_ring E w (mapR (\<lambda>(c, _).
            let S = (rt_sys w)\<lparr>sys_subs := (sys_subs (rt_sys w))(n := None)\<rparr>
            in case (dropped_waker E s (sys_cell (rt_sys w)), c) of
                 (Some wk, Ready r) \<Rightarrow>
                   (w\<lparr>rt_sys := S\<lparr>sys_cell := Borrowed\<rparr>, rt_lent := Some (n, r)\<rparr>, Some (DropWaker wk))
               | _ \<Rightarrow> (w\<lparr>rt_sys := S\<lparr>sys_cell := c\<rparr>\<rparr>, None))
          (submission_drop E T s (sys_cell (rt_sys w)))))"

definition rt_unlend :: "nat \<Rightarrow> ('o, 'w, 'u, 's, 'c) world \<Rightarrow> ('o, 'w, 'u, 's, 'c) world" where
  "rt_unlend n w =
     (case rt_lent w of
        None \<Rightarrow> w
      | Some (m, r) \<Rightarrow>
          if m = n then w\<lparr>rt_sys := (rt_sys w)\<lparr>sys_cell := Ready r\<rparr>, rt_lent := None\<rparr> else w)"

definition rt_detach ::
    "('u, 's) env \<Rightarrow> ('o, 'out, 'w, 'z) multi_ops_scheme \<Rightarrow> ptr \<Rightarrow> 'o \<Rightarrow> ('o, 'w, 'u, 's, 'c) world \<Rightarrow>
      panic + ('o, 'w, 'u, 's, 'c) world" where
  "rt_detach E T this q w =
     on_ring E w (mapR (\<lambda>(_, v, c). w\<lparr>rt_sys := (rt_sys w)\<lparr>sys_world := v, sys_cell := c\<rparr>\<rparr>)
       (run_detached E T this q (sys_world (rt_sys w), sys_cell (rt_sys w))))"

text \<open>\<open>GlobalReactor::wait\<close>: each notification wakes by reference, then the completion's waker is dropped.\<close>

definition wake_calls :: "event list \<Rightarrow> waker_call list" where
  "wake_calls ev = concat (map (\<lambda>k. [WakeByRef k, DropWaker k]) (woken ev))"

definition rt_wait ::
    "('u, 's) env \<Rightarrow> ('o, 'w, 'u, 's, 'c) world \<Rightarrow> panic + (('o, 'w, 'u, 's, 'c) world \<times> waker_call list)" where
  "rt_wait E w =
     on_ring E w (mapR (\<lambda>(ev, c). (w\<lparr>rt_sys := (rt_sys w)\<lparr>sys_cell := c\<rparr>\<rparr>, wake_calls ev))
       (reactor_wait E (sys_cell (rt_sys w))))"

subsection \<open>Tasks\<close>

definition panicking :: "'w \<Rightarrow> panic + ('f, 'v) move \<times> 'w \<Rightarrow> ('f, 'v) move \<times> 'w" where
  "panicking w m = (case m of Inl p \<Rightarrow> (Panics p, w) | Inr r \<Rightarrow> r)"

definition effect_of :: "waker_call option \<Rightarrow> effect" where
  "effect_of cl = (case cl of None \<Rightarrow> Quiet | Some c \<Rightarrow> Call c)"

definition held_drop ::
    "('u, 's) env \<Rightarrow> ('o, 'out, 'w, 'z) multi_ops_scheme \<Rightarrow> ('c, 'v) oneshot_ops \<Rightarrow> holding \<Rightarrow>
      ('o, 'w, 'u, 's, 'c) world \<Rightarrow> panic + (('o, 'w, 'u, 's, 'c) world \<times> waker_call option)" where
  "held_drop E T C h w =
     (case h of Sub n \<Rightarrow> rt_drop E T n w | Handle c \<Rightarrow> Inr (on_chans_call (os_forget C c) w))"

definition drop_leaves :: "holding \<Rightarrow> leftover option" where
  "drop_leaves h = (case h of Sub n \<Rightarrow> Some (Release n) | Handle _ \<Rightarrow> None)"

definition drop_move ::
    "('u, 's) env \<Rightarrow> ('o, 'out, 'w, 'z) multi_ops_scheme \<Rightarrow> ('c, 'v) oneshot_ops \<Rightarrow> holding \<Rightarrow>
      ('o, 'out, 'v) task_state \<Rightarrow> ('o, 'w, 'u, 's, 'c) world \<Rightarrow>
      (('o, 'out, 'v) task_state, 'v) move \<times> ('o, 'w, 'u, 's, 'c) world" where
  "drop_move E T C h f w =
     panicking w (mapR (\<lambda>(w', cl). (Does (effect_of cl) (f\<lparr>ts_left := drop_leaves h\<rparr>), w')) (held_drop E T C h w))"

definition left_move ::
    "leftover \<Rightarrow> ('o, 'out, 'v) task_state \<Rightarrow> ('o, 'w, 'u, 's, 'c) world \<Rightarrow>
      (('o, 'out, 'v) task_state, 'v) move \<times> ('o, 'w, 'u, 's, 'c) world" where
  "left_move l f w =
     (case l of
        Release n \<Rightarrow> (Does Quiet (f\<lparr>ts_left := None\<rparr>), rt_unlend n w)
      | Stale k \<Rightarrow> (Does (Call (DropWaker k)) (f\<lparr>ts_left := None\<rparr>), w))"

definition without :: "nat \<Rightarrow> 'x list \<Rightarrow> 'x list" where
  "without j xs = take j xs @ drop (Suc j) xs"

definition sub_at_index :: "nat \<Rightarrow> holding list \<Rightarrow> nat option" where
  "sub_at_index j hs = (if j < length hs then (case hs ! j of Sub n \<Rightarrow> Some n | _ \<Rightarrow> None) else None)"

definition handle_at_index :: "nat \<Rightarrow> holding list \<Rightarrow> chan option" where
  "handle_at_index j hs = (if j < length hs then (case hs ! j of Handle c \<Rightarrow> Some c | _ \<Rightarrow> None) else None)"

text \<open>A poll of the future of the handle \<open>j\<close>; the handle is gone once it is ready.\<close>

definition join_move ::
    "('c, 'v) oneshot_ops \<Rightarrow> nat \<Rightarrow> chan \<Rightarrow> ('v option option \<Rightarrow> ('o, 'out, 'v) program) \<Rightarrow>
      ('o, 'out, 'v) task_state \<Rightarrow> task_id \<Rightarrow> ('o, 'w, 'u, 's, 'c) world \<Rightarrow>
      (('o, 'out, 'v) task_state, 'v) move \<times> ('o, 'w, 'u, 's, 'c) world" where
  "join_move C j ch k f i w =
     (let (x, w', cl, old) = join_poll (\<lambda>c i. on_chans (os_recv C c i)) (\<lambda>c. on_chans_call (os_forget C c)) ch i w
      in (Does (effect_of cl)
            (f\<lparr>ts_code := k x, ts_held := (case x of None \<Rightarrow> ts_held f | Some _ \<Rightarrow> without j (ts_held f)),
               ts_left := map_option Stale old\<rparr>), w'))"

text \<open>One move of a task's poll. A program makes only operations that satisfy their contract \<open>ok\<close>.\<close>

definition task_move ::
    "('u, 's) env \<Rightarrow> ('o, 'out, 'w, 'z) multi_ops_scheme \<Rightarrow> (ptr \<Rightarrow> 'o \<Rightarrow> bool) \<Rightarrow> ('c, 'v) oneshot_ops \<Rightarrow>
      ('o, 'out, 'v) task_state \<Rightarrow> task_id \<Rightarrow> ('o, 'w, 'u, 's, 'c) world \<Rightarrow>
      (('o, 'out, 'v) task_state, 'v) move \<times> ('o, 'w, 'u, 's, 'c) world" where
  "task_move E T ok C f i w =
     (case ts_left f of
        Some l \<Rightarrow> left_move l f w
      | None \<Rightarrow>
          (let held = ts_held f; go = (\<lambda>p. f\<lparr>ts_code := p\<rparr>)
           in case ts_code f of
                Finish v \<Rightarrow>
                  (case held of [] \<Rightarrow> (Ends v, w) | h # hs \<Rightarrow> drop_move E T C h (f\<lparr>ts_held := hs\<rparr>) w)
              | Make this q p \<Rightarrow>
                  if ok this q then (Does Quiet ((go p)\<lparr>ts_held := held @ [Sub (rt_next w)]\<rparr>), rt_make this q w)
                  else (Does Quiet (go p), w)
              | PollSub j k \<Rightarrow>
                  (case sub_at_index j held of
                     None \<Rightarrow> (Panics IndexOutOfBounds, w)
                   | Some n \<Rightarrow>
                       panicking w (mapR (\<lambda>(out, first, w').
                         (Does (if first then Call (CloneWaker i) else Quiet) (go (k out)), w')) (rt_poll E T n i w)))
              | Discard j p \<Rightarrow>
                  if j < length held then drop_move E T C (held ! j) ((go p)\<lparr>ts_held := without j held\<rparr>) w
                  else (Panics IndexOutOfBounds, w)
              | SubmitDetached this q p \<Rightarrow>
                  if ok this q then panicking w (mapR (\<lambda>w'. (Does Quiet (go p), w')) (rt_detach E T this q w))
                  else (Does Quiet (go p), w)
              | Fork j child p \<Rightarrow>
                  (Spawns \<lparr>ts_code = child, ts_held = drop j held, ts_left = None\<rparr>
                     (\<lambda>c. (go p)\<lparr>ts_held := take j held @ [Handle c]\<rparr>), w)
              | Join j k \<Rightarrow>
                  (case handle_at_index j held of
                     None \<Rightarrow> (Panics IndexOutOfBounds, w)
                   | Some c \<Rightarrow> join_move C j c k f i w)
              | TryJoin j k \<Rightarrow>
                  (case handle_at_index j held of
                     None \<Rightarrow> (Panics IndexOutOfBounds, w)
                   | Some c \<Rightarrow>
                       (let (v, w') = join_try_join (\<lambda>c. on_chans (os_try_recv C c)) c w in (Does Quiet (go (k v)), w')))
              | WakeMe p \<Rightarrow> (Does (Call (WakeByRef i)) (go p), w)
              | Yield p \<Rightarrow> (Pends (go p), w)))"

definition task_parts :: "('o, 'out, 'v) task_state \<Rightarrow> destructor list" where
  "task_parts f = (case ts_left f of None \<Rightarrow> [] | Some l \<Rightarrow> [EndLeft l]) @ map DropHeld (ts_held f)"

definition destructor_act ::
    "('u, 's) env \<Rightarrow> ('o, 'out, 'w, 'z) multi_ops_scheme \<Rightarrow> ('c, 'v) oneshot_ops \<Rightarrow> destructor \<Rightarrow>
      ('o, 'w, 'u, 's, 'c) world \<Rightarrow> panic + (('o, 'w, 'u, 's, 'c) world \<times> waker_call option)" where
  "destructor_act E T C d w =
     (case d of
        DropHeld h \<Rightarrow> held_drop E T C h w
      | EndLeft l \<Rightarrow> Inr (w, case l of Release _ \<Rightarrow> None | Stale k \<Rightarrow> Some (DropWaker k)))"

definition left_after :: "leftover option \<Rightarrow> ('o, 'w, 'u, 's, 'c) world \<Rightarrow> ('o, 'w, 'u, 's, 'c) world" where
  "left_after l w = (case l of Some (Release n) \<Rightarrow> rt_unlend n w | _ \<Rightarrow> w)"

definition destructor_after :: "destructor \<Rightarrow> ('o, 'w, 'u, 's, 'c) world \<Rightarrow> ('o, 'w, 'u, 's, 'c) world" where
  "destructor_after d = left_after (case d of DropHeld h \<Rightarrow> drop_leaves h | EndLeft l \<Rightarrow> Some l)"

definition runtime_env ::
    "('u, 's) env \<Rightarrow> ('o, 'out, 'w, 'z) multi_ops_scheme \<Rightarrow> (ptr \<Rightarrow> 'o \<Rightarrow> bool) \<Rightarrow> ('c, 'v) oneshot_ops \<Rightarrow>
      (('o, 'out, 'v) task_state, 'v, ('o, 'w, 'u, 's, 'c) world, destructor) exec_env" where
  "runtime_env E T ok C =
     \<lparr>ex_poll = task_move E T ok C, ex_parts = task_parts, ex_act = destructor_act E T C,
      ex_after = destructor_after,
      ch_new = on_chans (os_new C), ch_send = (\<lambda>c v. on_chans_call (os_send C c v)),
      ch_close = (\<lambda>c. on_chans_call (os_close C c)), ch_forget = (\<lambda>c. on_chans_call (os_forget C c)),
      ch_try_recv = (\<lambda>c. on_chans (os_try_recv C c)),
      react_wait = rt_wait E\<rparr>"

subsection \<open>The functions of the crate (inel/src/lib.rs)\<close>

definition new_task :: "('o, 'out, 'v) program \<Rightarrow> ('o, 'out, 'v) task_state" where
  "new_task p = \<lparr>ts_code = p, ts_held = [], ts_left = None\<rparr>"

definition inel_spawn ::
    "('u, 's) env \<Rightarrow> ('o, 'out, 'w, 'z) multi_ops_scheme \<Rightarrow> (ptr \<Rightarrow> 'o \<Rightarrow> bool) \<Rightarrow> ('c, 'v) oneshot_ops \<Rightarrow>
      ('o, 'out, 'v) program \<Rightarrow> (('o, 'out, 'v) task_state, ('o, 'w, 'u, 's, 'c) world) executor \<Rightarrow>
      chan \<times> (('o, 'out, 'v) task_state, ('o, 'w, 'u, 's, 'c) world) executor" where
  "inel_spawn E T ok C p = executor_spawn (runtime_env E T ok C) (new_task p)"

definition inel_block_on ::
    "('u, 's) env \<Rightarrow> ('o, 'out, 'w, 'z) multi_ops_scheme \<Rightarrow> (ptr \<Rightarrow> 'o \<Rightarrow> bool) \<Rightarrow> ('c, 'v) oneshot_ops \<Rightarrow> nat \<Rightarrow>
      ('o, 'out, 'v) program \<Rightarrow> (('o, 'out, 'v) task_state, ('o, 'w, 'u, 's, 'c) world) executor \<Rightarrow>
      (panic + ('v \<times> (('o, 'out, 'v) task_state, ('o, 'w, 'u, 's, 'c) world) executor)) option" where
  "inel_block_on E T ok C n p = block_on (runtime_env E T ok C) n (new_task p)"

definition inel_run ::
    "('u, 's) env \<Rightarrow> ('o, 'out, 'w, 'z) multi_ops_scheme \<Rightarrow> (ptr \<Rightarrow> 'o \<Rightarrow> bool) \<Rightarrow> ('c, 'v) oneshot_ops \<Rightarrow> nat \<Rightarrow>
      (('o, 'out, 'v) task_state, ('o, 'w, 'u, 's, 'c) world) executor \<Rightarrow>
      (panic + (('o, 'out, 'v) task_state, ('o, 'w, 'u, 's, 'c) world) executor) option" where
  "inel_run E T ok C = executor_run (runtime_env E T ok C)"

definition fresh_world :: "'w \<Rightarrow> ('u, 's) ring \<Rightarrow> 'c \<Rightarrow> ('o, 'w, 'u, 's, 'c) world" where
  "fresh_world v r c =
     \<lparr>rt_sys = \<lparr>sys_subs = Map.empty, sys_world = v, sys_cell = Ready r\<rparr>, rt_next = 0, rt_lent = None, rt_chans = c\<rparr>"

end
