(* ===== verification/RuntimeSafe.thy ===== *)
theory RuntimeSafe
  imports Runtime
begin

section \<open>The runtime meets the executor's contract\<close>

text \<open>
  \<open>rt_ok\<close> is the invariant of the world: the invariant of systems for the ring, in place or
  behind the borrow, single-shot operations only, and one duty for every submission. A task
  has the duty \<open>Name n\<close> to drop each submission it holds; dropping it leaves the duty \<open>Lease n\<close>
  to end the borrow it may have taken. The wakers of the world are those of the ring and of the
  channels; a task owns one only between the poll of a join handle and the drop of the waker
  that was there before. The locale
  \<open>async_runtime\<close> shows that a program over any sound ring and any sound channels satisfies
  \<open>owning\<close>, so all of the executor's lemmas hold for the runtime.
\<close>

datatype duty = Name nat | Lease nat

definition held_duty :: "holding \<Rightarrow> duty multiset" where
  "held_duty h = (case h of Sub n \<Rightarrow> {#Name n#} | Handle _ \<Rightarrow> {#})"

definition left_duty :: "leftover option \<Rightarrow> duty multiset" where
  "left_duty l = (case l of Some (Release n) \<Rightarrow> {#Lease n#} | _ \<Rightarrow> {#})"

definition left_waker :: "leftover option \<Rightarrow> task_id multiset" where
  "left_waker l = (case l of Some (Stale k) \<Rightarrow> {#k#} | _ \<Rightarrow> {#})"

definition task_duties :: "('o, 'out, 'v) task_state \<Rightarrow> duty multiset" where
  "task_duties f = left_duty (ts_left f) + (\<Sum>h\<leftarrow>ts_held f. held_duty h)"

definition task_wakers :: "('o, 'out, 'v) task_state \<Rightarrow> task_id multiset" where
  "task_wakers f = left_waker (ts_left f)"

definition duties_before :: "destructor \<Rightarrow> duty multiset" where
  "duties_before d = (case d of DropHeld h \<Rightarrow> held_duty h | EndLeft l \<Rightarrow> left_duty (Some l))"

definition duties_after :: "destructor \<Rightarrow> duty multiset" where
  "duties_after d = left_duty (case d of DropHeld h \<Rightarrow> drop_leaves h | EndLeft l \<Rightarrow> Some l)"

definition wakers_before :: "destructor \<Rightarrow> task_id multiset" where
  "wakers_before d = (case d of DropHeld _ \<Rightarrow> {#} | EndLeft l \<Rightarrow> left_waker (Some l))"

definition wakers_after :: "destructor \<Rightarrow> task_id multiset" where
  "wakers_after d = {#}"

lemma left_simps [simp]:
  "left_duty None = {#}" "left_duty (Some (Release n)) = {#Lease n#}" "left_duty (Some (Stale k)) = {#}"
  "left_waker None = {#}" "left_waker (Some (Release n)) = {#}" "left_waker (Some (Stale k)) = {#k#}"
  "held_duty (Sub n) = {#Name n#}" "held_duty (Handle c) = {#}"
  "drop_leaves (Sub n) = Some (Release n)" "drop_leaves (Handle c) = None"
  "left_waker (drop_leaves h) = {#}"
  by (simp_all add: left_duty_def left_waker_def held_duty_def drop_leaves_def split: holding.splits)

lemma at_index:
  "sub_at_index j hs = Some n \<Longrightarrow> j < length hs \<and> hs ! j = Sub n"
  "handle_at_index j hs = Some c \<Longrightarrow> j < length hs \<and> hs ! j = Handle c"
  by (auto simp: sub_at_index_def handle_at_index_def split: if_splits holding.splits)

definition rt_ring :: "('o, 'w, 'u, 's, 'c) world \<Rightarrow> ('u, 's) ring option" where
  "rt_ring w =
     (case rt_lent w of
        Some (_, r) \<Rightarrow> Some r
      | None \<Rightarrow> (case sys_cell (rt_sys w) of Ready r \<Rightarrow> Some r | _ \<Rightarrow> None))"

definition rt_wakers :: "('u, 's) env \<Rightarrow> ('c \<Rightarrow> task_id multiset) \<Rightarrow> ('o, 'w, 'u, 's, 'c) world \<Rightarrow> task_id multiset" where
  "rt_wakers E own_c w =
     (case rt_ring w of None \<Rightarrow> {#} | Some r \<Rightarrow> wakers_of (ring_abs E r)) + own_c (rt_chans w)"

definition sound_ring ::
    "('u, 's) env \<Rightarrow> ('s \<Rightarrow> bool) \<Rightarrow> ('u \<Rightarrow> sqe multiset) \<Rightarrow> ('u \<Rightarrow> bool) \<Rightarrow> (ptr \<Rightarrow> 'o \<Rightarrow> bool) \<Rightarrow>
      (nat \<rightharpoonup> 'o submission) \<Rightarrow> ('u, 's) ring \<Rightarrow> bool" where
  "sound_ring E valid pending uvalid ok subs r \<longleftrightarrow>
     ring_inv E valid pending uvalid r \<and> shaped (env_cq E) (ring_abs E r) \<and>
     subs_inv E pending ok (\<lambda>_. False) r subs \<and> tidy E valid pending r"

definition named :: "duty multiset \<Rightarrow> (nat \<rightharpoonup> 'o submission) \<Rightarrow> nat \<Rightarrow> bool" where
  "named R subs next \<longleftrightarrow>
     (\<forall>n. count R (Name n) = (if n \<in> dom subs then 1 else 0)) \<and> dom subs \<subseteq> {..<next}"

definition rt_ok ::
    "('u, 's) env \<Rightarrow> ('s \<Rightarrow> bool) \<Rightarrow> ('u \<Rightarrow> sqe multiset) \<Rightarrow> ('u \<Rightarrow> bool) \<Rightarrow> (ptr \<Rightarrow> 'o \<Rightarrow> bool) \<Rightarrow>
      duty multiset \<Rightarrow> ('o, 'w, 'u, 's, 'c) world \<Rightarrow> bool" where
  "rt_ok E valid pending uvalid ok R w \<longleftrightarrow>
     (\<exists>r. sound_ring E valid pending uvalid ok (sys_subs (rt_sys w)) r \<and>
        (case rt_lent w of
           None \<Rightarrow> sys_cell (rt_sys w) = Ready r
         | Some (n, r') \<Rightarrow> r' = r \<and> sys_cell (rt_sys w) = Borrowed \<and> Lease n \<in># R)) \<and>
     named R (sys_subs (rt_sys w)) (rt_next w)"

text \<open>The panics a run may end with.\<close>

definition runtime_panic :: "('o, 'out, 'w, 'z) multi_ops_scheme \<Rightarrow> panic \<Rightarrow> bool" where
  "runtime_panic T p \<longleftrightarrow>
     op_fault T p \<or>
     p \<in> {SubmissionQueueFull, WaitFailed, Overflow, ReactorBusy, PolledCompleted, IndexOutOfBounds}"

locale oneshot_channels =
  fixes C :: "('c, 'v) oneshot_ops" and own_c :: "'c \<Rightarrow> task_id multiset"
  assumes os_new: "os_new C c = (ch, c') \<Longrightarrow> own_c c' = own_c c"
    and os_send: "os_send C ch v c = (c', cl) \<Longrightarrow> pays (own_c c) cl (own_c c')"
    and os_close: "os_close C ch c = (c', cl) \<Longrightarrow> pays (own_c c) cl (own_c c')"
    and os_forget: "os_forget C ch c = (c', cl) \<Longrightarrow> pays (own_c c) cl (own_c c')"
    and os_try_recv: "os_try_recv C ch c = (x, c') \<Longrightarrow> own_c c' = own_c c"
    and os_recv_ready: "os_recv C ch i c = (Inl r, c') \<Longrightarrow> own_c c' = own_c c"
    and os_recv_pending: "os_recv C ch i c = (Inr old, c') \<Longrightarrow>
      own_c c + {#i#} = own_c c' + (case old of None \<Rightarrow> {#} | Some k \<Rightarrow> {#k#})"

locale async_runtime = driver E valid pending uvalid T ok "\<lambda>_. False" + oneshot_channels C own_c
  for E :: "('u, 's) env" and valid :: "'s \<Rightarrow> bool"
    and pending :: "'u \<Rightarrow> sqe multiset" and uvalid :: "'u \<Rightarrow> bool"
    and T :: "('o, 'out, 'w, 'z) multi_ops_scheme" and ok :: "ptr \<Rightarrow> 'o \<Rightarrow> bool"
    and C :: "('c, 'v) oneshot_ops" and own_c :: "'c \<Rightarrow> task_id multiset"
begin

abbreviation wok :: "duty multiset \<Rightarrow> ('o, 'w, 'u, 's, 'c) world \<Rightarrow> bool" where
  "wok R w \<equiv> rt_ok E valid pending uvalid ok R w"

abbreviation wakers :: "('o, 'w, 'u, 's, 'c) world \<Rightarrow> task_id multiset" where
  "wakers w \<equiv> rt_wakers E own_c w"

text \<open>A ring in reach that is not crowded has the room the ring's lemmas ask for.\<close>

lemma not_crowded:
  "ring_inv E valid pending uvalid r \<Longrightarrow> \<not> crowded E (Ready r) \<Longrightarrow> roomy E pending r"
  using counted_pending_size [of "pending (uring r)" r "ring_abs E r"] inv_parts(3) [of r]
  by (simp add: crowded_def roomy_def)

text \<open>The ring of a sound world is in place, with room, or borrowed.\<close>

lemma on_ringI:
  assumes w: "wok R w"
    and b: "\<And>n r. rt_lent w = Some (n, r) \<Longrightarrow> sys_cell (rt_sys w) = Borrowed \<Longrightarrow> Lease n \<in># R \<Longrightarrow>
      sound_ring E valid pending uvalid ok (sys_subs (rt_sys w)) r \<Longrightarrow> yields (runtime_panic T) Q m"
    and r: "\<And>r. rt_lent w = None \<Longrightarrow> sys_cell (rt_sys w) = Ready r \<Longrightarrow>
      sound_ring E valid pending uvalid ok (sys_subs (rt_sys w)) r \<Longrightarrow> roomy E pending r \<Longrightarrow> yields (runtime_panic T) Q m"
  shows "yields (runtime_panic T) Q (on_ring E w m)"
proof (cases "crowded E (sys_cell (rt_sys w))")
  case True
  then show ?thesis by (simp add: on_ring_def runtime_panic_def)
next
  case False
  then have "on_ring E w m = m" by (simp add: on_ring_def)
  moreover obtain r where s: "sound_ring E valid pending uvalid ok (sys_subs (rt_sys w)) r"
      "case rt_lent w of None \<Rightarrow> sys_cell (rt_sys w) = Ready r
         | Some (n, r') \<Rightarrow> r' = r \<and> sys_cell (rt_sys w) = Borrowed \<and> Lease n \<in># R"
    using w by (auto simp: rt_ok_def)
  moreover have "roomy E pending r" if "sys_cell (rt_sys w) = Ready r"
    using not_crowded [of r] s(1) False that by (simp add: sound_ring_def)
  ultimately show ?thesis using b r by (auto split: option.splits)
qed

lemma wakers_ready: "rt_lent w = None \<Longrightarrow> sys_cell (rt_sys w) = Ready r \<Longrightarrow> wakers w = wakers_of (ring_abs E r) + own_c (rt_chans w)"
  by (simp add: rt_wakers_def rt_ring_def)

lemma wok_ready:
  "rt_lent w = None \<Longrightarrow> sys_cell (rt_sys w) = Ready r \<Longrightarrow>
    wok R w \<longleftrightarrow> sound_ring E valid pending uvalid ok (sys_subs (rt_sys w)) r \<and> named R (sys_subs (rt_sys w)) (rt_next w)"
  by (auto simp: rt_ok_def)

lemma allowed_runtime: "allowed_panic p \<Longrightarrow> runtime_panic T p"
  by (auto simp: allowed_panic_def runtime_panic_def)

text \<open>What is named is there.\<close>

lemma named_in: "named (add_mset (Name n) R) subs m \<Longrightarrow> \<exists>s. subs n = Some s"
  unfolding named_def by (auto dest!: spec [where x = n] split: if_splits)

lemma named_update: "named R subs m \<Longrightarrow> subs n = Some s \<Longrightarrow> named R (subs(n \<mapsto> s')) m"
  by (auto simp: named_def dom_def)

lemma named_remove:
  assumes "named (add_mset (Name n) R) subs m"
  shows "named R (subs(n := None)) m"
proof -
  have a: "count (add_mset (Name n) R) (Name j) = (if j \<in> dom subs then 1 else 0)" for j
    using assms unfolding named_def by blast
  have "count R (Name j) = (if j \<in> dom (subs(n := None)) then 1 else 0)" for j
    using a [of j] by (cases "j = n") (auto split: if_splits)
  then show ?thesis using assms by (auto simp: named_def)
qed

lemma sound_sub: "sound_ring E valid pending uvalid ok subs r \<Longrightarrow> subs n = Some s \<Longrightarrow> sub_ok s"
  by (auto simp: sound_ring_def subs_inv_def)

subsection \<open>The operations\<close>

lemma poll_borrowed:
  assumes "sub_ok s"
  shows "\<exists>p. submission_poll E T wk s (v, Borrowed) = Inl p \<and> runtime_panic T p"
  using assms
proof (cases rule: sub_ok_cases)
  case (initial q)
  then show ?thesis
    by (cases "op_entry T (sub_at s) q v")
      (auto simp: submission_poll_def state_take_def submission_start_def runtime_panic_def op_fault_def
        reactor_submit_def with_ring_def)
qed (auto simp: submission_poll_def state_take_def runtime_panic_def reactor_check_result_def with_ring_def)

lemma drop_borrowed:
  "sub_ok s \<Longrightarrow> submission_drop E T s Borrowed = Inl ReactorBusy \<or>
    (\<forall>k. sub_state s \<noteq> Submitted k) \<and> (\<exists>ev. submission_drop E T s Borrowed = Inr (Borrowed, ev))"
  by (cases rule: sub_ok_cases)
    (auto simp: submission_drop_def submission_cancel_def manually_take_def reactor_cancel_def with_ring_def
      split: prod.splits)

lemma poll_inv:
  assumes w: "wok (add_mset (Name n) R) w"
  shows "yields (runtime_panic T) (\<lambda>(out, first, w'). wok (add_mset (Name n) R) w' \<and>
      wakers w' = wakers w + (if first then {#i#} else {#})) (rt_poll E T n i w)"
proof -
  have nm: "named (add_mset (Name n) R) (sys_subs (rt_sys w)) (rt_next w)" using w by (simp add: rt_ok_def)
  obtain s where s: "sys_subs (rt_sys w) n = Some s" using named_in [OF nm] by blast
  show ?thesis
    unfolding rt_poll_def s option.case yields_simps
  proof (rule on_ringI [OF w])
    fix m r assume b: "sys_cell (rt_sys w) = Borrowed" and "sound_ring E valid pending uvalid ok (sys_subs (rt_sys w)) r"
    then have "sub_ok s" using s by (blast intro: sound_sub)
    from poll_borrowed [OF this, of i "sys_world (rt_sys w)"] b show "yields (runtime_panic T) (\<lambda>(out, first, w'). wok (add_mset (Name n) R) w' \<and>
        wakers w' = wakers w + (if first then {#i#} else {#}))
      (mapR (\<lambda>(out, s', v, c). (out, sub_state s = Initial,
           w\<lparr>rt_sys := \<lparr>sys_subs = (sys_subs (rt_sys w))(n \<mapsto> s'), sys_world = v, sys_cell = c\<rparr>\<rparr>))
         (submission_poll E T i s (sys_world (rt_sys w), sys_cell (rt_sys w))))"
      by auto
  next
    fix r assume l: "rt_lent w = None" "sys_cell (rt_sys w) = Ready r" and room: "roomy E pending r"
      and sr: "sound_ring E valid pending uvalid ok (sys_subs (rt_sys w)) r"
    note p = sr [unfolded sound_ring_def]
    have t: "tidy E valid pending r" and i: "ring_inv E valid pending uvalid r"
      and si: "subs_inv E pending ok (\<lambda>_. False) r (sys_subs (rt_sys w))"
      and sh: "shaped (env_cq E) (ring_abs E r)" using p by simp_all
    let ?m = "submission_poll E T i s (sys_world (rt_sys w), sys_cell (rt_sys w))"
    consider "sub_state s = Completed" | p where "?m = Inl p" "allowed_panic p"
      | out s' v r' where "?m = Inr (out, s', v, Ready r')" "ring_inv E valid pending uvalid r'"
          "shaped (env_cq E) (ring_abs E r')" "subs_inv E pending ok (\<lambda>_. False) r' ((sys_subs (rt_sys w))(n \<mapsto> s'))"
      using poll_keeps [OF i room sh si s, of i "sys_world (rt_sys w)"] l by (cases "sub_state s = Completed") auto
    then show "yields (runtime_panic T) (\<lambda>(out, first, w'). wok (add_mset (Name n) R) w' \<and>
        wakers w' = wakers w + (if first then {#i#} else {#}))
      (mapR (\<lambda>(out, s', v, c). (out, sub_state s = Initial,
           w\<lparr>rt_sys := \<lparr>sys_subs = (sys_subs (rt_sys w))(n \<mapsto> s'), sys_world = v, sys_cell = c\<rparr>\<rparr>))
         (submission_poll E T i s (sys_world (rt_sys w), sys_cell (rt_sys w))))"
    proof cases
      case 1
      then show ?thesis by (simp add: submission_poll_def state_take_def runtime_panic_def)
    next
      case (2 p)
      then show ?thesis by (simp add: allowed_runtime)
    next
      case (3 out s' v r')
      have "tidy E valid pending r' \<and>
          wakers_of (ring_abs E r') = wakers_of (ring_abs E r) + (if sub_state s = Initial then {#i#} else {#})"
        by (rule poll_tidy [OF _ t i room si s]) (use 3(1) l in simp_all)
      then show ?thesis
        using 3 l named_update [OF nm s, of s']
        by (simp add: wok_ready [where r = r'] sound_ring_def wakers_ready [where r = r] wakers_ready [where r = r'] ac_simps)
    qed
  qed
qed

lemma drop_inv:
  assumes w: "wok ({#Name n#} + R) w"
  shows "yields (runtime_panic T) (\<lambda>(w', cl). wok ({#Lease n#} + R) w' \<and>
      (case cl of None \<Rightarrow> wakers w = wakers w' | Some c \<Rightarrow> \<exists>k. c = DropWaker k \<and> wakers w = add_mset k (wakers w')))
    (rt_drop E T n w)"
proof -
  have nm: "named (add_mset (Name n) R) (sys_subs (rt_sys w)) (rt_next w)"
    using w by (simp add: rt_ok_def)
  obtain s where s: "sys_subs (rt_sys w) n = Some s" using named_in [OF nm] by blast
  have rem: "named (add_mset (Lease n) R) ((sys_subs (rt_sys w))(n := None)) (rt_next w)"
    using named_remove [OF nm] by (simp add: named_def)
  let ?S = "(rt_sys w)\<lparr>sys_subs := (sys_subs (rt_sys w))(n := None)\<rparr>"
  show ?thesis
    unfolding rt_drop_def s option.case Let_def
  proof (rule on_ringI [OF w])
    fix m r assume l: "rt_lent w = Some (m, r)" and b: "sys_cell (rt_sys w) = Borrowed"
      and sr: "sound_ring E valid pending uvalid ok (sys_subs (rt_sys w)) r" and le: "Lease m \<in># {#Name n#} + R"
    have "sub_ok s" using s sr by (blast intro: sound_sub)
    from drop_borrowed [OF this]
    consider "submission_drop E T s Borrowed = Inl ReactorBusy"
      | ev where "\<forall>k. sub_state s \<noteq> Submitted k" "submission_drop E T s Borrowed = Inr (Borrowed, ev)" by blast
    then show "yields (runtime_panic T) (\<lambda>(w', cl). wok ({#Lease n#} + R) w' \<and>
        (case cl of None \<Rightarrow> wakers w = wakers w' | Some c \<Rightarrow> \<exists>k. c = DropWaker k \<and> wakers w = add_mset k (wakers w')))
      (mapR (\<lambda>(c, _). case (dropped_waker E s (sys_cell (rt_sys w)), c) of
           (Some wk, Ready r) \<Rightarrow> (w\<lparr>rt_sys := ?S\<lparr>sys_cell := Borrowed\<rparr>, rt_lent := Some (n, r)\<rparr>, Some (DropWaker wk))
         | _ \<Rightarrow> (w\<lparr>rt_sys := ?S\<lparr>sys_cell := c\<rparr>\<rparr>, None))
        (submission_drop E T s (sys_cell (rt_sys w))))"
    proof cases
      case 1
      then show ?thesis by (simp add: b runtime_panic_def)
    next
      case (2 ev)
      have "subs_inv E pending ok (\<lambda>_. False) r ((sys_subs (rt_sys w))(n := None))"
        using sr s 2(1) by (intro subs_inv_update [where r = r]) (auto simp: sound_ring_def)
      then have "sound_ring E valid pending uvalid ok ((sys_subs (rt_sys w))(n := None)) r"
        using sr by (simp add: sound_ring_def)
      then show ?thesis
        using 2 l le rem by (simp add: b dropped_waker_def rt_ok_def rt_wakers_def rt_ring_def split: submission_state.splits)
    qed
  next
    fix r assume l: "rt_lent w = None" "sys_cell (rt_sys w) = Ready r" and room: "roomy E pending r"
      and sr: "sound_ring E valid pending uvalid ok (sys_subs (rt_sys w)) r"
    have t: "tidy E valid pending r" and i: "ring_inv E valid pending uvalid r"
      and si: "subs_inv E pending ok (\<lambda>_. False) r (sys_subs (rt_sys w))"
      and sh: "shaped (env_cq E) (ring_abs E r)" using sr [unfolded sound_ring_def] by simp_all
    show "yields (runtime_panic T) (\<lambda>(w', cl). wok ({#Lease n#} + R) w' \<and>
        (case cl of None \<Rightarrow> wakers w = wakers w' | Some c \<Rightarrow> \<exists>k. c = DropWaker k \<and> wakers w = add_mset k (wakers w')))
      (mapR (\<lambda>(c, _). case (dropped_waker E s (sys_cell (rt_sys w)), c) of
           (Some wk, Ready r) \<Rightarrow> (w\<lparr>rt_sys := ?S\<lparr>sys_cell := Borrowed\<rparr>, rt_lent := Some (n, r)\<rparr>, Some (DropWaker wk))
         | _ \<Rightarrow> (w\<lparr>rt_sys := ?S\<lparr>sys_cell := c\<rparr>\<rparr>, None))
        (submission_drop E T s (sys_cell (rt_sys w))))"
      using drop_keeps [OF i room sh si s]
    proof (elim disjE exE conjE)
      fix r' ev assume d: "submission_drop E T s (Ready r) = Inr (Ready r', ev)" "ring_inv E valid pending uvalid r'"
        "shaped (env_cq E) (ring_abs E r')" "subs_inv E pending ok (\<lambda>_. False) r' ((sys_subs (rt_sys w))(n := None))"
      note td = drop_tidy [OF t i room si s d(1)]
      have sr': "sound_ring E valid pending uvalid ok ((sys_subs (rt_sys w))(n := None)) r'"
        using d td by (simp add: sound_ring_def)
      have "(case sub_state s of Submitted k \<Rightarrow> waker_in (ring_abs E r k) | _ \<Rightarrow> {#}) =
          (case dropped_waker E s (Ready r) of None \<Rightarrow> {#} | Some wk \<Rightarrow> {#wk#})"
        using waker_held_in [of E valid r] t
        by (simp add: dropped_waker_def tidy_def split: submission_state.splits)
      then show ?thesis
        using d sr' td rem l
        by (cases "dropped_waker E s (Ready r)") (auto simp: rt_ok_def rt_wakers_def rt_ring_def)
    qed (simp add: l runtime_panic_def)
  qed
qed

lemma unlend_inv: "wok ({#Lease n#} + R) w \<Longrightarrow> wok R (rt_unlend n w) \<and> wakers (rt_unlend n w) = wakers w"
  by (auto simp: rt_ok_def rt_unlend_def rt_wakers_def rt_ring_def named_def split: option.splits if_splits)

lemma make_inv:
  assumes w: "wok R w" and q: "ok this q"
  shows "wok ({#Name (rt_next w)#} + R) (rt_make this q w) \<and> wakers (rt_make this q w) = wakers w"
proof -
  let ?n = "rt_next w" and ?subs = "sys_subs (rt_sys w)"
  have nm: "named R ?subs ?n" using w by (simp add: rt_ok_def)
  then have f: "?subs ?n = None" by (auto simp: named_def)
  have "named ({#Name ?n#} + R) (?subs(?n \<mapsto> submission_new this q)) (?n + 1)"
    using nm f by (auto simp: named_def dom_def)
  moreover have "sound_ring E valid pending uvalid ok (?subs(?n \<mapsto> submission_new this q)) r"
    if "sound_ring E valid pending uvalid ok ?subs r" for r
    using that create_keeps [of r ?subs ?n this q, OF _ f q] by (simp add: sound_ring_def)
  ultimately show ?thesis
    using w by (auto simp: rt_ok_def rt_make_def rt_wakers_def rt_ring_def split: option.splits)
qed

lemma detach_inv:
  assumes w: "wok R w" and q: "ok this q"
  shows "yields (runtime_panic T) (\<lambda>w'. wok R w' \<and> wakers w' = wakers w) (rt_detach E T this q w)"
  unfolding rt_detach_def
proof (rule on_ringI [OF w])
  assume "sys_cell (rt_sys w) = Borrowed"
  then show "yields (runtime_panic T) (\<lambda>w'. wok R w' \<and> wakers w' = wakers w)
      (mapR (\<lambda>(_, v, c). w\<lparr>rt_sys := (rt_sys w)\<lparr>sys_world := v, sys_cell := c\<rparr>\<rparr>)
       (run_detached E T this q (sys_world (rt_sys w), sys_cell (rt_sys w))))"
    by (cases "op_entry T this q (sys_world (rt_sys w))")
      (auto simp: run_detached_def reactor_submit_detached_def with_ring_def runtime_panic_def op_fault_def)
next
  fix r assume l: "rt_lent w = None" "sys_cell (rt_sys w) = Ready r" and room: "roomy E pending r"
    and sr: "sound_ring E valid pending uvalid ok (sys_subs (rt_sys w)) r"
  have t: "tidy E valid pending r" and i: "ring_inv E valid pending uvalid r"
    and si: "subs_inv E pending ok (\<lambda>_. False) r (sys_subs (rt_sys w))"
    and sh: "shaped (env_cq E) (ring_abs E r)" using sr [unfolded sound_ring_def] by simp_all
  show "yields (runtime_panic T) (\<lambda>w'. wok R w' \<and> wakers w' = wakers w)
      (mapR (\<lambda>(_, v, c). w\<lparr>rt_sys := (rt_sys w)\<lparr>sys_world := v, sys_cell := c\<rparr>\<rparr>)
       (run_detached E T this q (sys_world (rt_sys w), sys_cell (rt_sys w))))"
    using detach_keeps [where w = "sys_world (rt_sys w)" and this = this and q = q, OF i room notI sh si, simplified]
  proof (elim disjE exE conjE)
    fix q' v r' assume d: "run_detached E T this q (sys_world (rt_sys w), Ready r) = Inr (q', v, Ready r')"
      "ring_inv E valid pending uvalid r'" "shaped (env_cq E) (ring_abs E r')"
      "subs_inv E pending ok (\<lambda>_. False) r' (sys_subs (rt_sys w))"
    then show ?thesis
      using detach_tidy [OF _ t i room d(1)] w l by (simp add: rt_ok_def sound_ring_def rt_wakers_def rt_ring_def)
  qed (auto simp: l runtime_panic_def)
qed

lemma settles_wake_calls: "settles (mset (woken ev)) (wake_calls ev)"
proof -
  have "settles (mset ks) (concat (map (\<lambda>k. [WakeByRef k, DropWaker k]) ks))" for ks
    by (induction ks) (auto simp: pays_def)
  then show ?thesis by (simp add: wake_calls_def)
qed

lemma wait_inv:
  assumes w: "wok R w"
  shows "yields (runtime_panic T) (\<lambda>(w', cs). \<exists>D. wakers w = wakers w' + D \<and> settles D cs \<and> wok R w') (rt_wait E w)"
  unfolding rt_wait_def
proof (rule on_ringI [OF w])
  assume "sys_cell (rt_sys w) = Borrowed"
  then show "yields (runtime_panic T) (\<lambda>(w', cs). \<exists>D. wakers w = wakers w' + D \<and> settles D cs \<and> wok R w')
      (mapR (\<lambda>(ev, c). (w\<lparr>rt_sys := (rt_sys w)\<lparr>sys_cell := c\<rparr>\<rparr>, wake_calls ev)) (reactor_wait E (sys_cell (rt_sys w))))"
    by (simp add: reactor_wait_def runtime_panic_def)
next
  fix r assume l: "rt_lent w = None" "sys_cell (rt_sys w) = Ready r" and room: "roomy E pending r"
    and sr: "sound_ring E valid pending uvalid ok (sys_subs (rt_sys w)) r"
  have t: "tidy E valid pending r" and i: "ring_inv E valid pending uvalid r"
    and si: "subs_inv E pending ok (\<lambda>_. False) r (sys_subs (rt_sys w))"
    and sh: "shaped (env_cq E) (ring_abs E r)" using sr [unfolded sound_ring_def] by simp_all
  have c: "calm E pending uvalid r" using t plain_calm by (simp add: tidy_def)
  show "yields (runtime_panic T) (\<lambda>(w', cs). \<exists>D. wakers w = wakers w' + D \<and> settles D cs \<and> wok R w')
      (mapR (\<lambda>(ev, c). (w\<lparr>rt_sys := (rt_sys w)\<lparr>sys_cell := c\<rparr>\<rparr>, wake_calls ev)) (reactor_wait E (sys_cell (rt_sys w))))"
    using wait_keeps [OF i room c sh si]
  proof (elim disjE exE conjE)
    fix r' ev assume d: "ring_wait E r = Inr (r', ev)" "ring_inv E valid pending uvalid r'"
      "shaped (env_cq E) (ring_abs E r')" "subs_inv E pending ok (\<lambda>_. False) r' (sys_subs (rt_sys w))"
    let ?w = "w\<lparr>rt_sys := (rt_sys w)\<lparr>sys_cell := Ready r'\<rparr>\<rparr>"
    note td = wait_tidy [OF t i room d(1)]
    have "wok R ?w" using w d td l by (simp add: rt_ok_def sound_ring_def)
    moreover have "wakers w = wakers ?w + mset (woken ev)"
      using td l by (simp add: rt_wakers_def rt_ring_def ac_simps)
    ultimately show ?thesis using d(1) l settles_wake_calls [of ev] by (auto simp: reactor_wait_def)
  qed (simp add: l reactor_wait_def runtime_panic_def)
qed

subsection \<open>Moves and destructors\<close>

lemma wok_chans: "wok R (w\<lparr>rt_chans := c\<rparr>) = wok R w"
  by (simp add: rt_ok_def split: option.splits)

lemma rt_ring_chans: "rt_ring (w\<lparr>rt_chans := c\<rparr>) = rt_ring w"
  by (simp add: rt_ring_def split: option.splits)

lemma wakers_chans: "own_c c = own_c (rt_chans w) \<Longrightarrow> wakers (w\<lparr>rt_chans := c\<rparr>) = wakers w"
  by (simp add: rt_wakers_def rt_ring_chans)

lemma chans_call:
  assumes "on_chans_call g w = (w', cl)" "\<And>c'. g (rt_chans w) = (c', cl) \<Longrightarrow> pays (own_c (rt_chans w)) cl (own_c c')"
    and "wok R w"
  shows "pays (wakers w) cl (wakers w') \<and> wok R w'"
proof -
  obtain c' where c': "g (rt_chans w) = (c', cl)" "w' = w\<lparr>rt_chans := c'\<rparr>"
    using assms(1) by (auto simp: on_chans_call_def split: prod.splits)
  have "pays (wakers w) cl (wakers w')"
    using pays_frame [OF assms(2) [OF c'(1)], where Z = "case rt_ring w of None \<Rightarrow> {#} | Some r \<Rightarrow> wakers_of (ring_abs E r)"]
    by (simp add: rt_wakers_def c'(2) rt_ring_chans ac_simps)
  then show ?thesis using assms(3) by (simp add: c'(2) wok_chans)
qed

lemma held_drop_inv:
  assumes w: "wok (held_duty h + R) w"
  shows "yields (runtime_panic T) (\<lambda>(w', cl). wok (left_duty (drop_leaves h) + R) w' \<and> pays (wakers w) cl (wakers w'))
    (held_drop E T C h w)"
proof (cases h)
  case (Sub n)
  have "yields (runtime_panic T) (\<lambda>(w', cl). wok ({#Lease n#} + R) w' \<and>
      (case cl of None \<Rightarrow> wakers w = wakers w' | Some c \<Rightarrow> \<exists>k. c = DropWaker k \<and> wakers w = add_mset k (wakers w')))
    (rt_drop E T n w)" by (rule drop_inv) (use w Sub in simp)
  then show ?thesis using Sub by (auto simp: held_drop_def pays_def elim!: yields_mono split: option.splits)
next
  case (Handle c)
  obtain w' cl where c: "on_chans_call (os_forget C c) w = (w', cl)" by fastforce
  have "wok R w" using w Handle by simp
  from chans_call [OF c os_forget this] show ?thesis using c Handle by (simp add: held_drop_def)
qed

text \<open>What a move keeps, for a task that owned the wakers \<open>A\<close>.\<close>

definition move_ok ::
    "duty multiset \<Rightarrow> task_id multiset \<Rightarrow> task_id \<Rightarrow> ('o, 'w, 'u, 's, 'c) world \<Rightarrow>
      (('o, 'out, 'v) task_state, 'v) move \<times> ('o, 'w, 'u, 's, 'c) world \<Rightarrow> bool" where
  "move_ok R A i w m \<longleftrightarrow>
     (case fst m of
        Does Quiet f \<Rightarrow> wok (task_duties f + R) (snd m) \<and> A + wakers w = task_wakers f + wakers (snd m)
      | Does (Call c) f \<Rightarrow>
          wok (task_duties f + R) (snd m) \<and>
          pays (A + wakers w + {#i#}) (Some c) (task_wakers f + wakers (snd m) + {#i#})
      | Spawns g k \<Rightarrow>
          \<forall>c. wok (task_duties g + task_duties (k c) + R) (snd m) \<and>
            A + wakers w = task_wakers g + task_wakers (k c) + wakers (snd m)
      | Pends f \<Rightarrow> wok (task_duties f + R) (snd m) \<and> A + wakers w = task_wakers f + wakers (snd m)
      | Ends v \<Rightarrow> wok R (snd m) \<and> A + wakers w = wakers (snd m)
      | Panics p \<Rightarrow> runtime_panic T p)"

lemma panickingI:
  "yields (runtime_panic T) Q m \<Longrightarrow> (\<And>x. Q x \<Longrightarrow> move_ok R A i w (g x)) \<Longrightarrow> move_ok R A i w (panicking w (mapR g m))"
  by (cases m) (auto simp: panicking_def move_ok_def)

text \<open>A call the world pays for.\<close>

lemma effect_ok:
  assumes "pays (A + wakers w) cl (task_wakers f + wakers w')" "wok (task_duties f + R) w'"
  shows "move_ok R A i w (Does (effect_of cl) f, w')"
proof (cases cl)
  case None
  then show ?thesis using assms by (simp add: move_ok_def effect_of_def pays_def)
next
  case (Some c)
  then show ?thesis
    using assms pays_frame [OF assms(1), of "{#i#}"] by (simp add: move_ok_def effect_of_def)
qed

lemma drop_move_ok:
  assumes "wok (held_duty h + (task_duties f + R)) w" "ts_left f = None"
  shows "move_ok R {#} i w (drop_move E T C h f w)"
  unfolding drop_move_def
proof (rule panickingI [OF held_drop_inv [OF assms(1)]], clarify)
  fix w' cl
  assume w': "wok (left_duty (drop_leaves h) + (task_duties f + R)) w'" and cl: "pays (wakers w) cl (wakers w')"
  have "task_duties (f\<lparr>ts_left := drop_leaves h\<rparr>) = left_duty (drop_leaves h) + task_duties f"
    using assms(2) by (simp add: task_duties_def)
  then show "move_ok R {#} i w (Does (effect_of cl) (f\<lparr>ts_left := drop_leaves h\<rparr>), w')"
    using w' cl by (intro effect_ok) (simp_all add: task_wakers_def ac_simps)
qed

lemma held_split:
  "j < length hs \<Longrightarrow> (\<Sum>h\<leftarrow>hs. held_duty h) = held_duty (hs ! j) + (\<Sum>h\<leftarrow>without j hs. held_duty h)"
proof -
  assume "j < length hs"
  then have "hs = take j hs @ hs ! j # drop (Suc j) hs" by (rule id_take_nth_drop)
  then have "(\<Sum>h\<leftarrow>hs. held_duty h) = (\<Sum>h\<leftarrow>take j hs @ hs ! j # drop (Suc j) hs. held_duty h)" by (rule arg_cong)
  then show ?thesis by (simp add: without_def ac_simps)
qed

lemma join_move_ok:
  assumes w: "wok (task_duties f + R) w" and f: "ts_left f = None" and j: "j < length (ts_held f)" "ts_held f ! j = Handle ch"
  shows "move_ok R {#} i w (join_move C j ch k f i w)"
proof -
  obtain x c1 where rc: "os_recv C ch i (rt_chans w) = (x, c1)" by fastforce
  let ?w = "w\<lparr>rt_chans := c1\<rparr>"
  show ?thesis
  proof (cases x)
    case (Inl r)
    have w1: "wok (task_duties f + R) ?w" "wakers ?w = wakers w"
      using w wok_chans wakers_chans [of c1 w] os_recv_ready [OF rc [unfolded Inl]] by simp_all
    obtain w' cl where cl: "on_chans_call (os_forget C ch) ?w = (w', cl)" by fastforce
    note c = chans_call [OF cl os_forget w1(1)]
    let ?x = "case r of Inr v \<Rightarrow> Some v | Inl _ \<Rightarrow> None"
    have d: "task_duties (f\<lparr>ts_code := k (Some ?x), ts_held := without j (ts_held f), ts_left := None\<rparr>) = task_duties f"
      using held_split [OF j(1)] j(2) f by (simp add: task_duties_def)
    have "move_ok R {#} i w (Does (effect_of cl)
        (f\<lparr>ts_code := k (Some ?x), ts_held := without j (ts_held f), ts_left := None\<rparr>), w')"
      by (rule effect_ok) (use c w1(2) in \<open>simp_all only: d, simp add: task_wakers_def\<close>)
    then show ?thesis using rc Inl cl by (simp add: join_move_def join_poll_def on_chans_def)
  next
    case (Inr old)
    have p: "own_c (rt_chans w) + {#i#} = own_c c1 + left_waker (map_option Stale old)"
      using os_recv_pending [OF rc [unfolded Inr]] by (cases old) simp_all
    have d: "left_duty (map_option Stale old) = {#}" by (cases old) simp_all
    have "wakers ?w + left_waker (map_option Stale old) = wakers w + {#i#}"
      using p by (simp add: rt_wakers_def rt_ring_chans ac_simps)
    then have "move_ok R {#} i w (Does (Call (CloneWaker i)) (f\<lparr>ts_code := k None, ts_left := map_option Stale old\<rparr>), ?w)"
      using w wok_chans f d by (simp add: move_ok_def pays_def task_duties_def task_wakers_def ac_simps)
    then show ?thesis using rc Inr by (simp add: join_move_def join_poll_def on_chans_def effect_of_def)
  qed
qed

lemma left_move_ok:
  assumes "wok (task_duties f + R) w" "ts_left f = Some l"
  shows "move_ok R (task_wakers f) i w (left_move l f w)"
proof (cases l)
  case (Release n)
  have "task_duties f = {#Lease n#} + task_duties (f\<lparr>ts_left := None\<rparr>)"
    using assms(2) Release by (simp add: task_duties_def)
  then show ?thesis
    using unlend_inv [of n "task_duties (f\<lparr>ts_left := None\<rparr>) + R" w] assms Release
    by (simp add: left_move_def move_ok_def task_wakers_def ac_simps)
next
  case (Stale k)
  then show ?thesis
    using assms by (simp add: left_move_def move_ok_def pays_def task_duties_def task_wakers_def)
qed

lemma task_move_ok:
  assumes w: "wok (task_duties f + R) w"
  shows "move_ok R (task_wakers f) i w (task_move E T ok C f i w)"
proof (cases "ts_left f")
  case (Some l)
  then show ?thesis using left_move_ok [OF w Some] by (simp add: task_move_def)
next
  case None
  then have A: "task_wakers f = {#}" by (simp add: task_wakers_def)
  have d: "task_duties (f\<lparr>ts_code := p\<rparr>) = task_duties f" "task_wakers (f\<lparr>ts_code := p\<rparr>) = {#}" for p
    using None by (simp_all add: task_duties_def task_wakers_def)
  have h: "task_duties f = (\<Sum>h\<leftarrow>ts_held f. held_duty h)" using None by (simp add: task_duties_def)
  show ?thesis
    unfolding A
  proof (cases "ts_code f")
    case (Finish v)
    show "move_ok R {#} i w (task_move E T ok C f i w)"
    proof (cases "ts_held f")
      case Nil
      then show ?thesis using w None Finish by (simp add: task_move_def move_ok_def h)
    next
      case (Cons g gs)
      have "move_ok R {#} i w (drop_move E T C g (f\<lparr>ts_held := gs\<rparr>) w)"
        by (rule drop_move_ok) (use w None Cons h in \<open>simp_all add: task_duties_def ac_simps\<close>)
      then show ?thesis using None Finish Cons by (simp add: task_move_def)
    qed
  next
    case (Make this q p)
    let ?f = "f\<lparr>ts_code := p, ts_held := ts_held f @ [Sub (rt_next w)]\<rparr>"
    have "task_duties ?f = {#Name (rt_next w)#} + task_duties f" "task_wakers ?f = {#}"
      using None by (simp_all add: task_duties_def task_wakers_def)
    then show "move_ok R {#} i w (task_move E T ok C f i w)"
      using make_inv [OF w, of this q] w None Make d by (simp add: task_move_def move_ok_def ac_simps)
  next
    case (PollSub j k)
    show "move_ok R {#} i w (task_move E T ok C f i w)"
    proof (cases "sub_at_index j (ts_held f)")
      case (Some n)
      obtain R' where R': "task_duties f + R = add_mset (Name n) R'"
        using held_split [of j "ts_held f"] at_index(1) [OF Some] h by simp
      have "move_ok R {#} i w (panicking w (mapR (\<lambda>(out, first, w').
          (Does (if first then Call (CloneWaker i) else Quiet) (f\<lparr>ts_code := k out\<rparr>), w')) (rt_poll E T n i w)))"
        by (rule panickingI [OF poll_inv [OF w [unfolded R'], where i = i]])
          (auto simp: move_ok_def d R' pays_def)
      then show ?thesis using None PollSub Some by (simp add: task_move_def)
    qed (use None PollSub in \<open>simp add: task_move_def move_ok_def runtime_panic_def\<close>)
  next
    case (Discard j p)
    show "move_ok R {#} i w (task_move E T ok C f i w)"
    proof (cases "j < length (ts_held f)")
      case True
      let ?f = "f\<lparr>ts_code := p, ts_held := without j (ts_held f)\<rparr>"
      have "task_duties f = held_duty (ts_held f ! j) + task_duties ?f"
        using held_split [OF True] None by (simp add: task_duties_def)
      then have "move_ok R {#} i w (drop_move E T C (ts_held f ! j) ?f w)"
        using drop_move_ok [of "ts_held f ! j" ?f R w i] w None by (simp add: ac_simps)
      then show ?thesis using None Discard True by (simp add: task_move_def Let_def)
    qed (use None Discard in \<open>simp add: task_move_def move_ok_def runtime_panic_def\<close>)
  next
    case (SubmitDetached this q p)
    show "move_ok R {#} i w (task_move E T ok C f i w)"
    proof (cases "ok this q")
      case True
      have "move_ok R {#} i w (panicking w (mapR (\<lambda>w'. (Does Quiet (f\<lparr>ts_code := p\<rparr>), w')) (rt_detach E T this q w)))"
        by (rule panickingI [OF detach_inv [OF w True]]) (simp add: move_ok_def d)
      then show ?thesis using None SubmitDetached True by (simp add: task_move_def)
    qed (use None SubmitDetached w in \<open>simp add: task_move_def move_ok_def d\<close>)
  next
    case (Fork j child p)
    have "(\<Sum>h\<leftarrow>ts_held f. held_duty h) = (\<Sum>h\<leftarrow>take j (ts_held f). held_duty h) + (\<Sum>h\<leftarrow>drop j (ts_held f). held_duty h)"
      by (metis append_take_drop_id map_append sum_list_append)
    then show "move_ok R {#} i w (task_move E T ok C f i w)"
      using None Fork w by (simp add: task_move_def move_ok_def task_duties_def task_wakers_def Let_def ac_simps)
  next
    case (Join j k)
    show "move_ok R {#} i w (task_move E T ok C f i w)"
    proof (cases "handle_at_index j (ts_held f)")
      case (Some ch)
      then show ?thesis
        using join_move_ok [OF w None, of j ch i k] at_index(2) [OF Some] None Join by (simp add: task_move_def)
    qed (use None Join in \<open>simp add: task_move_def move_ok_def runtime_panic_def\<close>)
  next
    case (TryJoin j k)
    show "move_ok R {#} i w (task_move E T ok C f i w)"
    proof (cases "handle_at_index j (ts_held f)")
      case (Some ch)
      obtain x c' where x: "os_try_recv C ch (rt_chans w) = (x, c')" by fastforce
      have "wok R' (w\<lparr>rt_chans := c'\<rparr>) = wok R' w" "wakers (w\<lparr>rt_chans := c'\<rparr>) = wakers w" for R'
        using wok_chans wakers_chans [of c' w] os_try_recv [OF x] by simp_all
      then show ?thesis
        using w None TryJoin Some x
        by (cases x) (simp_all add: task_move_def join_try_join_def on_chans_def move_ok_def d)
    qed (use None TryJoin in \<open>simp add: task_move_def move_ok_def runtime_panic_def\<close>)
  qed (use None w in \<open>simp_all add: task_move_def move_ok_def d pays_def Let_def\<close>)
qed

lemma act_inv:
  assumes "wok (duties_before a + R) w"
  shows "yields (runtime_panic T) (\<lambda>(w', cl). pays (wakers_before a + wakers w) cl (wakers_after a + wakers w') \<and>
      wok (duties_after a + R) w') (destructor_act E T C a w)"
proof (cases a)
  case (EndLeft l)
  then show ?thesis
    using assms
    by (cases l) (simp_all add: destructor_act_def duties_before_def duties_after_def wakers_before_def wakers_after_def pays_def)
next
  case (DropHeld h)
  then show ?thesis
    using held_drop_inv [of h R w] assms
    by (auto simp: destructor_act_def duties_before_def duties_after_def wakers_before_def wakers_after_def
        elim!: yields_mono)
qed

lemma left_after_inv: "wok (left_duty l + R) w \<Longrightarrow> wakers w = wakers (left_after l w) \<and> wok R (left_after l w)"
  using unlend_inv by (auto simp: left_after_def left_duty_def split: option.splits leftover.splits)

lemma after_inv:
  "wok (duties_after a + R) w \<Longrightarrow>
    wakers_after a + wakers w = wakers (destructor_after a w) \<and> wok R (destructor_after a w)"
  unfolding destructor_after_def duties_after_def wakers_after_def
  using left_after_inv by simp

text \<open>The world with a ring just built, and a world of which nothing is held.\<close>

lemma fresh_ok:
  assumes "ring_build E os opts st = (Inr r, st')"
  shows "wok {#} (fresh_world v r c) \<and> wakers (fresh_world v r c) = own_c c"
proof -
  have "subs_inv E pending ok (\<lambda>_. False) r Map.empty" "shaped (env_cq E) (ring_abs E r)"
    using build_sound [OF assms] by (simp_all add: subs_inv_def shaped_def live_at_def)
  then show ?thesis
    using build_sound [OF assms] build_tidy [OF assms]
    by (simp add: rt_ok_def fresh_world_def sound_ring_def named_def rt_wakers_def rt_ring_def)
qed

definition at_rest :: "('o, 'w, 'u, 's, 'c) world \<Rightarrow> bool" where
  "at_rest w \<longleftrightarrow>
     sys_subs (rt_sys w) = Map.empty \<and>
     (\<exists>r. sys_cell (rt_sys w) = Ready r \<and> ring_inv E valid pending uvalid r \<and> (\<forall>k. \<not> live_at (ring_abs E r) k))"

lemma nothing_held:
  assumes "wok {#} w"
  shows "at_rest w"
proof -
  have "sys_subs (rt_sys w) = Map.empty" using assms by (auto simp: rt_ok_def named_def split: if_splits)
  then show ?thesis
    using assms by (auto simp: rt_ok_def at_rest_def sound_ring_def subs_inv_def split: option.splits)
qed

lemma runtime_contract:
  "owning (runtime_env E T ok C) task_wakers (rt_wakers E own_c) wakers_before wakers_after
    task_duties duties_before duties_after (rt_ok E valid pending uvalid ok) (runtime_panic T)"
proof (unfold_locales, goal_cases)
  case (1 f i w cl f' w' R)
  then show ?case using task_move_ok [of f R w i] by (simp add: runtime_env_def move_ok_def)
next
  case (2 f i w f' w' R)
  then show ?case using task_move_ok [of f R w i] by (simp add: runtime_env_def move_ok_def)
next
  case (3 f i w g k w' R ch)
  then show ?case using task_move_ok [of f R w i] by (simp add: runtime_env_def move_ok_def)
next
  case (4 f i w f' w' R)
  then show ?case using task_move_ok [of f R w i] by (simp add: runtime_env_def move_ok_def)
next
  case (5 f i w v w' R)
  then show ?case using task_move_ok [of f R w i] by (simp add: runtime_env_def move_ok_def)
next
  case (6 f i w p w' R)
  then show ?case using task_move_ok [of f R w i] by (simp add: runtime_env_def move_ok_def)
next
  case (7 f)
  have "(\<Sum>h\<leftarrow>hs. wakers_before (DropHeld h)) = {#}" for hs by (induction hs) (simp_all add: wakers_before_def)
  then show ?case
    by (simp add: runtime_env_def task_parts_def task_wakers_def wakers_before_def o_def split: option.splits)
next
  case (8 f)
  show ?case
    by (simp add: runtime_env_def task_parts_def task_duties_def duties_before_def o_def split: option.splits)
next
  case (9 a w w' c R)
  then show ?case using act_inv [of a R w] by (simp add: runtime_env_def)
next
  case (10 a R w)
  then show ?case using after_inv [of a R w] by (simp add: runtime_env_def)
next
  case (11 a w p R)
  then show ?case using act_inv [of a R w] by (simp add: runtime_env_def)
next
  case (12 w ch w' R)
  then show ?case
    by (auto simp: runtime_env_def on_chans_def wok_chans wakers_chans os_new split: prod.splits)
next
  case (13 ch v w w' c R)
  then show ?case using chans_call os_send by (auto simp: runtime_env_def)
next
  case (14 ch w w' c R)
  then show ?case using chans_call os_close by (auto simp: runtime_env_def)
next
  case (15 ch w w' c R)
  then show ?case using chans_call os_forget by (auto simp: runtime_env_def)
next
  case (16 w w' cs R)
  then show ?case using wait_inv [of R w] by (auto simp: runtime_env_def)
next
  case (17 w p R)
  then show ?case using wait_inv [of R w] by (auto simp: runtime_env_def)
qed

end

sublocale async_runtime \<subseteq> runtime: owning "runtime_env E T ok C" task_wakers "rt_wakers E own_c" wakers_before wakers_after
    task_duties duties_before duties_after "rt_ok E valid pending uvalid ok" "runtime_panic T"
  by (rule runtime_contract)

end
