(* ===== verification/RuntimeJoin.thy ===== *)
theory RuntimeJoin
  imports RuntimeSafe ExecutorJoin
begin

section \<open>Tasks of the runtime that join each other\<close>

text \<open>
  The runtime meets the contract \<open>handing\<close> of the executor: a task knows the channels of the
  handles it holds, gets one when it spawns a task, and gives them away only to a task it
  spawns. The locale \<open>open_channels\<close> says more of the oneshot channels: \<open>open_c\<close> are those whose
  sender is not used up, \<open>waits_c\<close> the wakers in them; a channel that is used up keeps none,
  wakes at most one task when that happens, and is never opened again.
\<close>

definition known :: "('o, 'out, 'v) task_state \<Rightarrow> chan set" where
  "known f = {c. Handle c \<in> set (ts_held f)}"

definition ring_wakers :: "('u, 's) env \<Rightarrow> ('o, 'w, 'u, 's, 'c) world \<Rightarrow> task_id multiset" where
  "ring_wakers E w = (case rt_ring w of None \<Rightarrow> {#} | Some r \<Rightarrow> wakers_of (ring_abs E r))"

text \<open>What works on the ring leaves the channels alone.\<close>

lemma on_ring_Inr: "on_ring E w m = Inr x \<Longrightarrow> m = Inr x"
  by (simp add: on_ring_def split: if_splits)

lemma make_chans [simp]: "rt_chans (rt_make this q w) = rt_chans w"
  by (simp add: rt_make_def)

lemma unlend_chans [simp]: "rt_chans (rt_unlend n w) = rt_chans w"
  by (simp add: rt_unlend_def split: option.splits)

lemma poll_chans: "rt_poll E T n i w = Inr (out, first, w') \<Longrightarrow> rt_chans w' = rt_chans w"
  by (auto simp: rt_poll_def mapR_Inr_iff dest!: on_ring_Inr split: option.splits)

lemma drop_chans:
  assumes "rt_drop E T n w = Inr (w', cl)"
  shows "rt_chans w' = rt_chans w"
proof -
  obtain s where s: "sys_subs (rt_sys w) n = Some s" using assms by (auto simp: rt_drop_def split: option.splits)
  let ?S = "(rt_sys w)\<lparr>sys_subs := (sys_subs (rt_sys w))(n := None)\<rparr>"
  obtain c ev where "(case (dropped_waker E s (sys_cell (rt_sys w)), c) of
           (Some wk, Ready r) \<Rightarrow> (w\<lparr>rt_sys := ?S\<lparr>sys_cell := Borrowed\<rparr>, rt_lent := Some (n, r)\<rparr>, Some (DropWaker wk))
         | _ \<Rightarrow> (w\<lparr>rt_sys := ?S\<lparr>sys_cell := c\<rparr>\<rparr>, None)) = (w', cl)"
    using assms s by (auto simp: rt_drop_def mapR_Inr_iff Let_def dest!: on_ring_Inr)
  then show ?thesis by (auto split: option.splits cell.splits)
qed

lemma detach_chans: "rt_detach E T this q w = Inr w' \<Longrightarrow> rt_chans w' = rt_chans w"
  by (auto simp: rt_detach_def mapR_Inr_iff dest!: on_ring_Inr)

lemma wait_chans: "rt_wait E w = Inr (w', cs) \<Longrightarrow> rt_chans w' = rt_chans w"
  by (auto simp: rt_wait_def mapR_Inr_iff dest!: on_ring_Inr)

lemma left_after_chans [simp]: "rt_chans (left_after l w) = rt_chans w"
  by (simp add: left_after_def split: option.splits leftover.splits)

lemma on_chans_eq: "on_chans g w = (x, w') \<Longrightarrow> \<exists>c'. g (rt_chans w) = (x, c') \<and> rt_chans w' = c'"
  by (auto simp: on_chans_def split: prod.splits)

lemma on_chans_call_eq: "on_chans_call g w = (w', cl) \<Longrightarrow> \<exists>c'. g (rt_chans w) = (c', cl) \<and> rt_chans w' = c'"
  by (auto simp: on_chans_call_def split: prod.splits)

locale open_channels = oneshot_channels C own_c
  for C :: "('c, 'v) oneshot_ops" and own_c :: "'c \<Rightarrow> task_id multiset" +
  fixes waits_c :: "'c \<Rightarrow> (chan \<times> task_id) set" and open_c used_c :: "'c \<Rightarrow> chan set"
  assumes own_waits: "i \<in># own_c c \<Longrightarrow> \<exists>d. (d, i) \<in> waits_c c"
    and waits_open: "(d, i) \<in> waits_c c \<Longrightarrow> d \<in> open_c c"
    and open_used: "open_c c \<subseteq> used_c c" and finite_open: "finite (open_c c)"
    and new_open: "os_new C c = (ch, c') \<Longrightarrow>
      ch \<notin> used_c c \<and> insert ch (used_c c) \<subseteq> used_c c' \<and> open_c c' \<subseteq> insert ch (open_c c) \<and> waits_c c' \<subseteq> waits_c c"
    and send_open: "os_send C ch v c = (c', cl) \<Longrightarrow>
      still waits_c open_c used_c c c' \<and> ch \<notin> open_c c' \<and> (cl \<noteq> None \<longrightarrow> ch \<in> open_c c)"
    and close_open: "os_close C ch c = (c', cl) \<Longrightarrow>
      still waits_c open_c used_c c c' \<and> ch \<notin> open_c c' \<and> (cl \<noteq> None \<longrightarrow> ch \<in> open_c c)"
    and forget_open: "os_forget C ch c = (c', cl) \<Longrightarrow>
      still waits_c open_c used_c c c' \<and> (cl = None \<or> (\<exists>k. cl = Some (DropWaker k)))"
    and try_recv_open: "os_try_recv C ch c = (x, c') \<Longrightarrow> still waits_c open_c used_c c c'"
    and recv_ready_open: "os_recv C ch i c = (Inl r, c') \<Longrightarrow> still waits_c open_c used_c c c'"
    and recv_pending_open: "os_recv C ch i c = (Inr old, c') \<Longrightarrow>
      waits_c c' \<subseteq> insert (ch, i) (waits_c c) \<and> open_c c' \<subseteq> open_c c \<and> used_c c \<subseteq> used_c c'"
begin

abbreviation same_chans :: "('o, 'w, 'u, 's, 'c) world \<Rightarrow> ('o, 'w, 'u, 's, 'c) world \<Rightarrow> bool" where
  "same_chans w w' \<equiv> still waits_c open_c used_c (rt_chans w) (rt_chans w')"

lemma still_trans:
  "still waits_c open_c used_c a b \<Longrightarrow> still waits_c open_c used_c b c \<Longrightarrow> still waits_c open_c used_c a c"
  unfolding still_def by (meson subset_trans)

lemma held_drop_chans: "held_drop E T C h w = Inr (w', cl) \<Longrightarrow> same_chans w w'"
  by (cases h) (auto simp: held_drop_def dest!: drop_chans on_chans_call_eq forget_open)

definition handed ::
    "task_id \<Rightarrow> ('o, 'out, 'v) task_state \<Rightarrow> ('o, 'w, 'u, 's, 'c) world \<Rightarrow>
      (('o, 'out, 'v) task_state, 'v) move \<times> ('o, 'w, 'u, 's, 'c) world \<Rightarrow> bool" where
  "handed i f w m \<longleftrightarrow>
     (case fst m of
        Does e f' \<Rightarrow>
          known f' \<subseteq> known f \<and> waits_c (rt_chans (snd m)) \<subseteq> waits_c (rt_chans w) \<union> known f \<times> {i} \<and>
          open_c (rt_chans (snd m)) \<subseteq> open_c (rt_chans w) \<and> used_c (rt_chans w) \<subseteq> used_c (rt_chans (snd m))
      | Spawns g k \<Rightarrow>
          \<forall>ch. known g \<subseteq> known f \<and> known (k ch) \<subseteq> insert ch (known f) \<and> task_wakers g = {#} \<and> same_chans w (snd m)
      | Pends f' \<Rightarrow> known f' \<subseteq> known f \<and> task_wakers f' = {#} \<and> same_chans w (snd m)
      | Ends v \<Rightarrow> same_chans w (snd m)
      | Panics p \<Rightarrow> True)"

lemma handed_does: "known f' \<subseteq> known f \<Longrightarrow> same_chans w w' \<Longrightarrow> handed i f w (Does e f', w')"
  by (auto simp: handed_def still_def)

lemma handed_panicking: "(\<And>x. y = Inr x \<Longrightarrow> handed i f w (g x)) \<Longrightarrow> handed i f w (panicking w (mapR g y))"
  by (cases y) (simp_all add: panicking_def handed_def)

lemma drop_move_handed: "known f' \<subseteq> known f \<Longrightarrow> handed i f w (drop_move E T C h f' w)"
  unfolding drop_move_def
  by (rule handed_panicking) (auto simp: known_def intro!: handed_does dest: held_drop_chans)

lemma known_fields [simp]:
  "known (f\<lparr>ts_code := p\<rparr>) = known f" "known (f\<lparr>ts_left := l\<rparr>) = known f"
  by (simp_all add: known_def)

lemma known_without: "known (f\<lparr>ts_held := without j (ts_held f)\<rparr>) \<subseteq> known f"
  by (auto simp: known_def without_def dest: in_set_takeD in_set_dropD)

lemma join_move_handed:
  assumes "handle_at_index j (ts_held f) = Some ch"
  shows "handed i f w (join_move C j ch k f i w)"
proof -
  have kn: "ch \<in> known f" using at_index(2) [OF assms] nth_mem by (fastforce simp: known_def)
  obtain x c1 where rc: "os_recv C ch i (rt_chans w) = (x, c1)" by fastforce
  show ?thesis
  proof (cases x)
    case (Inl r)
    let ?w = "w\<lparr>rt_chans := c1\<rparr>"
    obtain w' cl where cl: "on_chans_call (os_forget C ch) ?w = (w', cl)" by fastforce
    obtain c2 where c2: "os_forget C ch c1 = (c2, cl)" "rt_chans w' = c2"
      using on_chans_call_eq [OF cl] by auto
    have "same_chans w w'"
      using still_trans [OF recv_ready_open [OF rc [unfolded Inl]] conjunct1 [OF forget_open [OF c2(1)]]] c2(2) by simp
    moreover have "known (f\<lparr>ts_code := p, ts_held := without j (ts_held f), ts_left := None\<rparr>) \<subseteq> known f" for p
      using known_without [of j f] by (simp add: known_def)
    ultimately show ?thesis
      using rc Inl cl by (simp add: join_move_def join_poll_def on_chans_def handed_does del: known_fields)
  next
    case (Inr old)
    then show ?thesis
      using rc recv_pending_open [OF rc [unfolded Inr]] kn
      by (auto simp: join_move_def join_poll_def on_chans_def handed_def)
  qed
qed

lemma task_move_handed: "handed i f w (task_move E T ok C f i w)"
proof (cases "ts_left f")
  case (Some l)
  then show ?thesis by (cases l) (simp_all add: task_move_def left_move_def handed_does)
next
  case None
  show ?thesis
  proof (cases "ts_code f")
    case (Finish v)
    show ?thesis
    proof (cases "ts_held f")
      case Nil
      then show ?thesis using None Finish by (simp add: task_move_def handed_def)
    next
      case (Cons h hs)
      have "handed i f w (drop_move E T C h (f\<lparr>ts_held := hs\<rparr>) w)"
        by (rule drop_move_handed) (use Cons in \<open>auto simp: known_def\<close>)
      then show ?thesis using None Finish Cons by (simp add: task_move_def)
    qed
  next
    case (Make this q p)
    then show ?thesis using None by (auto simp: task_move_def Let_def known_def intro!: handed_does)
  next
    case (PollSub j k)
    show ?thesis
    proof (cases "sub_at_index j (ts_held f)")
      case (Some n)
      have "handed i f w (panicking w (mapR (\<lambda>(out, first, w').
          (Does (if first then Call (CloneWaker i) else Quiet) (f\<lparr>ts_code := k out\<rparr>), w')) (rt_poll E T n i w)))"
        by (rule handed_panicking) (auto intro!: handed_does dest: poll_chans)
      then show ?thesis using None PollSub Some by (simp add: task_move_def)
    qed (use None PollSub in \<open>simp add: task_move_def handed_def\<close>)
  next
    case (Discard j p)
    have "handed i f w (drop_move E T C (ts_held f ! j) (f\<lparr>ts_code := p, ts_held := without j (ts_held f)\<rparr>) w)"
      by (rule drop_move_handed) (use known_without [of j f] in \<open>simp add: known_def\<close>)
    moreover have "handed i f w (Panics IndexOutOfBounds, w)" by (simp add: handed_def)
    ultimately show ?thesis using None Discard by (simp add: task_move_def Let_def)
  next
    case (SubmitDetached this q p)
    have "handed i f w (panicking w (mapR (\<lambda>w'. (Does Quiet (f\<lparr>ts_code := p\<rparr>), w')) (rt_detach E T this q w)))"
      by (rule handed_panicking) (auto intro!: handed_does dest: detach_chans)
    then show ?thesis using None SubmitDetached by (auto simp: task_move_def Let_def intro!: handed_does)
  next
    case (Fork j child p)
    then show ?thesis
      using None
      by (auto simp: task_move_def Let_def handed_def known_def task_wakers_def dest: in_set_takeD in_set_dropD)
  next
    case (Join j k)
    show ?thesis
    proof (cases "handle_at_index j (ts_held f)")
      case (Some ch)
      then show ?thesis using join_move_handed [OF Some] None Join by (simp add: task_move_def)
    qed (use None Join in \<open>simp add: task_move_def handed_def\<close>)
  next
    case (TryJoin j k)
    show ?thesis
    proof (cases "handle_at_index j (ts_held f)")
      case (Some ch)
      obtain x c' where x: "os_try_recv C ch (rt_chans w) = (x, c')" by fastforce
      then show ?thesis
        using None TryJoin Some try_recv_open [OF x]
        by (cases x) (simp_all add: task_move_def join_try_join_def on_chans_def handed_does)
    qed (use None TryJoin in \<open>simp add: task_move_def handed_def\<close>)
  next
    case (WakeMe p)
    then show ?thesis using None by (simp add: task_move_def Let_def handed_does)
  next
    case (Yield p)
    then show ?thesis using None by (simp add: task_move_def Let_def handed_def task_wakers_def)
  qed
qed

end

locale joining_runtime = async_runtime E valid pending uvalid T ok C own_c + open_channels C own_c waits_c open_c used_c
  for E :: "('u, 's) env" and valid :: "'s \<Rightarrow> bool"
    and pending :: "'u \<Rightarrow> sqe multiset" and uvalid :: "'u \<Rightarrow> bool"
    and T :: "('o, 'out, 'w, 'z) multi_ops_scheme" and ok :: "ptr \<Rightarrow> 'o \<Rightarrow> bool"
    and C :: "('c, 'v) oneshot_ops" and own_c :: "'c \<Rightarrow> task_id multiset"
    and waits_c :: "'c \<Rightarrow> (chan \<times> task_id) set" and open_c used_c :: "'c \<Rightarrow> chan set"
begin

theorem join_contract:
  "handing (runtime_env E T ok C) task_wakers (rt_wakers E own_c) wakers_before wakers_after
    task_duties duties_before duties_after (rt_ok E valid pending uvalid ok) (runtime_panic T)
    (ring_wakers E) known (\<lambda>w. waits_c (rt_chans w)) (\<lambda>w. open_c (rt_chans w)) (\<lambda>w. used_c (rt_chans w))"
proof (intro handing.intro runtime_contract handing_axioms.intro, goal_cases)
  case (1 i w)
  then have "i \<in># ring_wakers E w + own_c (rt_chans w)" by (simp add: rt_wakers_def ring_wakers_def)
  then show ?case using own_waits by auto
next
  case (2 d i w)
  then show ?case by (rule waits_open)
next
  case (3 w)
  show ?case by (rule open_used)
next
  case (4 f i w e f' w')
  then show ?case using task_move_handed [of i f w E T ok] by (simp add: runtime_env_def handed_def)
next
  case (5 f i w g k w' ch)
  then show ?case using task_move_handed [of i f w E T ok] by (simp add: runtime_env_def handed_def still_def)
next
  case (6 f i w f' w')
  then show ?case using task_move_handed [of i f w E T ok] by (simp add: runtime_env_def handed_def still_def)
next
  case (7 f i w v w')
  then show ?case using task_move_handed [of i f w E T ok] by (simp add: runtime_env_def handed_def still_def)
next
  case (8 a w w' cl)
  then show ?case
    by (cases a) (auto simp: runtime_env_def destructor_act_def still_def dest!: held_drop_chans)
next
  case (9 w a)
  show ?case by (simp add: runtime_env_def destructor_after_def still_def)
next
  case (10 w ch w')
  then show ?case by (auto simp: runtime_env_def dest!: on_chans_eq new_open)
next
  case (11 ch v w w' cl)
  then show ?case by (auto simp: runtime_env_def still_def dest!: on_chans_call_eq send_open)
next
  case (12 ch w w' cl)
  then show ?case by (auto simp: runtime_env_def still_def dest!: on_chans_call_eq close_open)
next
  case (13 w w' cs)
  then show ?case by (auto simp: runtime_env_def still_def dest!: wait_chans)
qed

end

end
