(* ===== verification/RuntimeLive.thy ===== *)
theory RuntimeLive
  imports RuntimeJoin ExecutorRun
begin

section \<open>The runtime comes to an end\<close>

text \<open>
  When \<open>inel::block_on\<close> returns. \<open>paced K n m p\<close> bounds what a program may do: \<open>n\<close> steps of
  progress in all, where a poll that finds its operation pending is none, and between two of
  them, or before it yields, \<open>m\<close> such polls at first and \<open>K\<close> later. It may wait any number of
  times, so an \<open>await\<close> that polls, yields and polls again is one step. A join that is pending
  counts for two such polls, since the waker it replaces has to be dropped. The kernel of the locale
  \<open>answering_runtime\<close> keeps its word: \<open>submit_and_wait\<close> returns when the completions asked for
  are there.

  Then each step of a program, each entry the kernel owes, each submission not yet started and
  each open channel has a price, and the runtime meets the contract \<open>finishing\<close> of the executor.
\<close>

coinductive paced :: "nat \<Rightarrow> nat \<Rightarrow> nat \<Rightarrow> ('o, 'out, 'v) program \<Rightarrow> bool" for K where
  paced_Finish: "paced K n m (Finish v)"
| paced_Make: "paced K n K p \<Longrightarrow> paced K (Suc n) m (Make this q p)"
| paced_Poll: "(\<And>x. paced K n K (k (PollReady x))) \<Longrightarrow> paced K (Suc n) m (k Pending) \<Longrightarrow>
    paced K (Suc n) (Suc m) (PollSub j k)"
| paced_Discard: "paced K n K p \<Longrightarrow> paced K (Suc n) m (Discard j p)"
| paced_Detached: "paced K n K p \<Longrightarrow> paced K (Suc n) m (SubmitDetached this q p)"
| paced_Fork: "paced K a K child \<Longrightarrow> paced K b K p \<Longrightarrow> paced K (Suc (a + b)) m (Fork j child p)"
| paced_Join: "(\<And>r. paced K n K (k (Some r))) \<Longrightarrow> paced K (Suc n) m (k None) \<Longrightarrow>
    paced K (Suc n) (Suc (Suc m)) (Join j k)"
| paced_TryJoin: "(\<And>v. paced K n K (k v)) \<Longrightarrow> paced K (Suc n) m (TryJoin j k)"
| paced_Wake: "paced K n K p \<Longrightarrow> paced K (Suc n) m (WakeMe p)"
| paced_Yield: "paced K n K p \<Longrightarrow> paced K n m (Yield p)"

inductive_cases paced_MakeE: "paced K n m (Make this q p)"
inductive_cases paced_PollE: "paced K n m (PollSub j k)"
inductive_cases paced_DiscardE: "paced K n m (Discard j p)"
inductive_cases paced_DetachedE: "paced K n m (SubmitDetached this q p)"
inductive_cases paced_ForkE: "paced K n m (Fork j child p)"
inductive_cases paced_JoinE: "paced K n m (Join j k)"
inductive_cases paced_TryJoinE: "paced K n m (TryJoin j k)"
inductive_cases paced_WakeE: "paced K n m (WakeMe p)"
inductive_cases paced_YieldE: "paced K n m (Yield p)"

lemma paced_more:
  assumes "paced K n m p" "m \<le> m'"
  shows "paced K n m' p"
proof -
  have "\<exists>m. m \<le> m' \<and> paced K n m p" using assms by blast
  then show ?thesis
  proof (coinduction arbitrary: n m' p)
    case paced
    then obtain m where "m \<le> m'" "paced K n m p" by blast
    from this(2,1) show ?case
    proof cases
      case (paced_Poll n0 k m0 j)
      then show ?thesis using \<open>m \<le> m'\<close> by (cases m') auto
    next
      case (paced_Join n0 k m0 j)
      then obtain m1 where "m' = Suc (Suc m1)" "m0 \<le> m1" using \<open>m \<le> m'\<close> by (metis Suc_le_D Suc_le_mono)
      then show ?thesis using paced_Join by auto
    qed auto
  qed
qed

text \<open>\<open>fut.await\<close> of the submission held at \<open>j\<close>: poll, and yield while it is pending.\<close>

primcorec awaiting :: "bool \<Rightarrow> nat \<Rightarrow> ('out \<Rightarrow> ('o, 'out, 'v) program) \<Rightarrow> ('o, 'out, 'v) program" where
  "awaiting turn j k =
     (if turn then PollSub j (\<lambda>x. case x of Pending \<Rightarrow> awaiting False j k | PollReady v \<Rightarrow> k v)
      else Yield (awaiting True j k))"

definition await_sub :: "nat \<Rightarrow> ('out \<Rightarrow> ('o, 'out, 'v) program) \<Rightarrow> ('o, 'out, 'v) program" where
  "await_sub j k = awaiting True j k"

lemma await_sub_unfold:
  "await_sub j k = PollSub j (\<lambda>x. case x of Pending \<Rightarrow> Yield (await_sub j k) | PollReady v \<Rightarrow> k v)"
proof -
  have "awaiting False j k = Yield (awaiting True j k)" by (subst awaiting.code) simp
  then show ?thesis unfolding await_sub_def by (subst awaiting.code) (simp cong: poll.case_cong)
qed

text \<open>Waiting for an operation is one step, however often the task is polled meanwhile.\<close>

lemma await_paced:
  assumes "\<And>v. paced K n K (k v)" "0 < K"
  shows "paced K (Suc n) K (await_sub j k)"
proof -
  obtain K' where K: "K = Suc K'" using assms(2) by (cases K) simp_all
  have "(\<exists>m. a = Suc n \<and> m = b \<and> b = K \<and> p = await_sub j k \<or> a = Suc n \<and> b = K' \<and> p = Yield (await_sub j k)) \<or>
      paced K a b p \<Longrightarrow> paced K a b p" for a b p
  proof (coinduction arbitrary: a b p)
    case paced
    then show ?case
    proof (elim disjE exE conjE)
      assume "a = Suc n" "b = K" "p = await_sub j k"
      then show ?thesis
        using assms(1) K by (subst (asm) await_sub_unfold) auto
    next
      assume "paced K a b p"
      then show ?thesis by cases auto
    qed auto
  qed
  then show ?thesis by blast
qed

text \<open>\<open>handle.join().await\<close> of the handle held at \<open>j\<close>.\<close>

primcorec joining :: "bool \<Rightarrow> nat \<Rightarrow> ('v option \<Rightarrow> ('o, 'out, 'v) program) \<Rightarrow> ('o, 'out, 'v) program" where
  "joining turn j k =
     (if turn then Join j (\<lambda>x. case x of None \<Rightarrow> joining False j k | Some r \<Rightarrow> k r)
      else Yield (joining True j k))"

definition join_handle :: "nat \<Rightarrow> ('v option \<Rightarrow> ('o, 'out, 'v) program) \<Rightarrow> ('o, 'out, 'v) program" where
  "join_handle j k = joining True j k"

lemma join_handle_unfold:
  "join_handle j k = Join j (\<lambda>x. case x of None \<Rightarrow> Yield (join_handle j k) | Some r \<Rightarrow> k r)"
proof -
  have "joining False j k = Yield (joining True j k)" by (subst joining.code) simp
  then show ?thesis unfolding join_handle_def by (subst joining.code) (simp cong: option.case_cong)
qed

lemma join_paced:
  assumes "\<And>r. paced K n K (k r)" "1 < K"
  shows "paced K (Suc n) K (join_handle j k)"
proof -
  have "K = Suc (Suc (K - 2))" using assms(2) by simp
  then obtain K' where K: "K = Suc (Suc K')" by blast
  have "(a = Suc n \<and> b = K \<and> p = join_handle j k \<or> a = Suc n \<and> b = K' \<and> p = Yield (join_handle j k)) \<or>
      paced K a b p \<Longrightarrow> paced K a b p" for a b p
  proof (coinduction arbitrary: a b p)
    case paced
    then show ?case
    proof (elim disjE conjE)
      assume "a = Suc n" "b = K" "p = join_handle j k"
      then show ?thesis
        using assms(1) K by (subst (asm) join_handle_unfold) auto
    next
      assume "paced K a b p"
      then show ?thesis by cases auto
    qed auto
  qed
  then show ?thesis by blast
qed

subsection \<open>Prices\<close>

text \<open>
  An entry in the kernel pays for the wake of its completion and the wait that reaps it; a
  step of a program for the most expensive thing it can do, which is to make a submission.
\<close>

definition entry_price :: "nat \<Rightarrow> nat" where
  "entry_price K = K + 2"

definition held_price :: "nat \<Rightarrow> nat" where
  "held_price K = K + 4"

definition step_price :: "nat \<Rightarrow> nat" where
  "step_price K = 4 * K + 7"

definition side_price :: "nat \<Rightarrow> ('o, 'out, 'v) task_state \<Rightarrow> nat" where
  "side_price K f = held_price K * length (ts_held f) + (case ts_left f of None \<Rightarrow> 0 | Some _ \<Rightarrow> 1)"

definition steps_left :: "nat \<Rightarrow> ('o, 'out, 'v) program \<Rightarrow> nat" where
  "steps_left K p = (LEAST n. paced K n K p)"

definition moves_left :: "nat \<Rightarrow> ('o, 'out, 'v) program \<Rightarrow> nat" where
  "moves_left K p = (LEAST c. \<exists>n m. c = step_price K * n + m \<and> m \<le> K \<and> paced K n m p)"

definition paced_task :: "nat \<Rightarrow> ('o, 'out, 'v) task_state \<Rightarrow> bool" where
  "paced_task K f \<longleftrightarrow> (\<exists>n. paced K n K (ts_code f))"

definition rest_credit :: "nat \<Rightarrow> ('o, 'out, 'v) task_state \<Rightarrow> nat" where
  "rest_credit K f = step_price K * steps_left K (ts_code f) + side_price K f"

definition poll_credit :: "nat \<Rightarrow> ('o, 'out, 'v) task_state \<Rightarrow> nat" where
  "poll_credit K f = moves_left K (ts_code f) + side_price K f"

definition destructor_credit :: "nat \<Rightarrow> destructor \<Rightarrow> nat" where
  "destructor_credit K d = (case d of DropHeld _ \<Rightarrow> entry_price K | EndLeft _ \<Rightarrow> 0)"

lemma steps_left_le: "paced K n K p \<Longrightarrow> steps_left K p \<le> n"
  unfolding steps_left_def by (rule Least_le)

lemma moves_left_le: "paced K n m p \<Longrightarrow> m \<le> K \<Longrightarrow> moves_left K p \<le> step_price K * n + m"
  unfolding moves_left_def by (rule Least_le) blast

lemma moves_left_eq:
  assumes "paced_task K f"
  obtains n m where "m \<le> K" "paced K n m (ts_code f)" "moves_left K (ts_code f) = step_price K * n + m"
proof -
  obtain n where "paced K n K (ts_code f)" using assms by (auto simp: paced_task_def)
  then have "\<exists>c n m. c = step_price K * n + m \<and> m \<le> K \<and> paced K n m (ts_code f)" by blast
  then have "\<exists>n m. moves_left K (ts_code f) = step_price K * n + m \<and> m \<le> K \<and> paced K n m (ts_code f)"
    unfolding moves_left_def by (rule LeastI_ex)
  then show ?thesis using that by blast
qed

lemma rest_credit_le: "paced K n K (ts_code f) \<Longrightarrow> rest_credit K f \<le> step_price K * n + side_price K f"
  using steps_left_le [of K n "ts_code f"] mult_le_mono2 [of "steps_left K (ts_code f)" n "step_price K"]
  by (simp add: rest_credit_def)

lemma poll_credit_le: "paced K n m (ts_code f) \<Longrightarrow> m \<le> K \<Longrightarrow> poll_credit K f \<le> step_price K * n + m + side_price K f"
  using moves_left_le [of K n m "ts_code f"] by (simp add: poll_credit_def)

lemma poll_starts:
  assumes "paced_task K f"
  shows "poll_credit K f \<le> rest_credit K f + K"
proof -
  have "\<exists>n. paced K n K (ts_code f)" using assms by (simp add: paced_task_def)
  then have "paced K (steps_left K (ts_code f)) K (ts_code f)" unfolding steps_left_def by (rule LeastI_ex)
  from poll_credit_le [OF this] show ?thesis by (simp add: rest_credit_def)
qed

lemma destructor_credit_simps [simp]:
  "destructor_credit K (DropHeld h) = entry_price K" "destructor_credit K (EndLeft l) = 0"
  by (simp_all add: destructor_credit_def)

lemma parts_paid: "(\<Sum>d\<leftarrow>task_parts f. destructor_credit K d) \<le> rest_credit K f"
proof -
  have "(\<Sum>d\<leftarrow>map DropHeld hs. destructor_credit K d) = entry_price K * length hs" for hs
    by (induction hs) simp_all
  then have "(\<Sum>d\<leftarrow>task_parts f. destructor_credit K d) = entry_price K * length (ts_held f)"
    by (cases "ts_left f") (simp_all only: task_parts_def option.case append_Nil append_Cons list.map sum_list.Cons
        destructor_credit_simps add_0)
  also have "\<dots> \<le> held_price K * length (ts_held f)" by (rule mult_le_mono1) (simp add: entry_price_def held_price_def)
  finally show ?thesis by (simp add: rest_credit_def side_price_def)
qed

subsection \<open>The price of the world\<close>

definition ring_owes :: "('u, 's) ring \<Rightarrow> nat" where
  "ring_owes r = unat (active r) + unat (detached r)"

definition unstarted :: "(nat \<rightharpoonup> 'o submission) \<Rightarrow> nat set" where
  "unstarted subs = {n. \<exists>s. subs n = Some s \<and> sub_state s = Initial}"

definition world_credit :: "nat \<Rightarrow> ('o, 'w, 'u, 's, 'c) world \<Rightarrow> nat" where
  "world_credit K w =
     entry_price K * ((case rt_ring w of None \<Rightarrow> 0 | Some r \<Rightarrow> ring_owes r) + card (unstarted (sys_subs (rt_sys w))))"

text \<open>There are finitely many submissions, and a ring that is lent is not in place.\<close>

definition tame :: "('o, 'w, 'u, 's, 'c) world \<Rightarrow> bool" where
  "tame w \<longleftrightarrow>
     finite (dom (sys_subs (rt_sys w))) \<and> (rt_lent w = None \<or> sys_cell (rt_sys w) = Borrowed)"

lemma finite_unstarted: "finite (dom subs) \<Longrightarrow> finite (unstarted subs)"
  by (erule finite_subset [rotated]) (auto simp: unstarted_def)

lemma unstarted_update:
  "unstarted (subs(n \<mapsto> s)) = (if sub_state s = Initial then insert n (unstarted subs) else unstarted subs - {n})"
  by (auto simp: unstarted_def)

lemma unstarted_remove: "unstarted (subs(n := None)) = unstarted subs - {n}"
  by (auto simp: unstarted_def)

lemma u32_inc: "u32_add a 1 = Inr n \<Longrightarrow> unat n = unat a + 1"
  using unat_u32_add [of a 1] by (auto simp: u32_add_def split: if_splits)

lemma submit_owes: "ring_submit E e wk r = Inr (k, r') \<Longrightarrow> ring_owes r' = ring_owes r + 1"
  by (auto simp: ring_submit_def ring_push_def bindR_Inr_iff mapR_Inr_iff ring_owes_def u32_inc split: prod.splits)

lemma submit_detached_owes: "ring_submit_detached E e r = Inr r' \<Longrightarrow> ring_owes r' = ring_owes r + 1"
  by (auto simp: ring_submit_detached_def ring_push_def bindR_Inr_iff mapR_Inr_iff ring_owes_def u32_inc)

lemma check_owes: "ring_check_result E k r = Inr (x, r') \<Longrightarrow> ring_owes r' = ring_owes r"
  by (auto simp: ring_check_result_def mapR_Inr_iff ring_owes_def)

lemma cancel_owes: "ring_cancel E k e d r = Inr (r', ev) \<Longrightarrow> ring_owes r' \<le> ring_owes r + 1"
  by (auto simp: ring_cancel_def ring_push_def bindR_Inr_iff mapR_Inr_iff ring_owes_def u32_inc Let_def
      split: if_splits option.splits)

lemma submission_poll_owes:
  assumes "submission_poll E T wk s (v, c) = Inr (out, s', v', c')"
  shows "\<exists>r r'. c = Ready r \<and> c' = Ready r' \<and> sub_state s' \<noteq> Initial \<and>
    (if sub_state s = Initial then out = Pending \<and> ring_owes r' = ring_owes r + 1 else ring_owes r' = ring_owes r)"
proof (cases c)
  case (Ready r)
  show ?thesis
  proof (cases "sub_state s")
    case Initial
    then show ?thesis
      using assms Ready
      by (auto simp: submission_poll_def submission_start_def state_take_def state_update_def reactor_submit_Ready
          bindR_Inr_iff mapR_Inr_iff dest: submit_owes split: option.splits)
  next
    case (Submitted k)
    obtain res r' where r': "ring_check_result E k r = Inr (res, r')"
      using assms Ready Submitted
      by (auto simp: submission_poll_def state_take_def reactor_check_Ready bindR_Inr_iff mapR_Inr_iff)
    then have "c' = Ready r' \<and> sub_state s' \<noteq> Initial"
      using assms Ready Submitted
      by (cases res)
        (auto simp: submission_poll_def state_take_def state_update_def reactor_check_Ready bindR_Inr_iff split: if_splits)
    then show ?thesis using Ready Submitted check_owes [OF r'] by simp
  qed (use assms in \<open>simp add: submission_poll_def state_take_def\<close>)
qed (use assms in \<open>auto simp: submission_poll_def submission_start_def state_take_def reactor_submit_def
    reactor_check_result_def with_ring_def bindR_Inr_iff split: submission_state.splits option.splits\<close>)

lemma submission_drop_owes:
  assumes "submission_drop E T s c = Inr (c', ev)"
  shows "c' = c \<or> (\<exists>r r'. c = Ready r \<and> c' = Ready r' \<and> ring_owes r' \<le> ring_owes r + 1)"
proof (cases c)
  case (Ready r)
  then show ?thesis
    using assms
    by (auto simp: submission_drop_def submission_cancel_def manually_take_def reactor_cancel_Ready bindR_Inr_iff
        mapR_Inr_iff dest: cancel_owes split: submission_state.splits option.splits prod.splits)
qed (use assms in \<open>auto simp: submission_drop_def submission_cancel_def manually_take_def reactor_cancel_def
    with_ring_def bindR_Inr_iff mapR_Inr_iff split: submission_state.splits option.splits prod.splits\<close>)

lemma run_detached_owes:
  assumes "run_detached E T this q (v, c) = Inr (q', v', c')"
  shows "c' = c \<or> (\<exists>r r'. c = Ready r \<and> c' = Ready r' \<and> ring_owes r' = ring_owes r + 1)"
  using assms
  by (cases c)
    (auto simp: run_detached_def reactor_submit_detached_def with_ring_def bindR_Inr_iff mapR_Inr_iff
      dest: submit_detached_owes)

text \<open>The operations of the runtime, and what they cost.\<close>

lemma make_price:
  assumes "tame w"
  shows "tame (rt_make this q w) \<and> world_credit K (rt_make this q w) \<le> world_credit K w + entry_price K"
proof -
  let ?u = "unstarted (sys_subs (rt_sys w))"
  have r: "rt_ring (rt_make this q w) = rt_ring w" by (simp add: rt_ring_def rt_make_def split: option.splits)
  have u: "unstarted (sys_subs (rt_sys (rt_make this q w))) = insert (rt_next w) ?u"
    by (simp add: rt_make_def unstarted_update submission_new_def)
  have "finite ?u" using assms by (simp add: tame_def finite_unstarted)
  then have "card (insert (rt_next w) ?u) \<le> card ?u + 1" by (simp add: card_insert_if)
  then have "world_credit K (rt_make this q w) \<le>
      entry_price K * ((case rt_ring w of None \<Rightarrow> 0 | Some r \<Rightarrow> ring_owes r) + card ?u + 1)"
    unfolding world_credit_def r u by (intro mult_le_mono2) simp
  then show ?thesis using assms by (simp add: world_credit_def tame_def rt_make_def distrib_left)
qed

lemma poll_price:
  assumes "rt_poll E T n i w = Inr (out, first, w')" "tame w"
  shows "tame w' \<and> world_credit K w' = world_credit K w \<and> (first \<longrightarrow> out = Pending)"
proof -
  obtain s where s: "sys_subs (rt_sys w) n = Some s" using assms(1) by (auto simp: rt_poll_def split: option.splits)
  then obtain s' v c where p: "submission_poll E T i s (sys_world (rt_sys w), sys_cell (rt_sys w)) = Inr (out, s', v, c)"
      "w' = w\<lparr>rt_sys := \<lparr>sys_subs = (sys_subs (rt_sys w))(n \<mapsto> s'), sys_world = v, sys_cell = c\<rparr>\<rparr>"
      "first \<longleftrightarrow> sub_state s = Initial"
    using assms(1) by (auto simp: rt_poll_def mapR_Inr_iff dest!: on_ring_Inr)
  obtain r r' where r: "sys_cell (rt_sys w) = Ready r" "c = Ready r'" "sub_state s' \<noteq> Initial"
      "if sub_state s = Initial then out = Pending \<and> ring_owes r' = ring_owes r + 1 else ring_owes r' = ring_owes r"
    using submission_poll_owes [OF p(1)] by blast
  have l: "rt_lent w = None" and f: "finite (dom (sys_subs (rt_sys w)))" using assms(2) r(1) by (simp_all add: tame_def)
  have u: "unstarted (sys_subs (rt_sys w')) = unstarted (sys_subs (rt_sys w)) - {n}"
    using p(2) r(3) by (simp add: unstarted_update)
  have "ring_owes r' + card (unstarted (sys_subs (rt_sys w'))) = ring_owes r + card (unstarted (sys_subs (rt_sys w)))"
  proof (cases "sub_state s = Initial")
    case True
    then have m: "n \<in> unstarted (sys_subs (rt_sys w))" using s by (simp add: unstarted_def)
    then have "0 < card (unstarted (sys_subs (rt_sys w)))" using finite_unstarted [OF f] card_gt_0_iff by blast
    then show ?thesis using True r(4) m unfolding u by (simp add: card_Diff_singleton)
  next
    case False
    then have "n \<notin> unstarted (sys_subs (rt_sys w))" using s by (simp add: unstarted_def)
    then show ?thesis using False r(4) unfolding u by simp
  qed
  then show ?thesis using r l f p assms(2) by (simp add: world_credit_def rt_ring_def tame_def)
qed

lemma drop_price:
  assumes "rt_drop E T n w = Inr (w', cl)" "tame w"
  shows "tame w' \<and> world_credit K w' \<le> world_credit K w + entry_price K \<and> wakes K cl = 0"
proof -
  obtain s where s: "sys_subs (rt_sys w) n = Some s" using assms(1) by (auto simp: rt_drop_def split: option.splits)
  let ?S = "(rt_sys w)\<lparr>sys_subs := (sys_subs (rt_sys w))(n := None)\<rparr>"
  obtain c ev where d: "submission_drop E T s (sys_cell (rt_sys w)) = Inr (c, ev)"
      and w': "(case (dropped_waker E s (sys_cell (rt_sys w)), c) of
           (Some wk, Ready r) \<Rightarrow> (w\<lparr>rt_sys := ?S\<lparr>sys_cell := Borrowed\<rparr>, rt_lent := Some (n, r)\<rparr>, Some (DropWaker wk))
         | _ \<Rightarrow> (w\<lparr>rt_sys := ?S\<lparr>sys_cell := c\<rparr>\<rparr>, None)) = (w', cl)"
    using assms(1) s by (auto simp: rt_drop_def mapR_Inr_iff Let_def dest!: on_ring_Inr)
  have f: "finite (dom (sys_subs (rt_sys w)))" using assms(2) by (simp add: tame_def)
  have subs: "sys_subs (rt_sys w') = (sys_subs (rt_sys w))(n := None)"
    using w' by (auto split: option.splits cell.splits)
  have u: "card (unstarted (sys_subs (rt_sys w'))) \<le> card (unstarted (sys_subs (rt_sys w)))"
    unfolding subs unstarted_remove by (rule card_Diff1_le)
  have "(case rt_ring w' of None \<Rightarrow> 0 | Some r \<Rightarrow> ring_owes r) \<le> (case rt_ring w of None \<Rightarrow> 0 | Some r \<Rightarrow> ring_owes r) + 1 \<and>
      tame w' \<and> wakes K cl = 0"
  proof (cases "dropped_waker E s (sys_cell (rt_sys w))")
    case None
    then have e: "w' = w\<lparr>rt_sys := ?S\<lparr>sys_cell := c\<rparr>\<rparr>" "cl = None" using w' by simp_all
    show ?thesis
      using submission_drop_owes [OF d] assms(2) e by (auto simp: rt_ring_def tame_def wakes_def split: option.splits)
  next
    case (Some wk)
    then obtain r where r: "sys_cell (rt_sys w) = Ready r" by (auto simp: dropped_waker_def split: submission_state.splits cell.splits)
    then obtain r' where r': "c = Ready r'" "ring_owes r' \<le> ring_owes r + 1"
      using submission_drop_owes [OF d] by auto
    have "w' = w\<lparr>rt_sys := ?S\<lparr>sys_cell := Borrowed\<rparr>, rt_lent := Some (n, r')\<rparr>" "cl = Some (DropWaker wk)"
      using w' Some r'(1) by simp_all
    then show ?thesis using r r' assms(2) by (auto simp: rt_ring_def tame_def wakes_def)
  qed
  moreover from this u have "(case rt_ring w' of None \<Rightarrow> 0 | Some r \<Rightarrow> ring_owes r) + card (unstarted (sys_subs (rt_sys w'))) \<le>
      (case rt_ring w of None \<Rightarrow> 0 | Some r \<Rightarrow> ring_owes r) + card (unstarted (sys_subs (rt_sys w))) + 1" by linarith
  then have "world_credit K w' \<le> entry_price K * ((case rt_ring w of None \<Rightarrow> 0 | Some r \<Rightarrow> ring_owes r) +
      card (unstarted (sys_subs (rt_sys w))) + 1)"
    unfolding world_credit_def by (rule mult_le_mono2)
  then have "world_credit K w' \<le> world_credit K w + entry_price K" by (simp add: world_credit_def distrib_left)
  ultimately show ?thesis by simp
qed

lemma unlend_price: "tame w \<Longrightarrow> tame (rt_unlend n w) \<and> world_credit K (rt_unlend n w) = world_credit K w"
  by (auto simp: rt_unlend_def tame_def world_credit_def rt_ring_def split: option.splits)

lemma detach_price:
  assumes "rt_detach E T this q w = Inr w'" "tame w"
  shows "tame w' \<and> world_credit K w' \<le> world_credit K w + entry_price K"
proof -
  obtain q' v c where d: "run_detached E T this q (sys_world (rt_sys w), sys_cell (rt_sys w)) = Inr (q', v, c)"
      "w' = w\<lparr>rt_sys := (rt_sys w)\<lparr>sys_world := v, sys_cell := c\<rparr>\<rparr>"
    using assms(1) by (auto simp: rt_detach_def mapR_Inr_iff dest!: on_ring_Inr)
  then show ?thesis
    using run_detached_owes [OF d(1)] assms(2)
    by (auto simp: world_credit_def rt_ring_def tame_def distrib_left split: option.splits)
qed

subsection \<open>Every move is paid\<close>

text \<open>The move \<open>m\<close> of a task that had, with a world worth \<open>cw\<close>, the credit \<open>B\<close>.\<close>

definition paid ::
    "(('o, 'w, 'u, 's, 'c) world \<Rightarrow> nat) \<Rightarrow> nat \<Rightarrow> nat \<Rightarrow>
      (('o, 'out, 'v) task_state, 'v) move \<times> ('o, 'w, 'u, 's, 'c) world \<Rightarrow> bool" where
  "paid cw K B mw \<longleftrightarrow>
     (case fst mw of
        Does Quiet f \<Rightarrow> paced_task K f \<and> tame (snd mw) \<and> poll_credit K f + cw (snd mw) < B
      | Does (Call c) f \<Rightarrow> paced_task K f \<and> tame (snd mw) \<and> poll_credit K f + cw (snd mw) + wakes K (Some c) < B
      | Spawns g k \<Rightarrow>
          \<forall>c. paced_task K g \<and> paced_task K (k c) \<and> tame (snd mw) \<and>
            rest_credit K g + poll_credit K (k c) + cw (snd mw) + Suc K + Suc K < B
      | Pends f \<Rightarrow> paced_task K f \<and> tame (snd mw) \<and> rest_credit K f + cw (snd mw) \<le> B
      | Ends v \<Rightarrow> tame (snd mw) \<and> cw (snd mw) \<le> B
      | Panics p \<Rightarrow> True)"

lemma paid_panicking: "(\<And>x. y = Inr x \<Longrightarrow> paid cw K B (g x)) \<Longrightarrow> paid cw K B (panicking w (mapR g y))"
  by (cases y) (simp_all add: panicking_def paid_def)

lemma paid_effect:
  assumes "paced_task K f" "tame w" "poll_credit K f + cw w + wakes K cl < B"
  shows "paid cw K B (Does (effect_of cl) f, w)"
  using assms by (cases cl) (simp_all add: paid_def effect_of_def wakes_def)

lemma paced_task_code [simp]: "paced_task K (f\<lparr>ts_code := p\<rparr>) \<longleftrightarrow> (\<exists>n. paced K n K p)"
  by (simp add: paced_task_def)

lemma paced_task_other [simp]:
  "paced_task K (f\<lparr>ts_held := hs\<rparr>) = paced_task K f" "paced_task K (f\<lparr>ts_left := l\<rparr>) = paced_task K f"
  by (simp_all add: paced_task_def)

lemma poll_credit_other [simp]:
  "poll_credit K (f\<lparr>ts_held := hs\<rparr>) = moves_left K (ts_code f) + side_price K (f\<lparr>ts_held := hs\<rparr>)"
  "poll_credit K (f\<lparr>ts_left := l\<rparr>) = moves_left K (ts_code f) + side_price K (f\<lparr>ts_left := l\<rparr>)"
  by (simp_all add: poll_credit_def)

lemma chans_tame:
  "rt_sys w' = rt_sys w \<Longrightarrow> rt_lent w' = rt_lent w \<Longrightarrow> tame w' = tame w"
  "rt_sys w' = rt_sys w \<Longrightarrow> rt_lent w' = rt_lent w \<Longrightarrow> world_credit K w' = world_credit K w"
  by (simp_all add: tame_def world_credit_def rt_ring_def cong: option.case_cong)

lemma on_chans_call_world: "on_chans_call g w = (w', cl) \<Longrightarrow> rt_sys w' = rt_sys w \<and> rt_lent w' = rt_lent w"
  by (auto simp: on_chans_call_def split: prod.splits)

lemma on_chans_world: "on_chans g w = (x, w') \<Longrightarrow> rt_sys w' = rt_sys w \<and> rt_lent w' = rt_lent w"
  by (auto simp: on_chans_def split: prod.splits)

context open_channels
begin

text \<open>An open channel is worth the wake its sender's end causes.\<close>

definition chans_credit :: "nat \<Rightarrow> 'c \<Rightarrow> nat" where
  "chans_credit K c = Suc K * card (open_c c)"

definition full_credit :: "nat \<Rightarrow> ('o, 'w, 'u, 's, 'c) world \<Rightarrow> nat" where
  "full_credit K w = world_credit K w + chans_credit K (rt_chans w)"

lemma fewer_open: "open_c c' \<subseteq> open_c c \<Longrightarrow> chans_credit K c' \<le> chans_credit K c"
  unfolding chans_credit_def by (rule mult_le_mono2) (rule card_mono [OF finite_open])

lemma one_closed:
  assumes "open_c c' \<subseteq> open_c c" "ch \<notin> open_c c'" "cl \<noteq> None \<longrightarrow> ch \<in> open_c c"
  shows "chans_credit K c' + wakes K cl \<le> chans_credit K c"
proof (cases cl)
  case None
  then show ?thesis using fewer_open [OF assms(1)] by (simp add: wakes_def)
next
  case (Some x)
  then have "open_c c' \<subseteq> open_c c - {ch}" "ch \<in> open_c c" using assms by auto
  then have "Suc (card (open_c c')) \<le> card (open_c c)"
    using card_mono [of "open_c c - {ch}" "open_c c'"] finite_open [of c] card_Suc_Diff1 [of "open_c c" ch] by simp
  then have "Suc K * Suc (card (open_c c')) \<le> Suc K * card (open_c c)" by (rule mult_le_mono2)
  moreover have "wakes K cl \<le> Suc K" by (simp add: wakes_def split: option.splits waker_call.splits)
  ultimately show ?thesis unfolding chans_credit_def by simp
qed

lemma one_opened:
  assumes "open_c c' \<subseteq> insert ch (open_c c)"
  shows "chans_credit K c' \<le> chans_credit K c + Suc K"
proof -
  have "card (open_c c') \<le> card (insert ch (open_c c))" using assms finite_open by (intro card_mono) simp_all
  also have "\<dots> \<le> Suc (card (open_c c))" by (simp add: card_insert_if finite_open)
  finally have "Suc K * card (open_c c') \<le> Suc K * Suc (card (open_c c))" by (rule mult_le_mono2)
  then show ?thesis unfolding chans_credit_def by simp
qed

lemma full_same: "rt_chans w' = rt_chans w \<Longrightarrow> world_credit K w' \<le> world_credit K w + x \<Longrightarrow> full_credit K w' \<le> full_credit K w + x"
  by (simp add: full_credit_def)

lemma forget_price:
  assumes "on_chans_call (os_forget C c) w = (w', cl)" "tame w"
  shows "tame w' \<and> full_credit K w' \<le> full_credit K w \<and> wakes K cl = 0"
proof -
  obtain c' where c': "os_forget C c (rt_chans w) = (c', cl)" "rt_chans w' = c'"
    using on_chans_call_eq [OF assms(1)] by blast
  note f = forget_open [OF c'(1)]
  then have "wakes K cl = 0" by (auto simp: wakes_def)
  moreover have "chans_credit K c' \<le> chans_credit K (rt_chans w)" by (rule fewer_open) (use f in \<open>simp add: still_def\<close>)
  ultimately show ?thesis
    using on_chans_call_world [OF assms(1)] assms(2) c'(2) chans_tame [of w' w] by (simp add: full_credit_def)
qed

lemma held_drop_price:
  assumes "held_drop E T C h w = Inr (w', cl)" "tame w"
  shows "tame w' \<and> full_credit K w' \<le> full_credit K w + entry_price K \<and> wakes K cl = 0"
proof (cases h)
  case (Sub n)
  then have d: "rt_drop E T n w = Inr (w', cl)" using assms by (simp add: held_drop_def)
  show ?thesis using drop_price [OF d assms(2), of K] full_same [OF drop_chans [OF d], of K] by simp
next
  case (Handle c)
  then show ?thesis using forget_price [of c w w' cl K] assms by (simp add: held_drop_def)
qed

lemma drop_move_paid:
  assumes "paced_task K f" "ts_left f = None" "tame w" "poll_credit K f + full_credit K w + entry_price K + 1 < B"
  shows "paid (full_credit K) K B (drop_move E T C h f w)"
  unfolding drop_move_def
proof (rule paid_panicking, clarify)
  fix w' cl
  assume d: "held_drop E T C h w = Inr (w', cl)"
  note p = held_drop_price [OF d assms(3), of K]
  have "poll_credit K (f\<lparr>ts_left := drop_leaves h\<rparr>) \<le> poll_credit K f + 1"
    using assms(2) by (cases h) (simp_all add: poll_credit_def side_price_def)
  then show "paid (full_credit K) K B (Does (effect_of cl) (f\<lparr>ts_left := drop_leaves h\<rparr>), w')"
    using p assms(1,4) by (intro paid_effect) (simp_all del: poll_credit_other)
qed

lemma fork_paid:
  assumes f: "ts_left f = None" "ts_code f = Fork j child p" and n: "paced K a K child" "paced K b K p"
    and B: "poll_credit K f = step_price K * Suc (a + b) + m + held_price K * length (ts_held f)"
    and w: "tame w"
  shows "paid (full_credit K) K (poll_credit K f + full_credit K w) (task_move E T ok C f i w)"
proof -
  let ?g = "\<lparr>ts_code = child, ts_held = drop j (ts_held f), ts_left = None\<rparr>"
  let ?f = "\<lambda>c. f\<lparr>ts_code := p, ts_held := take j (ts_held f) @ [Handle c]\<rparr>"
  have len: "held_price K * length (ts_held f) =
      held_price K * length (drop j (ts_held f)) + held_price K * length (take j (ts_held f))"
    by (metis append_take_drop_id length_append distrib_left add.commute)
  have g: "rest_credit K ?g \<le> step_price K * a + held_price K * length (drop j (ts_held f))"
    using rest_credit_le [of K a ?g] n(1) by (simp add: side_price_def)
  have h: "poll_credit K (?f c) \<le> step_price K * b + K + held_price K * length (take j (ts_held f)) + held_price K" for c
    using poll_credit_le [of K b K "?f c"] n(2) f(1) by (simp add: side_price_def)
  have st: "step_price K * Suc (a + b) = step_price K * a + step_price K * b + step_price K" by (simp add: distrib_left)
  have pr: "K + Suc K + Suc K + held_price K < step_price K" by (simp add: step_price_def held_price_def)
  have "rest_credit K ?g + poll_credit K (?f c) + full_credit K w + Suc K + Suc K < poll_credit K f + full_credit K w" for c
    unfolding B len st using g h [of c] pr by linarith
  then show ?thesis
    using f n w
    by (auto simp: task_move_def paid_def Let_def paced_task_def simp del: poll_credit_other)
qed

lemma try_join_paid:
  assumes f: "ts_left f = None" "ts_code f = TryJoin j k" and n: "\<And>v. paced K n K (k v)"
    and B: "\<And>v. poll_credit K (f\<lparr>ts_code := k v\<rparr>) < poll_credit K f" and w: "tame w"
  shows "paid (full_credit K) K (poll_credit K f + full_credit K w) (task_move E T ok C f i w)"
proof (cases "handle_at_index j (ts_held f)")
  case (Some ch)
  obtain x c' where x: "os_try_recv C ch (rt_chans w) = (x, c')" by fastforce
  let ?w = "w\<lparr>rt_chans := c'\<rparr>"
  have t: "tame ?w" "full_credit K ?w \<le> full_credit K w"
    using w try_recv_open [OF x] fewer_open [of c' "rt_chans w" K] chans_tame [of ?w w]
    by (simp_all add: full_credit_def still_def)
  have "paid (full_credit K) K (poll_credit K f + full_credit K w) (Does Quiet (f\<lparr>ts_code := k v\<rparr>), ?w)" for v
    using B [of v] n [of v] t by (auto simp: paid_def)
  then show ?thesis
    using f x Some by (cases x) (simp_all add: task_move_def join_try_join_def on_chans_def)
qed (use f in \<open>simp add: task_move_def paid_def\<close>)

text \<open>A poll of a join handle.\<close>

lemma join_paid:
  assumes f: "ts_left f = None" and j: "j < length (ts_held f)"
    and r: "\<And>r. paced K n K (k (Some r))" "\<And>r. poll_credit K (f\<lparr>ts_code := k (Some r)\<rparr>) < poll_credit K f"
    and p: "paced K n1 K (k None)" "poll_credit K (f\<lparr>ts_code := k None\<rparr>) + 1 < poll_credit K f" and w: "tame w"
  shows "paid (full_credit K) K (poll_credit K f + full_credit K w) (join_move C j ch k f i w)"
proof -
  obtain x c1 where rc: "os_recv C ch i (rt_chans w) = (x, c1)" by fastforce
  let ?w = "w\<lparr>rt_chans := c1\<rparr>"
  have t: "tame ?w" using w chans_tame(1) [of ?w w] by simp
  have o1: "open_c c1 \<subseteq> open_c (rt_chans w)"
    using rc recv_ready_open [of ch i "rt_chans w" _ c1] recv_pending_open [of ch i "rt_chans w" _ c1]
    by (cases x) (auto simp: still_def)
  then have c: "full_credit K ?w \<le> full_credit K w"
    using fewer_open [OF o1, of K] chans_tame(2) [of ?w w] by (simp add: full_credit_def)
  show ?thesis
  proof (cases x)
    case (Inl y)
    obtain w' cl where cl: "on_chans_call (os_forget C ch) ?w = (w', cl)" by fastforce
    note g = forget_price [OF cl t, of K]
    let ?v = "case y of Inr v \<Rightarrow> Some v | Inl _ \<Rightarrow> None"
    let ?f = "f\<lparr>ts_code := k (Some ?v), ts_held := without j (ts_held f), ts_left := None\<rparr>"
    have "length (without j (ts_held f)) \<le> length (ts_held f)" using j by (simp add: without_def)
    then have "poll_credit K ?f \<le> poll_credit K (f\<lparr>ts_code := k (Some ?v)\<rparr>)"
      using f by (simp add: poll_credit_def side_price_def)
    then have "poll_credit K ?f + full_credit K w' + wakes K cl < poll_credit K f + full_credit K w"
      using r(2) [of ?v] g c by linarith
    then have "paid (full_credit K) K (poll_credit K f + full_credit K w) (Does (effect_of cl) ?f, w')"
      using r(1) g by (intro paid_effect) (auto simp: paced_task_def)
    then show ?thesis using rc Inl cl by (simp add: join_move_def join_poll_def on_chans_def)
  next
    case (Inr old)
    let ?f = "f\<lparr>ts_code := k None, ts_left := map_option Stale old\<rparr>"
    have "poll_credit K ?f \<le> poll_credit K (f\<lparr>ts_code := k None\<rparr>) + 1"
      using f by (cases old) (simp_all add: poll_credit_def side_price_def)
    then have "poll_credit K ?f + full_credit K ?w + wakes K (Some (CloneWaker i)) < poll_credit K f + full_credit K w"
      using p(2) c by (simp add: wakes_def del: poll_credit_other)
    then have "paid (full_credit K) K (poll_credit K f + full_credit K w) (Does (effect_of (Some (CloneWaker i))) ?f, ?w)"
      using p(1) t by (intro paid_effect) (auto simp: paced_task_def)
    then show ?thesis using rc Inr by (simp add: join_move_def join_poll_def on_chans_def)
  qed
qed

lemma task_move_paid:
  assumes f: "paced_task K f" and w: "tame w"
  shows "paid (full_credit K) K (poll_credit K f + full_credit K w) (task_move E T ok C f i w)"
proof (cases "ts_left f")
  case (Some l)
  have "poll_credit K (f\<lparr>ts_left := None\<rparr>) + 1 = poll_credit K f" using Some by (simp add: poll_credit_def side_price_def)
  moreover have "full_credit K (rt_unlend m w) = full_credit K w \<and> tame (rt_unlend m w)" for m
    using unlend_price [OF w, of m K] by (simp add: full_credit_def)
  ultimately show ?thesis
    using Some f w by (cases l) (auto simp: task_move_def left_move_def paid_def wakes_def simp del: poll_credit_other)
next
  case None
  obtain n m where n: "m \<le> K" "paced K n m (ts_code f)" "moves_left K (ts_code f) = step_price K * n + m"
    using moves_left_eq [OF f] .
  have side: "side_price K f = held_price K * length (ts_held f)" using None by (simp add: side_price_def)
  have B: "poll_credit K f = step_price K * n + m + held_price K * length (ts_held f)"
    using n(3) side by (simp add: poll_credit_def)
  have go: "poll_credit K (f\<lparr>ts_code := p\<rparr>) \<le> step_price K * n1 + m1 + held_price K * length (ts_held f)"
    if "paced K n1 m1 p" "m1 \<le> K" for p n1 m1
    using poll_credit_le [of K n1 m1 "f\<lparr>ts_code := p\<rparr>"] that None by (simp add: side_price_def)
  note prices = step_price_def held_price_def entry_price_def
  show ?thesis
  proof (cases "ts_code f")
    case (Finish v)
    show ?thesis
    proof (cases "ts_held f")
      case Nil
      then show ?thesis using None Finish w by (simp add: task_move_def paid_def)
    next
      case (Cons h hs)
      have "poll_credit K (f\<lparr>ts_held := hs\<rparr>) + held_price K = poll_credit K f"
        using Cons None by (simp add: poll_credit_def side_price_def)
      then have "poll_credit K (f\<lparr>ts_held := hs\<rparr>) + full_credit K w + entry_price K + 1 < poll_credit K f + full_credit K w"
        by (simp add: prices del: poll_credit_other)
      from drop_move_paid [OF _ _ w this] show ?thesis using f None Finish Cons by (simp add: task_move_def)
    qed
  next
    case (Make this q p)
    obtain n1 where n1: "n = Suc n1" "paced K n1 K p" using n(2) Make by (auto elim: paced_MakeE)
    note g = go [OF n1(2) le_refl]
    have "poll_credit K (f\<lparr>ts_code := p, ts_held := ts_held f @ [Sub (rt_next w)]\<rparr>) = poll_credit K (f\<lparr>ts_code := p\<rparr>) + held_price K"
      using None by (simp add: poll_credit_def side_price_def)
    then show ?thesis
      using None Make g n1 make_price [OF w, of this q K] full_same [of "rt_make this q w" w K "entry_price K"] w unfolding B
      by (auto simp: task_move_def paid_def prices simp del: poll_credit_other)
  next
    case (PollSub j k)
    obtain n1 m1 where n1: "n = Suc n1" "m = Suc m1" "\<And>x. paced K n1 K (k (PollReady x))" "paced K (Suc n1) m1 (k Pending)"
      using n(2) PollSub by (auto elim: paced_PollE)
    show ?thesis
    proof (cases "sub_at_index j (ts_held f)")
      case (Some h)
      have "paid (full_credit K) K (poll_credit K f + full_credit K w) (panicking w (mapR (\<lambda>(out, first, w').
          (Does (if first then Call (CloneWaker i) else Quiet) (f\<lparr>ts_code := k out\<rparr>), w')) (rt_poll E T h i w)))"
      proof (rule paid_panicking, clarify)
        fix out first w'
        assume p: "rt_poll E T h i w = Inr (out, first, w')"
        note pp = poll_price [OF p w, of K]
        have "(\<exists>a. paced K a K (k out)) \<and> poll_credit K (f\<lparr>ts_code := k out\<rparr>) < poll_credit K f"
        proof (cases out)
          case Pending
          then show ?thesis
            using go [OF n1(4)] n(1) n1(2) paced_more [OF n1(4), of K] unfolding B n1(1,2) by auto
        next
          case (PollReady x)
          then show ?thesis using go [OF n1(3) le_refl, of x] n1(3) [of x] unfolding B n1(1) by (auto simp: prices)
        qed
        then show "paid (full_credit K) K (poll_credit K f + full_credit K w)
            (Does (if first then Call (CloneWaker i) else Quiet) (f\<lparr>ts_code := k out\<rparr>), w')"
          using pp full_same [OF poll_chans [OF p], of K 0] by (cases first) (simp_all add: paid_def wakes_def)
      qed
      then show ?thesis using None PollSub Some by (simp add: task_move_def)
    qed (use None PollSub in \<open>simp add: task_move_def paid_def\<close>)
  next
    case (Discard j p)
    obtain n1 where n1: "n = Suc n1" "paced K n1 K p" using n(2) Discard by (auto elim: paced_DiscardE)
    show ?thesis
    proof (cases "j < length (ts_held f)")
      case True
      let ?f = "f\<lparr>ts_code := p, ts_held := without j (ts_held f)\<rparr>"
      have "length (ts_held f) = Suc (length (without j (ts_held f)))" using True by (simp add: without_def)
      then have "held_price K * length (ts_held f) = held_price K * length (without j (ts_held f)) + held_price K"
        by (simp only: mult_Suc_right add.commute)
      then have "poll_credit K ?f + held_price K = poll_credit K (f\<lparr>ts_code := p\<rparr>)"
        using None by (simp only: poll_credit_def side_price_def) simp
      then have "poll_credit K ?f + full_credit K w + entry_price K + 1 < poll_credit K f + full_credit K w"
        using go [OF n1(2) le_refl] unfolding B n1(1) by (simp add: prices del: poll_credit_other)
      from drop_move_paid [OF _ _ w this] show ?thesis
        using n1(2) None Discard True by (auto simp: task_move_def Let_def)
    qed (use None Discard in \<open>simp add: task_move_def paid_def\<close>)
  next
    case (SubmitDetached this q p)
    obtain n1 where n1: "n = Suc n1" "paced K n1 K p" using n(2) SubmitDetached by (auto elim: paced_DetachedE)
    note g = go [OF n1(2) le_refl]
    show ?thesis
    proof (cases "ok this q")
      case True
      have "paid (full_credit K) K (poll_credit K f + full_credit K w)
          (panicking w (mapR (\<lambda>w'. (Does Quiet (f\<lparr>ts_code := p\<rparr>), w')) (rt_detach E T this q w)))"
      proof (rule paid_panicking)
        fix w' assume d: "rt_detach E T this q w = Inr w'"
        note dp = detach_price [OF d w, of K]
        then have "full_credit K w' \<le> full_credit K w + entry_price K" using full_same [OF detach_chans [OF d], of K] by simp
        then show "paid (full_credit K) K (poll_credit K f + full_credit K w) (Does Quiet (f\<lparr>ts_code := p\<rparr>), w')"
          using g n1 dp by (auto simp: paid_def B prices)
      qed
      then show ?thesis using None SubmitDetached True by (simp add: task_move_def)
    qed (use None SubmitDetached w g n1 in \<open>auto simp: task_move_def paid_def B prices\<close>)
  next
    case (Fork j child p)
    obtain a b where ab: "n = Suc (a + b)" "paced K a K child" "paced K b K p" using n(2) Fork by (auto elim: paced_ForkE)
    show ?thesis by (rule fork_paid [OF None Fork ab(2,3) B [unfolded ab(1)] w])
  next
    case (Join j k)
    obtain n1 m1 where n1: "n = Suc n1" "m = Suc (Suc m1)" "\<And>r. paced K n1 K (k (Some r))" "paced K (Suc n1) m1 (k None)"
      using n(2) Join by (auto elim: paced_JoinE)
    show ?thesis
    proof (cases "handle_at_index j (ts_held f)")
      case (Some ch)
      have "poll_credit K (f\<lparr>ts_code := k (Some r)\<rparr>) < poll_credit K f" for r
        using go [OF n1(3) le_refl, of r] unfolding B n1(1) by (simp add: prices)
      moreover have "poll_credit K (f\<lparr>ts_code := k None\<rparr>) + 1 < poll_credit K f"
        using go [OF n1(4)] n(1) n1(2) unfolding B n1(1,2) by simp
      moreover have "paced K (Suc n1) K (k None)" using paced_more [OF n1(4)] n(1) n1(2) by simp
      ultimately show ?thesis
        using join_paid [of f j K n1 k "Suc n1" w ch i] n1(3) at_index(2) [OF Some] w None Join Some by (simp add: task_move_def)
    qed (use None Join in \<open>simp add: task_move_def paid_def\<close>)
  next
    case (TryJoin j k)
    obtain n1 where n1: "n = Suc n1" "\<And>v. paced K n1 K (k v)" using n(2) TryJoin by (auto elim: paced_TryJoinE)
    have "poll_credit K (f\<lparr>ts_code := k v\<rparr>) < poll_credit K f" for v
      using go [OF n1(2) le_refl, of v] unfolding B n1(1) by (simp add: prices)
    from try_join_paid [OF None TryJoin n1(2) this w] show ?thesis .
  next
    case (WakeMe p)
    obtain n1 where n1: "n = Suc n1" "paced K n1 K p" using n(2) WakeMe by (auto elim: paced_WakeE)
    then show ?thesis
      using go [OF n1(2) le_refl] None WakeMe w by (auto simp: task_move_def paid_def B prices wakes_def)
  next
    case (Yield p)
    have n1: "paced K n K p" using n(2) Yield by (auto elim: paced_YieldE)
    have "rest_credit K (f\<lparr>ts_code := p\<rparr>) \<le> step_price K * n + held_price K * length (ts_held f)"
      using rest_credit_le [of K n "f\<lparr>ts_code := p\<rparr>"] n1 None by (simp add: side_price_def)
    then show ?thesis using n1 None Yield w by (auto simp: task_move_def paid_def B)
  qed
qed

lemma act_price:
  assumes "destructor_act E T C d w = Inr (w', cl)" "tame w"
  shows "tame w' \<and> full_credit K w' + wakes K cl \<le> destructor_credit K d + full_credit K w"
proof (cases d)
  case (DropHeld h)
  then have "held_drop E T C h w = Inr (w', cl)" using assms(1) by (simp add: destructor_act_def)
  from held_drop_price [OF this assms(2), of K] DropHeld show ?thesis by simp
next
  case (EndLeft l)
  then show ?thesis using assms by (cases l) (auto simp: destructor_act_def wakes_def)
qed

lemma after_price:
  assumes "tame w"
  shows "tame (destructor_after d w) \<and> full_credit K (destructor_after d w) \<le> full_credit K w"
  unfolding destructor_after_def left_after_def full_credit_def
  using assms unlend_price [OF assms, of _ K] by (auto split: option.splits leftover.splits)

end

subsection \<open>Every wait uses up credit\<close>

lemma reaped_size:
  "reaped cq cs P P' \<Longrightarrow> list_all (\<lambda>c. \<not> has_more cq (from_completion c)) cs \<Longrightarrow> size P = size P' + length cs"
proof (induction rule: reaped.induct)
  case (final e P c cs P')
  then have "size P = Suc (size (P - {#e#}))" by (metis size_Suc_Diff1)
  then show ?case using final by (simp del: size_Diff_singleton)
qed simp_all

lemma a_entries_woken: "length (woken (snd (a_entries cq cs m))) \<le> length cs"
proof (induction cs arbitrary: m)
  case (Cons c cs)
  have "length (woken (snd (a_notify cq r a))) \<le> 1" for r a by (cases "(cq, r, a)" rule: a_notify.cases) simp_all
  then have "length (woken (snd (a_entry cq c m))) \<le> 1" by (simp add: a_entry_def Let_def split: option.splits)
  then show ?case using Cons.IH [of "fst (a_entry cq c m)"] by (simp add: split_beta)
qed simp

lemma entries_uring: "ring_handle_entries E cs r = Inr (r', ev) \<Longrightarrow> uring r' = uring r"
  by (induction cs arbitrary: r ev)
    (auto simp: bindR_Inr_iff mapR_Inr_iff ring_handle_entry_def Let_def split: if_splits)

lemma wakes_all_calls: "wakes_all K (wake_calls ev) = Suc K * length (woken ev)"
proof -
  have "wakes_all K (concat (map (\<lambda>k. [WakeByRef k, DropWaker k]) ks)) = Suc K * length ks" for ks
    by (induction ks) (simp_all add: wakes_def)
  then show ?thesis by (simp add: wake_calls_def)
qed

lemma wakers_live:
  assumes "wakers_of m \<noteq> {#}"
  shows "waiting m \<noteq> {}"
proof -
  obtain k where "k \<in> dom m" "waker_in (m k) \<noteq> {#}"
    using assms unfolding wakers_of_def by (meson sum.neutral)
  then have "k \<in> waiting m"
    by (auto simp: waiting_def waker_in_def expects_more_def split: option.splits acompletion.splits)
  then show ?thesis by blast
qed

locale answering_runtime = joining_runtime E valid pending uvalid T ok C own_c waits_c open_c used_c
  for E :: "('u, 's) env" and valid :: "'s \<Rightarrow> bool"
    and pending :: "'u \<Rightarrow> sqe multiset" and uvalid :: "'u \<Rightarrow> bool"
    and T :: "('o, 'out, 'w, 'z) multi_ops_scheme" and ok :: "ptr \<Rightarrow> 'o \<Rightarrow> bool"
    and C :: "('c, 'v) oneshot_ops" and own_c :: "'c \<Rightarrow> task_id multiset"
    and waits_c :: "'c \<Rightarrow> (chan \<times> task_id) set" and open_c used_c :: "'c \<Rightarrow> chan set" +
  assumes answers: "uvalid u \<Longrightarrow> n \<le> size (pending u) \<Longrightarrow> ur_submit_and_wait (env_ur E) n u = Some u' \<Longrightarrow>
    ur_completion (env_ur E) u' = (cs, u'') \<Longrightarrow> n \<le> length cs"
begin

lemma owes_pending: "ring_inv E valid pending uvalid r \<Longrightarrow> ring_owes r = size (pending (uring r))"
  using inv_parts(3) [of r] counted_pending_size [of "pending (uring r)" r "ring_abs E r"] by (simp add: ring_owes_def)

text \<open>A wait reaps at least one completion when one is owed, and wakes at most one task for each.\<close>

lemma wait_owes:
  assumes i: "ring_inv E valid pending uvalid r" and room: "roomy E pending r" and t: "tidy E valid pending r"
    and w: "ring_wait E r = Inr (r', ev)"
  shows "ring_owes r' + length (woken ev) \<le> ring_owes r" and "0 < ring_owes r \<Longrightarrow> ring_owes r' < ring_owes r"
proof -
  have p: "plain pending r" using t by (simp add: tidy_def)
  obtain ds where ds: "ev = snd (a_entries (env_cq E) ds (ring_abs E r))" "ring_inv E valid pending uvalid r'"
      "reaped (env_cq E) ds (pending (uring r)) (pending (uring r'))"
    using wait_sound [OF i room plain_calm [OF p]] w by auto
  have "list_all (\<lambda>c. \<not> has_more (env_cq E) (from_completion c)) ds"
    using reaped_more [OF ds(3)] p by (force simp: list_all_iff plain_def)
  from reaped_size [OF ds(3) this] show "ring_owes r' + length (woken ev) \<le> ring_owes r"
    using owes_pending [OF i] owes_pending [OF ds(2)] a_entries_woken [of "env_cq E" ds "ring_abs E r"] ds(1) by simp
  assume pos: "0 < ring_owes r"
  note ip = inv_parts [OF i] and rc = room_counters [OF i room]
  have c: "unat (canceled r) \<le> unat (detached r)" "unat (canceled r) \<le> unat (active r)"
    using ip(3) card_gone [of "ring_abs E r"] by (auto simp: counted_def)
  obtain n where n: "ring_want r = Inr n" "unat n \<le> ring_owes r" "0 < unat n"
    using want_bound [OF c rc(4)] pos by (auto simp: ring_owes_def)
  have "unat (active r + detached r) = ring_owes r" using unat_u32_add [OF rc(4)] by (simp add: ring_owes_def)
  then have nz: "active r + detached r \<noteq> 0" using pos by auto
  obtain u where u: "ur_submit_and_wait (env_ur E) (unat n) (uring r) = Some u"
      "ring_handle_completions E (r\<lparr>uring := u, canceled := 0\<rparr>) = Inr (r', ev)"
    using w nz rc(4) n(1) by (auto simp: ring_wait_def ring_submit_and_wait_def bindR_Inr_iff expectR_Inr_iff)
  obtain cs u2 where cs: "ur_completion (env_ur E) u = (cs, u2)" by fastforce
  note wp = wait_pending [OF ip(1) u(1)]
  have "pending (uring r') = pending u2"
    using u(2) cs entries_uring [of E cs _ r' ev] by (auto simp: ring_handle_completions_def)
  moreover have "reaped (env_cq E) cs (pending u) (pending u2)" using completion_reaped [OF _ cs] wp by simp
  moreover have "list_all (\<lambda>c. \<not> has_more (env_cq E) (from_completion c)) cs"
    using plain_final [OF p _ _ cs] wp by simp
  moreover have "unat n \<le> length cs" using answers [OF ip(1) _ u(1) cs] n(2) owes_pending [OF i] by simp
  ultimately show "ring_owes r' < ring_owes r"
    using reaped_size [of "env_cq E" cs] wp owes_pending [OF i] owes_pending [OF ds(2)] n(3) by fastforce
qed

lemma wait_price:
  assumes w: "rt_wait E w = Inr (w', cs)" "tame w" "wok R w"
  shows "tame w' \<and> world_credit K w' + wakes_all K cs + (if ring_wakers E w = {#} then 0 else 1) \<le> world_credit K w"
proof -
  obtain ev c where c: "reactor_wait E (sys_cell (rt_sys w)) = Inr (ev, c)"
      "w' = w\<lparr>rt_sys := (rt_sys w)\<lparr>sys_cell := c\<rparr>\<rparr>" "cs = wake_calls ev" "\<not> crowded E (sys_cell (rt_sys w))"
    using w(1) by (auto simp: rt_wait_def on_ring_def mapR_Inr_iff split: if_splits)
  then obtain r r' where r: "sys_cell (rt_sys w) = Ready r" "ring_wait E r = Inr (r', ev)" "c = Ready r'"
    by (auto simp: reactor_wait_def mapR_Inr_iff split: cell.splits)
  have l: "rt_lent w = None" using w(2) r(1) by (simp add: tame_def)
  have sr: "ring_inv E valid pending uvalid r" "tidy E valid pending r"
    using w(3) wok_ready [OF l r(1), of R] by (simp_all add: sound_ring_def)
  have room: "roomy E pending r" using not_crowded [OF sr(1)] c(4) r(1) by simp
  note o' = wait_owes [OF sr(1) room sr(2) r(2)]
  have pos: "0 < ring_owes r" if "ring_wakers E w \<noteq> {#}"
  proof -
    have "waiting (ring_abs E r) \<noteq> {}" using wakers_live that l r(1) by (simp add: ring_wakers_def rt_ring_def)
    then show ?thesis
      using inv_parts(3) [OF sr(1)] by (auto simp: counted_def ring_owes_def finite_waiting card_gt_0_iff)
  qed
  define d where "d = ring_owes r - ring_owes r'"
  have d: "ring_owes r = ring_owes r' + d" "length (woken ev) \<le> d" "ring_wakers E w \<noteq> {#} \<Longrightarrow> 0 < d"
    using o' pos by (auto simp: d_def)
  have "Suc K * length (woken ev) + (if ring_wakers E w = {#} then 0 else 1) \<le> entry_price K * d"
    using mult_le_mono2 [OF d(2), of "Suc K"] d(3) by (auto simp: entry_price_def)
  then have "world_credit K w' + wakes_all K cs + (if ring_wakers E w = {#} then 0 else 1) \<le> world_credit K w"
    using l r c(2,3) d(1) by (simp add: world_credit_def rt_ring_def wakes_all_calls distrib_left)
  then show ?thesis using w(2) r(1,3) c(2) l by (simp add: tame_def)
qed

lemma full_wait_price:
  assumes w: "rt_wait E w = Inr (w', cs)" "tame w" "wok R w"
  shows "tame w' \<and> full_credit K w' + wakes_all K cs + (if ring_wakers E w = {#} then 0 else 1) \<le> full_credit K w"
  using wait_price [OF w, of K] wait_chans [OF w(1)] by (simp add: full_credit_def)

lemma chans_call_price:
  assumes "on_chans_call g w = (w', cl)" "tame w"
    and "\<And>c'. g (rt_chans w) = (c', cl) \<Longrightarrow> still waits_c open_c used_c (rt_chans w) c' \<and> ch \<notin> open_c c' \<and>
      (cl \<noteq> None \<longrightarrow> ch \<in> open_c (rt_chans w))"
  shows "tame w' \<and> full_credit K w' + wakes K cl \<le> full_credit K w"
proof -
  obtain c' where c': "g (rt_chans w) = (c', cl)" "rt_chans w' = c'" using on_chans_call_eq [OF assms(1)] by blast
  note h = assms(3) [OF c'(1)]
  have "chans_credit K c' + wakes K cl \<le> chans_credit K (rt_chans w)"
    by (rule one_closed [of c' "rt_chans w" ch]) (use h in \<open>auto simp: still_def\<close>)
  then show ?thesis
    using on_chans_call_world [OF assms(1)] assms(2) c'(2) chans_tame [of w' w] by (simp add: full_credit_def)
qed

lemma chans_new_price:
  assumes "on_chans (os_new C) w = (ch, w')" "tame w"
  shows "tame w' \<and> full_credit K w' \<le> full_credit K w + Suc K"
proof -
  obtain c' where c': "os_new C (rt_chans w) = (ch, c')" "rt_chans w' = c'" using on_chans_eq [OF assms(1)] by blast
  have "chans_credit K c' \<le> chans_credit K (rt_chans w) + Suc K"
    by (rule one_opened [of c' ch]) (use new_open [OF c'(1)] in simp)
  then show ?thesis
    using on_chans_world [OF assms(1)] assms(2) c'(2) chans_tame [of w' w] by (simp add: full_credit_def)
qed

theorem live_contract:
  "finishing (runtime_env E T ok C) task_wakers (rt_wakers E own_c) wakers_before wakers_after
    task_duties duties_before duties_after (rt_ok E valid pending uvalid ok) (runtime_panic T)
    (ring_wakers E) known (\<lambda>w. waits_c (rt_chans w)) (\<lambda>w. open_c (rt_chans w)) (\<lambda>w. used_c (rt_chans w))
    K (Suc K) (paced_task K) tame (rest_credit K) (poll_credit K) (full_credit K) (destructor_credit K)"
proof (intro finishing.intro join_contract finishing_axioms.intro, goal_cases)
  case (1 f)
  then show ?case by (rule poll_starts)
next
  case (2 f i w cl f' w')
  then show ?case using task_move_paid [of K f w E T ok i] by (simp add: runtime_env_def paid_def)
next
  case (3 f i w f' w')
  then show ?case using task_move_paid [of K f w E T ok i] by (simp add: runtime_env_def paid_def)
next
  case (4 f i w g k w' ch)
  then show ?case using task_move_paid [of K f w E T ok i] by (simp add: runtime_env_def paid_def)
next
  case (5 f i w f' w')
  then show ?case using task_move_paid [of K f w E T ok i] by (simp add: runtime_env_def paid_def)
next
  case (6 f i w v w')
  then show ?case using task_move_paid [of K f w E T ok i] by (simp add: runtime_env_def paid_def)
next
  case (7 f)
  show ?case using parts_paid [of K f] by (simp add: runtime_env_def)
next
  case (8 d w w' cl)
  then show ?case using act_price [of E T d w w' cl] by (simp add: runtime_env_def)
next
  case (9 w d)
  then show ?case using after_price [of w d K] by (simp add: runtime_env_def)
next
  case (10 w ch w')
  then show ?case using chans_new_price [of w ch w' K] by (simp add: runtime_env_def)
next
  case (11 ch v w w' cl)
  then show ?case
    using chans_call_price [of "os_send C ch v" w w' cl ch K] send_open by (simp add: runtime_env_def)
next
  case (12 ch w w' cl)
  then show ?case
    using chans_call_price [of "os_close C ch" w w' cl ch K] close_open by (simp add: runtime_env_def)
next
  case (13 w w' cs R)
  then show ?case using full_wait_price [of w w' cs R K] by (simp add: runtime_env_def)
qed

end

end
