(* ===== verification/OneshotCells.thy ===== *)
theory OneshotCells
  imports RuntimeLive
begin

section \<open>Oneshot channels as cells\<close>

text \<open>
  An instance of the channels the executor uses: a list of cells, each with the waker of the
  receiver that waits, or the value sent, until it is taken or one side is gone.
\<close>

datatype 'v cell = Unsent "task_id option" | Sent 'v | Over

definition cells_new :: "'v cell list \<Rightarrow> chan \<times> 'v cell list" where
  "cells_new c = (length c, c @ [Unsent None])"

definition cell_at :: "'v cell list \<Rightarrow> chan \<Rightarrow> 'v cell" where
  "cell_at c ch = (if ch < length c then c ! ch else Over)"

text \<open>The sender is used up, with a value or without: the receiver that waits is woken.\<close>

definition cells_complete :: "chan \<Rightarrow> 'v cell \<Rightarrow> 'v cell list \<Rightarrow> 'v cell list \<times> waker_call option" where
  "cells_complete ch x c =
     (case cell_at c ch of Unsent wo \<Rightarrow> (c[ch := x], map_option WakeTask wo) | _ \<Rightarrow> (c, None))"

definition cells_forget :: "chan \<Rightarrow> 'v cell list \<Rightarrow> 'v cell list \<times> waker_call option" where
  "cells_forget ch c =
     (c[ch := Over], case cell_at c ch of Unsent wo \<Rightarrow> map_option DropWaker wo | _ \<Rightarrow> None)"

definition cells_try_recv :: "chan \<Rightarrow> 'v cell list \<Rightarrow> (unit + 'v option) \<times> 'v cell list" where
  "cells_try_recv ch c =
     (case cell_at c ch of
        Unsent _ \<Rightarrow> (Inr None, c)
      | Sent v \<Rightarrow> (Inr (Some v), c[ch := Over])
      | Over \<Rightarrow> (Inl (), c))"

definition cells_recv :: "chan \<Rightarrow> task_id \<Rightarrow> 'v cell list \<Rightarrow> ((unit + 'v) + task_id option) \<times> 'v cell list" where
  "cells_recv ch i c =
     (case cell_at c ch of
        Unsent wo \<Rightarrow> (Inr wo, c[ch := Unsent (Some i)])
      | Sent v \<Rightarrow> (Inl (Inr v), c[ch := Over])
      | Over \<Rightarrow> (Inl (Inl ()), c))"

definition cells_ops :: "('v cell list, 'v) oneshot_ops" where
  "cells_ops =
     \<lparr>os_new = cells_new, os_send = (\<lambda>ch v. cells_complete ch (Sent v)),
      os_close = (\<lambda>ch. cells_complete ch Over), os_forget = cells_forget,
      os_try_recv = cells_try_recv, os_recv = cells_recv\<rparr>"

definition cell_waker :: "'v cell \<Rightarrow> task_id multiset" where
  "cell_waker x = (case x of Unsent (Some k) \<Rightarrow> {#k#} | _ \<Rightarrow> {#})"

definition cells_wakers :: "'v cell list \<Rightarrow> task_id multiset" where
  "cells_wakers c = (\<Sum>x\<leftarrow>c. cell_waker x)"

definition cells_waits :: "'v cell list \<Rightarrow> (chan \<times> task_id) set" where
  "cells_waits c = {(ch, i). cell_at c ch = Unsent (Some i)}"

definition cells_open :: "'v cell list \<Rightarrow> chan set" where
  "cells_open c = {ch. \<exists>wo. cell_at c ch = Unsent wo}"

definition cells_used :: "'v cell list \<Rightarrow> chan set" where
  "cells_used c = {..<length c}"

lemma cell_at_update: "cell_at c ch \<noteq> Over \<Longrightarrow> cell_at (c[ch := x]) d = (if d = ch then x else cell_at c d)"
  by (auto simp: cell_at_def split: if_splits)

lemma cell_at_over: "cell_at (c[ch := Over]) d = (if d = ch then Over else cell_at c d)"
  by (auto simp: cell_at_def)

lemma cells_update:
  assumes "cell_at c ch \<noteq> Over"
  shows "cells_wakers (c[ch := x]) + cell_waker (cell_at c ch) = cells_wakers c + cell_waker x"
proof -
  have "ch < length c" using assms by (simp add: cell_at_def split: if_splits)
  then show ?thesis
    using sum_list_update_add [of ch c cell_waker x] by (simp add: cells_wakers_def cell_at_def)
qed

lemma cells_over: "cells_wakers (c[ch := Over]) + cell_waker (cell_at c ch) = cells_wakers c"
proof (cases "cell_at c ch = Over")
  case True
  then have "c[ch := Over] = c" by (cases "ch < length c") (auto simp: cell_at_def list_update_same_conv list_update_beyond)
  then show ?thesis using True by (simp add: cell_waker_def)
next
  case False
  from cells_update [OF this, of Over] show ?thesis by (simp add: cell_waker_def [of Over])
qed

lemma pays_lose:
  "Y + {#a#} = X \<Longrightarrow> pays X (Some (WakeTask a)) Y" "Y + {#a#} = X \<Longrightarrow> pays X (Some (DropWaker a)) Y"
  by (auto simp: pays_def)

lemma complete_wakers:
  assumes "cells_complete ch x c = (c', cl)" "cell_waker x = {#}"
  shows "pays (cells_wakers c) cl (cells_wakers c')"
proof (cases "cell_at c ch")
  case (Unsent wo)
  have "cell_at c ch \<noteq> Over" using Unsent by simp
  from cells_update [OF this, of x] have u: "cells_wakers (c[ch := x]) + cell_waker (cell_at c ch) = cells_wakers c"
    using assms(2) by simp
  show ?thesis
    using assms(1) u Unsent by (cases wo) (auto simp: cells_complete_def cell_waker_def pays_lose, simp add: pays_def)
qed (use assms in \<open>auto simp: cells_complete_def pays_def\<close>)

lemma complete_open:
  assumes "cells_complete ch x c = (c', cl)" "\<And>wo. x \<noteq> Unsent wo"
  shows "still cells_waits cells_open cells_used c c' \<and> ch \<notin> cells_open c' \<and> (cl \<noteq> None \<longrightarrow> ch \<in> cells_open c)"
  using assms
  by (cases x; cases "cell_at c ch")
    (auto simp: cells_complete_def still_def cells_waits_def cells_open_def cells_used_def cell_at_update split: if_splits)

lemma cells_wakers_waits: "i \<in># cells_wakers c \<Longrightarrow> \<exists>ch. (ch, i) \<in> cells_waits c"
proof -
  assume "i \<in># cells_wakers c"
  then obtain x where x: "x \<in> set c" "i \<in># cell_waker x" unfolding cells_wakers_def by (induction c) auto
  then obtain ch where "ch < length c" "c ! ch = x" by (metis in_set_conv_nth)
  then show ?thesis
    using x(2) by (auto simp: cells_waits_def cell_at_def cell_waker_def split: cell.splits option.splits)
qed

interpretation cells: oneshot_channels cells_ops cells_wakers
proof (unfold_locales, goal_cases)
  case (1 c ch c')
  then show ?case by (auto simp: cells_ops_def cells_new_def cells_wakers_def cell_waker_def)
next
  case (2 ch v c c' cl)
  then show ?case using complete_wakers [of ch "Sent v" c c' cl] by (simp add: cells_ops_def cell_waker_def)
next
  case (3 ch c c' cl)
  then show ?case using complete_wakers [of ch Over c c' cl] by (simp add: cells_ops_def cell_waker_def)
next
  case (4 ch c c' cl)
  show ?case
  proof (cases "cell_at c ch")
    case (Unsent wo)
    then show ?thesis
      using 4 cells_over [of c ch]
      by (cases wo) (auto simp: cells_ops_def cells_forget_def cell_waker_def pays_lose, simp add: pays_def)
  qed (use 4 cells_over [of c ch] in \<open>auto simp: cells_ops_def cells_forget_def cell_waker_def [of "Sent _"]
      cell_waker_def [of Over] pays_def\<close>)
next
  case (5 ch c x c')
  then show ?case
    using cells_over [of c ch]
    by (auto simp: cells_ops_def cells_try_recv_def cell_waker_def [of "Sent _"] split: cell.splits)
next
  case (6 ch i c r c')
  then show ?case
    using cells_over [of c ch] by (auto simp: cells_ops_def cells_recv_def cell_waker_def [of "Sent _"] split: cell.splits)
next
  case (7 ch i c old c')
  then have h: "cell_at c ch = Unsent old" "c' = c[ch := Unsent (Some i)]"
    by (auto simp: cells_ops_def cells_recv_def split: cell.splits)
  show ?case using cells_update [of c ch "Unsent (Some i)"] h by (simp add: cell_waker_def split: option.splits)
qed

interpretation cells: open_channels cells_ops cells_wakers cells_waits cells_open cells_used
proof (unfold_locales, goal_cases)
  case (1 i c)
  then show ?case by (rule cells_wakers_waits)
next
  case (4 c)
  have "cells_open c \<subseteq> {..<length c}" by (auto simp: cells_open_def cell_at_def split: if_splits)
  then show ?case by (rule finite_subset) simp
next
  case (5 c ch c')
  then show ?case
    by (auto simp: cells_ops_def cells_new_def cells_used_def cells_open_def cells_waits_def cell_at_def nth_append
        split: if_splits)
next
  case (6 ch v c c' cl)
  then show ?case using complete_open [of ch "Sent v" c c' cl] by (simp add: cells_ops_def)
next
  case (7 ch c c' cl)
  then show ?case using complete_open [of ch Over c c' cl] by (simp add: cells_ops_def)
next
  case (8 ch c c' cl)
  then show ?case
    by (auto simp: cells_ops_def cells_forget_def still_def cells_waits_def cells_open_def cells_used_def cell_at_over
        split: cell.splits option.splits if_splits)
next
  case (9 ch c x c')
  then show ?case
    by (auto simp: cells_ops_def cells_try_recv_def still_def cells_waits_def cells_open_def cells_used_def cell_at_over
        split: cell.splits if_splits)
next
  case (10 ch i c r c')
  then show ?case
    by (auto simp: cells_ops_def cells_recv_def still_def cells_waits_def cells_open_def cells_used_def cell_at_over
        split: cell.splits if_splits)
next
  case (11 ch i c old c')
  then show ?case
    by (auto simp: cells_ops_def cells_recv_def cells_waits_def cells_open_def cells_used_def cell_at_update
        split: cell.splits if_splits)
qed (auto simp: cells_waits_def cells_open_def cells_used_def cell_at_def split: if_splits)

end
