(* ===== verification/LateKernel.thy ===== *)
theory LateKernel
  imports Scripted
begin

section \<open>A kernel that answers what it is asked to wait for\<close>

text \<open>
  A kernel that answers as late as it may: a wait for \<open>n\<close> completions completes the \<open>n\<close> entries
  pending longest, with the result 0.
\<close>

record late_kernel =
  lk_pending :: "sqe list"
  lk_asked :: nat

definition late_answer :: "sqe \<Rightarrow> cqe" where
  "late_answer e = \<lparr>cqe_user_data = sq_user_data e, cqe_result = 0, cqe_flags = 0\<rparr>"

definition late_uring :: "late_kernel uring_ops" where
  "late_uring =
     \<lparr>ur_build = (\<lambda>n. Some \<lparr>lk_pending = [], lk_asked = 0\<rparr>),
      ur_register_buffers_sparse = (\<lambda>_ u. Some u),
      ur_register_files_sparse = (\<lambda>_ u. Some u),
      ur_register_file_alloc_range = (\<lambda>_ _ u. Some u),
      ur_register_files_update = (\<lambda>_ _ u. Some u),
      ur_register_buffers_update = (\<lambda>_ _ u. Inr u),
      ur_push = (\<lambda>e u. Some (u\<lparr>lk_pending := lk_pending u @ [e]\<rparr>)),
      ur_submit_and_wait = (\<lambda>n u. Some (u\<lparr>lk_asked := n\<rparr>)),
      ur_completion = (\<lambda>u. (map late_answer (take (lk_asked u) (lk_pending u)),
                             u\<lparr>lk_pending := drop (lk_asked u) (lk_pending u), lk_asked := 0\<rparr>))\<rparr>"

definition late_env :: "(late_kernel, completion option list) env" where
  "late_env = \<lparr>env_ur = late_uring, env_cq = cq_abi, env_sl = vec_slab\<rparr>"

definition late_mset :: "late_kernel \<Rightarrow> sqe multiset" where
  "late_mset u = mset (lk_pending u)"

lemma late_reaped: "reaped cq_abi (map late_answer es) (mset es + P) P"
proof (induction es)
  case (Cons e es)
  have "\<not> has_more cq_abi (from_completion (late_answer e))"
    by (simp add: has_more_def from_completion_def late_answer_def cq_abi_def)
  then show ?case using Cons by (auto intro!: reaped.final [of e] simp: late_answer_def)
qed (simp add: reaped.nil)

interpretation late_queue: kernel_queue late_uring cq_abi late_mset "\<lambda>_. True"
proof (unfold_locales, goal_cases)
  case (8 u cs u')
  have "mset (lk_pending u) = mset (take (lk_asked u) (lk_pending u)) + mset (drop (lk_asked u) (lk_pending u))"
    by (metis append_take_drop_id mset_append)
  then show ?case using 8 late_reaped [of "take (lk_asked u) (lk_pending u)"] by (auto simp: late_uring_def late_mset_def)
qed (auto simp: late_uring_def late_mset_def)

interpretation late: ring_env late_env vec_valid late_mset "\<lambda>_. True"
  unfolding ring_env_def late_env_def
  by (simp add: vec_completions.completion_slab_axioms late_queue.kernel_queue_axioms)

end
