(* ===== verification/RuntimeProps.thy ===== *)
theory RuntimeProps
  imports OneshotCells LateKernel ReactorProps ExecutorProps
begin

section \<open>Properties of the whole runtime\<close>











subsection \<open>Returning\<close>

text \<open>The runtime over a kernel that answers as late as it may.\<close>

interpretation late_driver: driver late_env vec_valid late_mset "\<lambda>_. True" nop_op "\<lambda>_ _. True" "\<lambda>_. False"
  by (intro driver.intro late.ring_env_axioms nop.live_op_axioms driver_axioms.intro nop_agrees)

interpretation late_runtime: answering_runtime late_env vec_valid late_mset "\<lambda>_. True" nop_op "\<lambda>_ _. True" cells_ops cells_wakers
    cells_waits cells_open cells_used
  by (intro answering_runtime.intro joining_runtime.intro async_runtime.intro cells.open_channels_axioms late_driver.driver_axioms cells.oneshot_channels_axioms
      answering_runtime_axioms.intro)
    (auto simp: late_env_def late_uring_def late_mset_def)

interpretation late_run: finishing "runtime_env late_env (nop_op :: (nop, unit, unit) multi_ops) (\<lambda>_ _. True) cells_ops" task_wakers
    "rt_wakers late_env cells_wakers" wakers_before wakers_after task_duties duties_before duties_after
    "rt_ok late_env vec_valid late_mset (\<lambda>_. True) (\<lambda>_ _. True)" "runtime_panic (nop_op :: (nop, unit, unit) multi_ops)"
    "ring_wakers late_env" known "\<lambda>w. cells_waits (rt_chans w)" "\<lambda>w. cells_open (rt_chans w)" "\<lambda>w. cells_used (rt_chans w)"
    2 "Suc 2" "paced_task 2" tame "rest_credit 2" "poll_credit 2" "cells.full_credit 2" "destructor_credit 2"
  by (rule late_runtime.live_contract)








end
