(* ===== verification/Spec2Isabelle.thy ===== *)
theory Spec2Isabelle
  imports ReactorProps OpProps OpsLink OpsMisc ExecutorProps BufProps Adapters FsProps AsyncProps Streams ShareBuild ShareProps Axum Duplex WakeProps RuntimeProps
begin

text \<open>
  inel is an asynchronous runtime for Linux over \<open>io_uring\<close>. This development models its crates
  \<open>inel-reactor\<close> (crates/inel-reactor/src), \<open>inel-executor\<close> (crates/inel-executor/src) and
  \<open>inel\<close> (crates/inel/src), and proves the properties that make them correct.

  \<^bold>\<open>The program.\<close> A task is polled by the \<open>Executor\<close> with a waker. It polls a \<open>Submission\<close>, which
  builds a submission queue entry from an operation (\<open>Op::entry\<close>) and gives it, with the waker, to
  the \<open>Ring\<close>. The ring puts an entry for it in its \<open>CompletionSet\<close>; the slab's key becomes the
  entry's \<open>user_data\<close>. When no task can run, the executor calls \<open>Ring::wait\<close>, which waits for the
  kernel, hands each completion to the set, and the set wakes the task; the next poll takes the
  result and \<open>Op::result\<close> interprets it. A submission dropped in flight turns its operation into a
  \<open>Cancellation\<close>, which keeps the memory the kernel still uses until the completion arrives. On top
  of this the crate \<open>inel\<close> has owned reads and writes, buffered readers and writers, shared buffers,
  files, directories, TCP and timers.

  \<^bold>\<open>The theories.\<close>

  \<^item> \<open>Prelude\<close>: machine integers, panics, errors and fallible results, vectors. \<open>Slab\<close>: the interface
    of the slab crate and an instance.
  \<^item> The reactor. \<open>Register\<close> (ring/register.rs): slots and the contract of a pool of handles.
    \<open>Results\<close>, \<open>Cancel\<close> (cancellation.rs), \<open>Buffer\<close> (buffer.rs: stable buffers and views, with
    their contract \<open>sound_buffer\<close>), \<open>Sqe\<close> (the entries), \<open>Limits\<close> and \<open>Addr\<close> (util.rs).
    \<open>Completion\<close> is ring/completion.rs, \<open>CompletionSpec\<close> its abstract map of operations with the
    simulation. \<open>Ring\<close> is ring/mod.rs, \<open>RingSpec\<close> the invariant that ties its counters to what the
    kernel has pending, \<open>RingOps\<close> the proof that each operation keeps it. \<open>Reactor\<close> is reactor.rs
    and the thread-local ring of inel/src/lib.rs.
  \<^item> Operations. \<open>Source\<close> (source.rs), \<open>Op\<close> (op/mod.rs: the trait as a record, its safety comment as
    the locales \<open>live_op\<close> and \<open>safe_op\<close>), \<open>Submission\<close> (submission.rs); \<open>OpsRead\<close>, \<open>OpsWrite\<close>,
    \<open>OpsFile\<close>, \<open>OpsLink\<close>, \<open>OpsMisc\<close>, \<open>OpsNet\<close> and \<open>Group\<close> are the files of op/ and group.rs.
  \<^item> Whole programs. \<open>System\<close> is any program that creates, polls, drops and detaches operations and
    waits, in any order, as a relation of reachable states; \<open>SystemSafe\<close> its invariant; \<open>Scripted\<close>
    a kernel that answers from a script, on which everything evaluates.
  \<^item> The executor. \<open>Executor\<close> is the crate \<open>inel-executor\<close>, \<open>ExecutorSafe\<close> its reference counts,
    \<open>ExecutorJoin\<close> the order of the tasks that wait for each other, \<open>ExecutorRun\<close> its termination.
  \<^item> The runtime. \<open>Wakers\<close> counts the wakers the completion set owns, \<open>Runtime\<close> puts the executor over
    the ring (inel/src/lib.rs: \<open>spawn\<close>, \<open>block_on\<close>, \<open>run\<close>, \<open>GlobalReactor::wait\<close>) with tasks that run any
    program of submissions and join handles, \<open>RuntimeSafe\<close> shows that it meets the contract \<open>owning\<close> of the executor, \<open>RuntimeJoin\<close> that it meets
    \<open>handing\<close> (handles go only from a task to those it spawns), \<open>RuntimeLive\<close> that tasks that make finitely many steps (\<open>paced\<close>) over a kernel that answers meet \<open>finishing\<close>. \<open>OneshotCells\<close> and \<open>LateKernel\<close> are
    instances: channels, and a kernel that answers only what it is asked to wait for.
  \<^item> The crate \<open>inel\<close>. \<open>Owned\<close> (io/owned.rs, io/split.rs, source.rs, registered buffers), \<open>BufRead\<close>
    and \<open>BufWrite\<close> (the generic reader and writer), \<open>Share\<close> and \<open>ShareBuild\<close> (group.rs), \<open>Adapters\<close> (the buffered
    streams over plain, registered and shared buffers), \<open>Streams\<close> (streams over streams,
    compat/stream.rs), \<open>Async\<close> (async functions as a codatatype of polls), \<open>Fs\<close> and \<open>Files\<close> (fs/),
    \<open>Net\<close> (net/tcp.rs, time.rs, util.rs).
  \<^item> The third-party adapters. \<open>Compat\<close> (compat/hyper.rs, compat/rustls.rs) and \<open>Axum\<close>
    (compat/axum.rs).
  \<^item> Properties: \<open>RuntimeProps\<close> (C1 to C3), \<open>ReactorProps\<close> (C4 to C12), \<open>ExecutorProps\<close> (C13 to
    C16), \<open>BufProps\<close> (C17 to C22), \<open>FsProps\<close> (C23 to C25), \<open>OpProps\<close> (C26 to C30), \<open>AsyncProps\<close> (C31,
    C32), \<open>ShareProps\<close> (C33 to C37), \<open>Duplex\<close> (C38), \<open>WakeProps\<close> (C39, C40), each with its witness beside
    it.

  \<^bold>\<open>How the code is read.\<close> A struct is a record, an enum a datatype, a fallible function returns a sum,
  and a panic is a value of the type \<open>panic\<close>, so every \<open>unwrap\<close>, \<open>expect\<close>, index and
  \<open>unreachable!\<close> is a branch. Integers are words of their width; \<open>usize\<close> is \<open>nat\<close> with checked
  additions. Arithmetic overflow is a panic, as in debug builds. Pointers are addresses; what
  allocates takes the address of the new allocation as an argument (\<open>mem\<close>, \<open>fresh\<close>, \<open>this\<close>, \<open>at\<close>), and
  what frees or wakes returns events in the order of the code. Shared state (an \<open>Rc\<close>) is a store
  from addresses, threaded with the reactor's cell.

  \<^bold>\<open>Outside the repository\<close>, and so parameters: the slab crate (locale \<open>slab\<close>, instance \<open>vec_slab\<close>);
  the kernel's queues behind the crate \<open>io_uring\<close> (record \<open>uring_ops\<close>, contract \<open>kernel_queue\<close>,
  instances \<open>script_uring\<close> and \<open>late_uring\<close>) and its reading of flags (\<open>cqueue_ops\<close>, \<open>cq_abi\<close>); libc's limits; the
  oneshot channel (record \<open>oneshot_ops\<close>, contracts \<open>oneshot_channels\<close> and \<open>open_channels\<close>, instance \<open>cells_ops\<close>), \<open>FuturesUnordered\<close>, the futures the
  executor polls and its reactor (record \<open>exec_env\<close>, contracts \<open>owning\<close>, \<open>handing\<close> and \<open>finishing\<close>, instances: the
  executor's own tests, and the runtime over the ring); the futures a buffered stream reads
  and writes with (\<open>read_future\<close>, \<open>write_future\<close>, instance: a scripted file); \<open>join\<close>, \<open>read_to_end\<close>
  and \<open>write_all\<close> of the crate \<open>futures\<close>; what hyper, rustls and axum do with a stream; name resolution.

  \<^bold>\<open>What the lemmas show.\<close> Every operation of the completion set simulates the abstract map (C9, C10);
  the ring's counters count what is pending, so \<open>wait\<close> asks for what is owed and delivers it (C5, C8,
  C11); no interleaving breaks this and dropping leaks nothing (C4, C6, C7); slots are exclusive (C12,
  C35). The executor keeps its reference counts exact, loses no wake, and returns when the work is
  finite (C13 to C16). Both together are sound: a program of tasks over the ring leaks no task, no
  waker and no operation, and panics only as listed (C1); and it returns when its steps are finite and
  the kernel answers, also when its tasks join each other (C2). Buffered streams are their streams (C17 to
  C20), in both directions at once (C38, under the locale \<open>two_way\<close>). Operations keep to their buffers
  and free what they own once (C28, C29); provided buffers come back (C33, C34). The rest are
  conversions, options and names, and the places where the code does not keep its promises (C3, C21,
  C22, C25, C30, C36, C37, C39, C40).

  \<^bold>\<open>Bounds and fuel.\<close> The ring's contracts assume room: fewer than \<open>2 ^ 32\<close> entries in the slab and
  outstanding in the kernel (\<open>roomy\<close>). \<open>executor_run\<close>, \<open>executor_drain\<close> and \<open>poll_moves\<close> take fuel;
  C14 gives a credit that bounds it, C2 the bound for a program of \<open>b\<close> steps over the ring, and
  \<open>reactor_waits_once_per_round\<close> the exact number of rounds of the
  executor's own test. The runtime is modelled up to \<open>2 ^ 32 - 1\<close> operations in the set and in the kernel
  (\<open>crowded\<close>). \<open>writer_poll_write\<close> takes fuel, and C20 shows that 3 is enough for a buffer with room, C21
  that none is without.
  \<open>read_set_recycle\<close> ends because each round takes one buffer from the cancelled ones.

  \<^bold>\<open>Not modelled.\<close> The attribute macro, the module lists, \<open>Debug\<close>
  implementations, tests, benches and examples. Dropping an async function between two of its
  steps; what unwinding drops after a panic. \<open>block_on\<close> called inside a task, and multi-shot streams
  in the programs of \<open>Runtime\<close>.
\<close>

end
